(* ===== verification/GoNum.thy ===== *)
theory GoNum
  imports Complex_Main Prelude
begin

text \<open>
  Go's \<open>float64\<close>.  The engine's floating-point values come from JSON numbers and from integers, so
  they are finite; a finite double is modelled by the rational number it denotes (the two zeros,
  which no operation of the engine tells apart, are one value).  \<open>to_float64\<close> is IEEE 754
  round-to-nearest, ties to even, with gradual underflow, and \<open>None\<close> where the result would
  overflow.
\<close>

type_synonym float64 = rat

fun bit_length :: "nat \<Rightarrow> nat" where
  "bit_length n = (if n = 0 then 0 else Suc (bit_length (n div 2)))"

declare bit_length.simps [simp del]

definition pow2 :: "int \<Rightarrow> rat" where
  "pow2 e = (if 0 \<le> e then 2 ^ nat e else 1 / 2 ^ nat (- e))"

text \<open>The exponent \<open>e\<close> with \<open>pow2 e \<le> x < pow2 (e + 1)\<close>, for a positive \<open>x\<close>.\<close>

definition float_exp :: "rat \<Rightarrow> int" where
  "float_exp x =
     (let (n, d) = quotient_of x;
          e = int (bit_length (nat n)) - int (bit_length (nat d))
      in if pow2 e \<le> x then e else e - 1)"

definition round_half_even :: "rat \<Rightarrow> int" where
  "round_half_even x =
     (let f = \<lfloor>x\<rfloor>; r = x - of_int f
      in if r < 1 / 2 then f else if 1 / 2 < r then f + 1 else if even f then f else f + 1)"

definition to_float64 :: "rat \<Rightarrow> float64 option" where
  "to_float64 x =
     (if x = 0 then Some 0
      else
        let a = \<bar>x\<bar>;
            q = max (float_exp a - 52) (- 1074);
            r = of_int (round_half_even (a / pow2 q)) * pow2 q
        in if pow2 1024 \<le> r then None else Some (sgn x * r))"

text \<open>
  The value of a decimal literal with optional sign, fraction and exponent, as
  \<open>strconv.ParseFloat\<close> reads it; the exponent stops growing once it has reached 10000.
\<close>

definition read_exp :: "string \<Rightarrow> int" where
  "read_exp ds = foldl (\<lambda>e c. if e < 10000 then 10 * e + int (digit_val c) else e) 0 ds"

definition literal_parts :: "string \<Rightarrow> bool \<times> string \<times> string \<times> int" where
  "literal_parts s =
     (let neg = (s \<noteq> [] \<and> hd s = CHR ''-'');
          s0 = (if neg then tl s else s);
          ip = takeWhile is_digit_char s0;
          s1 = dropWhile is_digit_char s0;
          fr = (s1 \<noteq> [] \<and> hd s1 = CHR ''.'');
          fp = (if fr then takeWhile is_digit_char (tl s1) else []);
          s2 = (if fr then dropWhile is_digit_char (tl s1) else s1);
          s3 = tl s2;
          ex = (if s2 = [] then 0
                else if s3 \<noteq> [] \<and> hd s3 = CHR ''-'' then - read_exp (tl s3)
                else if s3 \<noteq> [] \<and> hd s3 = CHR ''+'' then read_exp (tl s3)
                else read_exp s3)
      in (neg, ip, fp, ex))"

definition pow10 :: "int \<Rightarrow> rat" where
  "pow10 e = (if 0 \<le> e then 10 ^ nat e else 1 / 10 ^ nat (- e))"

definition literal_value :: "string \<Rightarrow> rat" where
  "literal_value s =
     (let (neg, ip, fp, ex) = literal_parts s;
          v = of_nat (read_nat (ip @ fp)) * pow10 (ex - int (length fp))
      in if neg then - v else v)"

definition ParseFloat_literal :: "string \<Rightarrow> float64 option" where
  "ParseFloat_literal s = to_float64 (literal_value s)"

text \<open>The conversion \<open>float64(x)\<close> of a 32-bit integer is exact.\<close>

definition float_of_int32 :: "int32 \<Rightarrow> float64" where
  "float_of_int32 x = of_int (sint x)"

section \<open>Decimal round trips\<close>

lemma digit_val_digit_char [simp]: "n < 10 \<Longrightarrow> digit_val (digit_char n) = n"
  by (simp add: digit_val_def digit_char_def)

lemma is_digit_digit_char [simp]: "n < 10 \<Longrightarrow> is_digit_char (digit_char n)"
  by (simp add: is_digit_char_def digit_char_def less_eq_char_def)

lemma read_nat_snoc: "read_nat (s @ [c]) = 10 * read_nat s + digit_val c"
  by (simp add: read_nat_def)

lemma read_show_nat [simp]: "read_nat (show_nat n) = n"
proof (induction n rule: show_nat.induct)
  case (1 n)
  then show ?case
    by (subst show_nat.simps) (auto simp: read_nat_snoc read_nat_def)
qed

lemma show_nat_digits: "list_all is_digit_char (show_nat n)"
proof (induction n rule: show_nat.induct)
  case (1 n)
  then show ?case by (subst show_nat.simps) auto
qed

lemma digit_not_sign: "is_digit_char c \<Longrightarrow> c \<noteq> CHR ''-'' \<and> c \<noteq> CHR ''+''"
  by (auto simp: is_digit_char_def less_eq_char_def)

lemma show_nat_head: "\<exists>c cs. show_nat n = c # cs \<and> is_digit_char c"
  using show_nat_digits [of n] show_nat_nonempty [of n] by (cases "show_nat n") auto

lemma Atoi_itoa:
  assumes "int64_range i"
  shows "Atoi (itoa i) = Some i"
proof (cases "i < 0")
  case True
  then show ?thesis
    using assms show_nat_digits by (simp add: itoa_def Atoi_def)
next
  case False
  obtain c cs where "show_nat (nat i) = c # cs" "is_digit_char c"
    using show_nat_head by blast
  with False show ?thesis
    using assms show_nat_digits [of "nat i"] digit_not_sign [of c] read_show_nat [of "nat i"]
    by (simp add: itoa_def Atoi_def)
qed

text \<open>\<open>itoa\<close> is injective, so numbered Redis keys are distinct.\<close>

lemma show_nat_inj [key_inj]: "show_nat m = show_nat n \<longleftrightarrow> m = n"
  by (metis read_show_nat)

end
