(* ===== verification/GoJson.thy ===== *)
theory GoJson
  imports Prelude
begin

text \<open>
  The part of Go's \<^verbatim>\<open>encoding/json\<close> that the engine uses: the scanner and the tree of values it
  accepts (\<open>json_parse\<close>), and the escaping writer (\<open>json_print\<close>).  Struct decoding, which depends
  on the fields of the target, is in the theories of the structs and uses the field decoders at the
  end of this theory.

  The scanner is split in two: \<open>json_lex\<close> turns the bytes into tokens, and \<open>parse_value\<close> and
  \<open>parse_end\<close> are a push-down automaton over the tokens with an explicit stack of open arrays and
  objects, the \<open>parseState\<close> stack of Go's \<open>scanner\<close>, including its nesting limit.
\<close>

section \<open>UTF-8\<close>

definition byte_of :: "char \<Rightarrow> nat" where
  "byte_of c = of_char c"

definition is_cont :: "char \<Rightarrow> bool" where
  "is_cont c = (0x80 \<le> byte_of c \<and> byte_of c \<le> 0xBF)"

text \<open>
  The length of the well-formed UTF-8 sequence at the front of a string, 0 where there is none
  (\<open>utf8.DecodeRune\<close> then returns \<open>RuneError\<close> with width 1).
\<close>

definition rune_len :: "string \<Rightarrow> nat" where
  "rune_len s =
     (case s of
        [] \<Rightarrow> 0
      | a # t \<Rightarrow>
          let x = byte_of a in
          if x < 0x80 then 1
          else if 0xC2 \<le> x \<and> x \<le> 0xDF then
            (case t of b # _ \<Rightarrow> if is_cont b then 2 else 0 | [] \<Rightarrow> 0)
          else if 0xE0 \<le> x \<and> x \<le> 0xEF then
            (case t of
               b # c # _ \<Rightarrow>
                 if is_cont b \<and> is_cont c \<and> (x = 0xE0 \<longrightarrow> 0xA0 \<le> byte_of b)
                    \<and> (x = 0xED \<longrightarrow> byte_of b \<le> 0x9F) then 3 else 0
             | _ \<Rightarrow> 0)
          else if 0xF0 \<le> x \<and> x \<le> 0xF4 then
            (case t of
               b # c # d # _ \<Rightarrow>
                 if is_cont b \<and> is_cont c \<and> is_cont d \<and> (x = 0xF0 \<longrightarrow> 0x90 \<le> byte_of b)
                    \<and> (x = 0xF4 \<longrightarrow> byte_of b \<le> 0x8F) then 4 else 0
             | _ \<Rightarrow> 0)
          else 0)"

definition rune_error :: string where
  "rune_error = [CHR 0xEF, CHR 0xBF, CHR 0xBD]"

function valid_utf8 :: "string \<Rightarrow> bool" where
  "valid_utf8 [] = True"
| "valid_utf8 (c # cs) = (rune_len (c # cs) \<noteq> 0 \<and> valid_utf8 (drop (rune_len (c # cs) - 1) cs))"
  by pat_completeness auto
termination by (relation "measure length") auto

text \<open>\<open>utf8.AppendRune\<close>.\<close>

definition utf8_encode :: "nat \<Rightarrow> string" where
  "utf8_encode r =
     (if r < 0x80 then [char_of r]
      else if r < 0x800 then [char_of (0xC0 + r div 64), char_of (0x80 + r mod 64)]
      else if r < 0x10000 then
        [char_of (0xE0 + r div 4096), char_of (0x80 + r div 64 mod 64), char_of (0x80 + r mod 64)]
      else
        [char_of (0xF0 + r div 262144), char_of (0x80 + r div 4096 mod 64),
         char_of (0x80 + r div 64 mod 64), char_of (0x80 + r mod 64)])"

section \<open>String literals\<close>

definition hex_val :: "char \<Rightarrow> nat option" where
  "hex_val c =
     (if CHR ''0'' \<le> c \<and> c \<le> CHR ''9'' then Some (byte_of c - 48)
      else if CHR ''a'' \<le> c \<and> c \<le> CHR ''f'' then Some (byte_of c - 87)
      else if CHR ''A'' \<le> c \<and> c \<le> CHR ''F'' then Some (byte_of c - 55)
      else None)"

text \<open>\<open>getu4\<close> on the bytes after the letter \<open>u\<close>.\<close>

definition hex4 :: "string \<Rightarrow> nat option" where
  "hex4 s =
     (case s of
        a # b # c # d # _ \<Rightarrow>
          (case (hex_val a, hex_val b, hex_val c, hex_val d) of
             (Some w, Some x, Some y, Some z) \<Rightarrow> Some (4096 * w + 256 * x + 16 * y + z)
           | _ \<Rightarrow> None)
      | _ \<Rightarrow> None)"

text \<open>
  The code unit of a \<open>\u\<close> escape whose digits are \<open>s\<close>, as the bytes it stands for and the number
  of bytes it uses after the letter \<open>u\<close>: a surrogate pair is joined, a lone surrogate is the
  replacement character.
\<close>

definition unescape_u :: "string \<Rightarrow> (string \<times> nat) option" where
  "unescape_u s =
     (case hex4 s of
        None \<Rightarrow> None
      | Some r \<Rightarrow>
          if 0xD800 \<le> r \<and> r < 0xE000 then
            (case drop 4 s of
               b # u # t \<Rightarrow>
                 (if b = CHR 0x5C \<and> u = CHR ''u'' then
                    (case hex4 t of
                       Some r1 \<Rightarrow>
                         if r < 0xDC00 \<and> 0xDC00 \<le> r1 \<and> r1 < 0xE000
                         then Some (utf8_encode ((r - 0xD800) * 1024 + (r1 - 0xDC00) + 0x10000), 10)
                         else Some (rune_error, 4)
                     | None \<Rightarrow> Some (rune_error, 4))
                  else Some (rune_error, 4))
             | _ \<Rightarrow> Some (rune_error, 4))
          else Some (utf8_encode r, 4))"

definition simple_escape :: "char \<Rightarrow> char option" where
  "simple_escape c =
     (if c = CHR 0x22 \<or> c = CHR 0x5C \<or> c = CHR ''/'' then Some c
      else if c = CHR ''b'' then Some (CHR 0x08)
      else if c = CHR ''f'' then Some (CHR 0x0C)
      else if c = CHR ''n'' then Some (CHR 0x0A)
      else if c = CHR ''r'' then Some (CHR 0x0D)
      else if c = CHR ''t'' then Some (CHR 0x09)
      else None)"

text \<open>
  The literal after its opening quote: the bytes it denotes and what follows its closing quote
  (\<open>stateInString\<close> and \<open>unquoteBytes\<close>).
\<close>

function unquote :: "string \<Rightarrow> (string \<times> string) option" where
  "unquote [] = None"
| "unquote (c # cs) =
     (if c = CHR 0x22 then Some ([], cs)
      else if c = CHR 0x5C then
        (case cs of
           [] \<Rightarrow> None
         | d # ds \<Rightarrow>
             (case simple_escape d of
                Some e \<Rightarrow> map_option (apfst ((#) e)) (unquote ds)
              | None \<Rightarrow>
                  if d = CHR ''u'' then
                    (case unescape_u ds of
                       None \<Rightarrow> None
                     | Some (e, n) \<Rightarrow> map_option (apfst ((@) e)) (unquote (drop n ds)))
                  else None))
      else if byte_of c < 0x20 then None
      else
        (let n = rune_len (c # cs) in
         if n = 0 then map_option (apfst ((@) rune_error)) (unquote cs)
         else map_option (apfst ((@) (take n (c # cs)))) (unquote (drop (n - 1) cs))))"
  by pat_completeness auto
termination by (relation "measure length") auto

declare unquote.simps [simp del]

text \<open>
  \<open>appendString\<close> with \<open>escapeHTML\<close> set, as \<open>json.Marshal\<close> and \<open>json.Encoder\<close> call it, without the
  quotes around.
\<close>

definition escape_ascii :: "char \<Rightarrow> string" where
  "escape_ascii c =
     (if c = CHR 0x22 \<or> c = CHR 0x5C then [CHR 0x5C, c]
      else if c = CHR 0x08 then [CHR 0x5C, CHR ''b'']
      else if c = CHR 0x0C then [CHR 0x5C, CHR ''f'']
      else if c = CHR 0x0A then [CHR 0x5C, CHR ''n'']
      else if c = CHR 0x0D then [CHR 0x5C, CHR ''r'']
      else if c = CHR 0x09 then [CHR 0x5C, CHR ''t'']
      else if byte_of c < 0x20 \<or> c = CHR ''<'' \<or> c = CHR ''>'' \<or> c = CHR ''&'' then
        [CHR 0x5C, CHR ''u'', CHR ''0'', CHR ''0'', hex_digit (byte_of c div 16), hex_digit (byte_of c mod 16)]
      else [c])"

function quote_body :: "string \<Rightarrow> string" where
  "quote_body [] = []"
| "quote_body (c # cs) =
     (let n = rune_len (c # cs) in
      if byte_of c < 0x80 then escape_ascii c @ quote_body cs
      else if n = 0 then CHR 0x5C # ''ufffd'' @ quote_body cs
      else if take n (c # cs) = [CHR 0xE2, CHR 0x80, CHR 0xA8] then
        CHR 0x5C # ''u2028'' @ quote_body (drop (n - 1) cs)
      else if take n (c # cs) = [CHR 0xE2, CHR 0x80, CHR 0xA9] then
        CHR 0x5C # ''u2029'' @ quote_body (drop (n - 1) cs)
      else take n (c # cs) @ quote_body (drop (n - 1) cs))"
  by pat_completeness auto
termination by (relation "measure length") auto

declare quote_body.simps [simp del]

definition json_quote :: "string \<Rightarrow> string" where
  "json_quote s = CHR 0x22 # quote_body s @ [CHR 0x22]"

section \<open>Number literals\<close>

definition take_digits :: "string \<Rightarrow> string \<times> string" where
  "take_digits s = (takeWhile is_digit_char s, dropWhile is_digit_char s)"

text \<open>The integer part: \<open>0\<close>, or a digit from 1 to 9 and any digits after it.\<close>

definition scan_int :: "string \<Rightarrow> (string \<times> string) option" where
  "scan_int s =
     (case s of
        [] \<Rightarrow> None
      | c # cs \<Rightarrow>
          if c = CHR ''0'' then Some ([c], cs)
          else if is_digit_char c then Some (take_digits s)
          else None)"

definition scan_frac :: "string \<Rightarrow> (string \<times> string) option" where
  "scan_frac s =
     (case s of
        c # cs \<Rightarrow>
          if c = CHR ''.'' then
            (let (ds, r) = take_digits cs in if ds = [] then None else Some (c # ds, r))
          else Some ([], s)
      | [] \<Rightarrow> Some ([], s))"

definition scan_exp :: "string \<Rightarrow> (string \<times> string) option" where
  "scan_exp s =
     (case s of
        c # cs \<Rightarrow>
          if c = CHR ''e'' \<or> c = CHR ''E'' then
            (let (sg, t) =
               (case cs of
                  d # ds \<Rightarrow> if d = CHR ''+'' \<or> d = CHR ''-'' then ([d], ds) else ([], cs)
                | [] \<Rightarrow> ([], cs));
               (ds, r) = take_digits t
             in if ds = [] then None else Some (c # sg @ ds, r))
          else Some ([], s)
      | [] \<Rightarrow> Some ([], s))"

definition scan_number :: "string \<Rightarrow> (string \<times> string) option" where
  "scan_number s =
     (let (sg, s0) =
        (case s of c # cs \<Rightarrow> if c = CHR ''-'' then ([c], cs) else ([], s) | [] \<Rightarrow> ([], s))
      in case scan_int s0 of
           None \<Rightarrow> None
         | Some (ip, s1) \<Rightarrow>
             (case scan_frac s1 of
                None \<Rightarrow> None
              | Some (fp, s2) \<Rightarrow>
                  (case scan_exp s2 of
                     None \<Rightarrow> None
                   | Some (ep, s3) \<Rightarrow> Some (sg @ ip @ fp @ ep, s3))))"

section \<open>Tokens\<close>

datatype token =
    TLBrace | TRBrace | TLBrack | TRBrack | TColon | TComma
  | TStr string | TNum string | TTrue | TFalse | TNull

definition is_json_space :: "char \<Rightarrow> bool" where
  "is_json_space c = (c = CHR 0x20 \<or> c = CHR 0x09 \<or> c = CHR 0x0D \<or> c = CHR 0x0A)"

definition punct :: "char \<Rightarrow> token option" where
  "punct c =
     (if c = CHR 0x7B then Some TLBrace
      else if c = CHR 0x7D then Some TRBrace
      else if c = CHR 0x5B then Some TLBrack
      else if c = CHR 0x5D then Some TRBrack
      else if c = CHR 0x3A then Some TColon
      else if c = CHR 0x2C then Some TComma
      else None)"

text \<open>The next token and what follows it; leading white space has been skipped.\<close>

definition next_token :: "char \<Rightarrow> string \<Rightarrow> (token \<times> string) option" where
  "next_token c cs =
     (case punct c of
        Some t \<Rightarrow> Some (t, cs)
      | None \<Rightarrow>
          if c = CHR 0x22 then map_option (apfst TStr) (unquote cs)
          else if c = CHR ''-'' \<or> is_digit_char c then map_option (apfst TNum) (scan_number (c # cs))
          else if prefix ''true'' (c # cs) then Some (TTrue, drop 3 cs)
          else if prefix ''false'' (c # cs) then Some (TFalse, drop 4 cs)
          else if prefix ''null'' (c # cs) then Some (TNull, drop 3 cs)
          else None)"

lemma unquote_shorter: "unquote s = Some (v, r) \<Longrightarrow> length r < length s"
proof (induction "length s" arbitrary: s v r rule: less_induct)
  case less
  have IH: "length r' < length s" if "length t < length s" "unquote t = Some (w, r')" for t w r'
    using less.hyps [OF that] that(1) by simp
  show ?case
  proof (cases s)
    case Nil
    with less.prems show ?thesis by (simp add: unquote.simps)
  next
    case (Cons c cs)
    with less.prems show ?thesis
      by (auto simp: unquote.simps(2) [of c cs] Let_def dest!: IH [rotated]
          split: if_splits list.splits option.splits prod.splits)
  qed
qed

lemma take_digits_shorter: "take_digits s = (ds, r) \<Longrightarrow> length r \<le> length s"
  by (auto simp: take_digits_def length_dropWhile_le)

lemma scan_frac_shorter: "scan_frac s = Some (v, r) \<Longrightarrow> length r \<le> length s"
  by (auto simp: scan_frac_def Let_def split: list.splits if_splits prod.splits
      dest!: take_digits_shorter)

lemma scan_exp_shorter: "scan_exp s = Some (v, r) \<Longrightarrow> length r \<le> length s"
  by (auto simp: scan_exp_def Let_def split: list.splits if_splits prod.splits
      dest!: take_digits_shorter)

lemma scan_int_shorter: "scan_int s = Some (v, r) \<Longrightarrow> length r < length s"
  by (auto simp: scan_int_def take_digits_def length_dropWhile_le le_imp_less_Suc
      split: list.splits if_splits)

lemma scan_number_shorter: "scan_number s = Some (v, r) \<Longrightarrow> length r < length s"
  unfolding scan_number_def
  by (fastforce simp: Let_def split: list.splits if_splits option.splits prod.splits
      dest: scan_int_shorter scan_frac_shorter scan_exp_shorter)

lemma next_token_shorter: "next_token c cs = Some (t, r) \<Longrightarrow> length r \<le> length cs"
  by (auto simp: next_token_def split: option.splits if_splits
      dest!: unquote_shorter scan_number_shorter)

function json_lex :: "string \<Rightarrow> token list option" where
  "json_lex [] = Some []"
| "json_lex (c # cs) =
     (if is_json_space c then json_lex cs
      else (case next_token c cs of
              None \<Rightarrow> None
            | Some (t, r) \<Rightarrow> map_option ((#) t) (json_lex r)))"
  by pat_completeness auto
termination
  by (relation "measure length") (auto dest!: next_token_shorter)

section \<open>Values\<close>

datatype json =
    JNull
  | JBool bool
  | JNum string
  | JStr string
  | JArr "json list"
  | JObj "(string \<times> json) list"

text \<open>
  An open array with its elements so far (last first), an open object with its members so far and
  the key whose value is being read.  The modes are the states of Go's scanner:
  \<open>stateBeginValue\<close>, \<open>stateBeginValueOrEmpty\<close>, \<open>stateBeginStringOrEmpty\<close>, \<open>stateBeginString\<close>,
  the wait for the colon, and \<open>stateEndValue\<close> with the value just read.
\<close>

datatype frame = FArr "json list" | FObj "(string \<times> json) list" string

datatype pmode = PValue | PValueOrEnd | PKeyOrEnd | PKey | PColon string | PEnd json

type_synonym pstate = "pmode \<times> frame list"

definition max_nesting :: nat where
  "max_nesting = 10000"

definition push_frame :: "frame \<Rightarrow> pmode \<Rightarrow> frame list \<Rightarrow> pstate option" where
  "push_frame f m st = (if length st < max_nesting then Some (m, f # st) else None)"

fun begin_value :: "token \<Rightarrow> frame list \<Rightarrow> pstate option" where
  "begin_value TLBrack st = push_frame (FArr []) PValueOrEnd st"
| "begin_value TLBrace st = push_frame (FObj [] []) PKeyOrEnd st"
| "begin_value (TStr s) st = Some (PEnd (JStr s), st)"
| "begin_value (TNum n) st = Some (PEnd (JNum n), st)"
| "begin_value TTrue st = Some (PEnd (JBool True), st)"
| "begin_value TFalse st = Some (PEnd (JBool False), st)"
| "begin_value TNull st = Some (PEnd JNull, st)"
| "begin_value _ st = None"

definition end_value :: "json \<Rightarrow> token \<Rightarrow> frame list \<Rightarrow> pstate option" where
  "end_value j t st =
     (case st of
        [] \<Rightarrow> None
      | FArr a # st' \<Rightarrow>
          if t = TComma then Some (PValue, FArr (j # a) # st')
          else if t = TRBrack then Some (PEnd (JArr (rev (j # a))), st')
          else None
      | FObj a k # st' \<Rightarrow>
          if t = TComma then Some (PKey, FObj ((k, j) # a) [] # st')
          else if t = TRBrace then Some (PEnd (JObj (rev ((k, j) # a))), st')
          else None)"

definition begin_key :: "token \<Rightarrow> frame list \<Rightarrow> pstate option" where
  "begin_key t st = (case t of TStr k \<Rightarrow> Some (PColon k, st) | _ \<Rightarrow> None)"

fun parse_step :: "token \<Rightarrow> pstate \<Rightarrow> pstate option" where
  "parse_step t (PValue, st) = begin_value t st"
| "parse_step t (PValueOrEnd, st) =
     (if t = TRBrack then Some (PEnd (JArr []), tl st) else begin_value t st)"
| "parse_step t (PKeyOrEnd, st) =
     (if t = TRBrace then Some (PEnd (JObj []), tl st) else begin_key t st)"
| "parse_step t (PKey, st) = begin_key t st"
| "parse_step t (PColon k, st) =
     (case st of
        FObj a _ # st' \<Rightarrow> if t = TColon then Some (PValue, FObj a k # st') else None
      | _ \<Rightarrow> None)"
| "parse_step t (PEnd j, st) = end_value j t st"

fun parse_run :: "token list \<Rightarrow> pstate \<Rightarrow> pstate option" where
  "parse_run [] s = Some s"
| "parse_run (t # ts) s = (case parse_step t s of None \<Rightarrow> None | Some s' \<Rightarrow> parse_run ts s')"

definition json_parse :: "string \<Rightarrow> json option" where
  "json_parse s =
     (case json_lex s of
        None \<Rightarrow> None
      | Some ts \<Rightarrow> (case parse_run ts (PValue, []) of Some (PEnd j, []) \<Rightarrow> Some j | _ \<Rightarrow> None))"

fun json_print :: "json \<Rightarrow> string"
and print_elems :: "json list \<Rightarrow> string"
and print_members :: "(string \<times> json) list \<Rightarrow> string" where
  "json_print JNull = ''null''"
| "json_print (JBool b) = (if b then ''true'' else ''false'')"
| "json_print (JNum n) = n"
| "json_print (JStr s) = json_quote s"
| "json_print (JArr js) = CHR 0x5B # print_elems js @ [CHR 0x5D]"
| "json_print (JObj ms) = CHR 0x7B # print_members ms @ [CHR 0x7D]"
| "print_elems [] = []"
| "print_elems [j] = json_print j"
| "print_elems (j # k # js) = json_print j @ CHR 0x2C # print_elems (k # js)"
| "print_members [] = []"
| "print_members [(k, j)] = json_quote k @ CHR 0x3A # json_print j"
| "print_members ((k, j) # m # ms) =
     json_quote k @ CHR 0x3A # json_print j @ CHR 0x2C # print_members (m # ms)"

end
