(* ===== verification/JsonRoundtrip.thy ===== *)
theory JsonRoundtrip
  imports GoJson
begin

text \<open>
  The scanner of \<open>GoJson\<close> reads back what the writer produces: for a tree whose strings are
  well-formed UTF-8, whose numbers are JSON literals and whose nesting is within the scanner's
  limit, \<open>json_parse (json_print j) = Some j\<close>.
\<close>

section \<open>Well-formed trees and their tokens\<close>

definition num_ok :: "string \<Rightarrow> bool" where
  "num_ok n = (scan_number n = Some (n, []))"

fun json_wf :: "json \<Rightarrow> bool"
and elems_wf :: "json list \<Rightarrow> bool"
and members_wf :: "(string \<times> json) list \<Rightarrow> bool" where
  "json_wf JNull = True"
| "json_wf (JBool b) = True"
| "json_wf (JNum n) = num_ok n"
| "json_wf (JStr s) = valid_utf8 s"
| "json_wf (JArr js) = elems_wf js"
| "json_wf (JObj ms) = members_wf ms"
| "elems_wf [] = True"
| "elems_wf (j # js) = (json_wf j \<and> elems_wf js)"
| "members_wf [] = True"
| "members_wf ((k, j) # ms) = (valid_utf8 k \<and> json_wf j \<and> members_wf ms)"

text \<open>The number of arrays and objects open at once while a value is read.\<close>

fun json_depth :: "json \<Rightarrow> nat"
and elems_depth :: "json list \<Rightarrow> nat"
and members_depth :: "(string \<times> json) list \<Rightarrow> nat" where
  "json_depth (JArr js) = Suc (elems_depth js)"
| "json_depth (JObj ms) = Suc (members_depth ms)"
| "json_depth _ = 0"
| "elems_depth [] = 0"
| "elems_depth (j # js) = max (json_depth j) (elems_depth js)"
| "members_depth [] = 0"
| "members_depth ((k, j) # ms) = max (json_depth j) (members_depth ms)"

fun toks :: "json \<Rightarrow> token list"
and elem_toks :: "json list \<Rightarrow> token list"
and member_toks :: "(string \<times> json) list \<Rightarrow> token list" where
  "toks JNull = [TNull]"
| "toks (JBool b) = [if b then TTrue else TFalse]"
| "toks (JNum n) = [TNum n]"
| "toks (JStr s) = [TStr s]"
| "toks (JArr js) = TLBrack # elem_toks js @ [TRBrack]"
| "toks (JObj ms) = TLBrace # member_toks ms @ [TRBrace]"
| "elem_toks [] = []"
| "elem_toks [j] = toks j"
| "elem_toks (j # k # js) = toks j @ TComma # elem_toks (k # js)"
| "member_toks [] = []"
| "member_toks [(k, j)] = TStr k # TColon # toks j"
| "member_toks ((k, j) # m # ms) = TStr k # TColon # toks j @ TComma # member_toks (m # ms)"

section \<open>String literals\<close>

lemma rune_len_take:
  assumes "rune_len s = n" and "n \<noteq> 0"
  shows "rune_len (take n s @ t) = n \<and> n \<le> length s"
proof -
  consider "s = []" | a where "s = [a]" | a b where "s = [a, b]" | a b c where "s = [a, b, c]"
    | a b c d u where "s = a # b # c # d # u"
    by (metis neq_Nil_conv)
  then show ?thesis
    using assms by cases (auto simp: rune_len_def Let_def split: if_split_asm)
qed

lemma rune_len_ascii: "byte_of c < 0x80 \<Longrightarrow> rune_len (c # cs) = 1"
  by (simp add: rune_len_def)

lemma hex_val_hex_digit:
  assumes "n < 16"
  shows "hex_val (hex_digit n) = Some n"
proof -
  have "\<forall>k \<in> set [0..<16]. hex_val (hex_digit k) = Some k" by code_simp
  then show ?thesis using assms by simp
qed

lemma byte_of_char [simp]: "char_of (byte_of c) = c"
  by (simp add: byte_of_def)

lemma fun_append_single: "(@) [c] = (#) c"
  by auto

lemma unquote_u:
  "unescape_u ds = Some (e, n) \<Longrightarrow>
   unquote (CHR 0x5C # CHR ''u'' # ds) = map_option (apfst ((@) e)) (unquote (drop n ds))"
  by (simp add: unquote.simps(2) [of "CHR 0x5C"] simple_escape_def)

lemma unquote_escape_ascii:
  assumes "byte_of c < 0x80"
  shows "unquote (escape_ascii c @ s) = map_option (apfst ((#) c)) (unquote s)"
proof -
  have u: "unquote (CHR 0x5C # CHR ''u'' # CHR ''0'' # CHR ''0'' # hex_digit (byte_of c div 16)
             # hex_digit (byte_of c mod 16) # s) = map_option (apfst ((#) c)) (unquote s)"
    if "byte_of c < 0x80"
  proof -
    have "byte_of c div 16 < 16" "byte_of c mod 16 < 16" using that by auto
    moreover have "hex_val CHR ''0'' = Some 0" by code_simp
    ultimately have "unescape_u (CHR ''0'' # CHR ''0'' # hex_digit (byte_of c div 16)
             # hex_digit (byte_of c mod 16) # s) = Some ([c], 4)"
      using that by (simp add: unescape_u_def hex4_def hex_val_hex_digit utf8_encode_def
          mult.commute)
    then show ?thesis by (simp add: unquote_u fun_append_single)
  qed
  have p: "unquote (c # s) = map_option (apfst ((#) c)) (unquote s)"
    if "c \<noteq> CHR 0x22" "c \<noteq> CHR 0x5C" "\<not> byte_of c < 0x20"
    using that assms by (simp add: unquote.simps(2) [of c] Let_def rune_len_ascii fun_append_single)
  show ?thesis
    using u p assms
    by (auto simp: escape_ascii_def unquote.simps(2) [of "CHR 0x5C"] simple_escape_def)
qed

lemma unquote_raw_rune:
  assumes "rune_len (c # cs) = n" and "n \<noteq> 0" and "\<not> byte_of c < 0x80"
  shows "unquote (take n (c # cs) @ s) = map_option (apfst ((@) (take n (c # cs)))) (unquote s)"
proof -
  obtain m where m: "n = Suc m" using assms(2) by (cases n) auto
  have l: "m \<le> length cs" using rune_len_take [OF assms(1,2)] m by simp
  have r: "rune_len (c # take m cs @ s) = Suc m"
    using rune_len_take [OF assms(1,2), of s] m by simp
  have "c \<noteq> CHR 0x22" "c \<noteq> CHR 0x5C" using assms(3) by (auto simp: byte_of_def)
  then show ?thesis
    using assms(3) m l r by (simp add: unquote.simps(2) [of c "take m cs @ s"] Let_def)
qed

lemma unescape_separator:
  "unescape_u (''2028'' @ s) = Some ([CHR 0xE2, CHR 0x80, CHR 0xA8], 4)"
  "unescape_u (''2029'' @ s) = Some ([CHR 0xE2, CHR 0x80, CHR 0xA9], 4)"
proof -
  have h: "hex_val CHR ''0'' = Some 0" "hex_val CHR ''2'' = Some 2"
    "hex_val CHR ''8'' = Some 8" "hex_val CHR ''9'' = Some 9" by code_simp+
  have e: "utf8_encode 8232 = [CHR 0xE2, CHR 0x80, CHR 0xA8]"
    "utf8_encode 8233 = [CHR 0xE2, CHR 0x80, CHR 0xA9]"
    by (simp_all add: utf8_encode_def char_of_def bit_0)
  show "unescape_u (''2028'' @ s) = Some ([CHR 0xE2, CHR 0x80, CHR 0xA8], 4)"
    and "unescape_u (''2029'' @ s) = Some ([CHR 0xE2, CHR 0x80, CHR 0xA9], 4)"
    by (simp_all add: unescape_u_def hex4_def h e)
qed

lemma unquote_separator:
  "unquote (CHR 0x5C # ''u2028'' @ s) = map_option (apfst ((@) [CHR 0xE2, CHR 0x80, CHR 0xA8])) (unquote s)"
  "unquote (CHR 0x5C # ''u2029'' @ s) = map_option (apfst ((@) [CHR 0xE2, CHR 0x80, CHR 0xA9])) (unquote s)"
  using unquote_u [OF unescape_separator(1), of s] unquote_u [OF unescape_separator(2), of s]
  by simp_all

lemma unquote_quote_body:
  "valid_utf8 s \<Longrightarrow> unquote (quote_body s @ CHR 0x22 # r) = Some (s, r)"
proof (induction s rule: valid_utf8.induct)
  case 1
  show ?case by (simp add: quote_body.simps unquote.simps(2))
next
  case (2 c cs)
  let ?n = "rune_len (c # cs)"
  from "2.prems" have n: "?n \<noteq> 0" and v: "valid_utf8 (drop (?n - 1) cs)" by auto
  have IH: "unquote (quote_body (drop (?n - 1) cs) @ CHR 0x22 # r) = Some (drop (?n - 1) cs, r)"
    using "2.IH" v by simp
  have tk: "take ?n (c # cs) @ drop (?n - 1) cs = c # cs"
    using n by (cases ?n) auto
  show ?case
  proof (cases "byte_of c < 0x80")
    case True
    then show ?thesis
      using IH rune_len_ascii [OF True, of cs]
      by (simp add: quote_body.simps(2) [of c cs] Let_def unquote_escape_ascii)
  next
    case False
    then show ?thesis
      using IH tk n unquote_raw_rune [OF refl n False] unquote_separator
      by (auto simp: quote_body.simps(2) [of c cs] Let_def)
  qed
qed

section \<open>Number literals\<close>

text \<open>What may follow a number without becoming part of it.\<close>

definition num_end :: "string \<Rightarrow> bool" where
  "num_end r =
     (case r of
        [] \<Rightarrow> True
      | c # _ \<Rightarrow> \<not> is_digit_char c \<and> c \<noteq> CHR ''.'' \<and> c \<noteq> CHR ''e'' \<and> c \<noteq> CHR ''E'')"

lemma take_digits_append:
  "num_end r \<Longrightarrow> take_digits s = (ds, t) \<Longrightarrow> take_digits (s @ r) = (ds, t @ r)"
  by (induction s arbitrary: ds t)
     (auto simp: take_digits_def num_end_def split: list.splits if_splits)

lemma scan_exp_append:
  assumes r: "num_end r" and s: "scan_exp s = Some (v, t)"
  shows "scan_exp (s @ r) = Some (v, t @ r)"
proof (cases s)
  case Nil
  with assms show ?thesis by (cases r) (auto simp: scan_exp_def num_end_def)
next
  case (Cons c cs)
  show ?thesis
  proof (cases cs)
    case Nil
    with s Cons show ?thesis
      by (auto simp: scan_exp_def take_digits_def split: if_splits)
  next
    case (Cons d ds)
    have "take_digits (ds @ r) = (fst (take_digits ds), snd (take_digits ds) @ r)"
      and "take_digits (cs @ r) = (fst (take_digits cs), snd (take_digits cs) @ r)"
      using take_digits_append [OF r] by (metis prod.collapse)+
    then show ?thesis
      using s \<open>s = c # cs\<close> Cons
      by (auto simp: scan_exp_def Let_def split: if_splits prod.splits)
  qed
qed

lemma scan_frac_append:
  "num_end r \<Longrightarrow> scan_frac s = Some (v, t) \<Longrightarrow> scan_frac (s @ r) = Some (v, t @ r)"
  by (auto simp: scan_frac_def num_end_def Let_def take_digits_append
      split: list.splits if_splits prod.splits)

lemma scan_int_append:
  "num_end r \<Longrightarrow> scan_int s = Some (v, t) \<Longrightarrow> scan_int (s @ r) = Some (v, t @ r)"
  using take_digits_append [of r s v t]
  by (auto simp: scan_int_def split: list.splits if_splits)

lemma scan_number_append:
  assumes r: "num_end r" and s: "scan_number s = Some (v, t)"
  shows "scan_number (s @ r) = Some (v, t @ r)"
proof -
  define sg s0 where "sg = (if s \<noteq> [] \<and> hd s = CHR ''-'' then [CHR ''-''] else [])"
    and "s0 = (if s \<noteq> [] \<and> hd s = CHR ''-'' then tl s else s)"
  have sgc: "sg = [] \<or> sg = ''-''" by (simp add: sg_def)
  have body: "scan_number (sg @ u) =
      (case scan_int u of None \<Rightarrow> None
       | Some (ip, s1) \<Rightarrow> (case scan_frac s1 of None \<Rightarrow> None
         | Some (fp, s2) \<Rightarrow> (case scan_exp s2 of None \<Rightarrow> None
           | Some (ep, s3) \<Rightarrow> Some (sg @ ip @ fp @ ep, s3))))"
    if "sg = [] \<Longrightarrow> u \<noteq> [] \<and> hd u \<noteq> CHR ''-''" for u
    using that sgc by (cases u) (auto simp: scan_number_def)
  have ne: "s0 \<noteq> []" using s by (auto simp: scan_number_def scan_int_def s0_def split: list.splits if_splits)
  have eq: "s = sg @ s0" by (cases s) (auto simp: sg_def s0_def)
  have h: "sg = [] \<Longrightarrow> hd s0 \<noteq> CHR ''-''" using ne by (auto simp: sg_def s0_def split: if_splits)
  from s eq body [of s0] ne h obtain ip s1 fp s2 ep where
    "scan_int s0 = Some (ip, s1)" "scan_frac s1 = Some (fp, s2)" "scan_exp s2 = Some (ep, t)"
    "v = sg @ ip @ fp @ ep"
    by (auto split: option.splits)
  then show ?thesis
    using body [of "s0 @ r"] eq ne h
    by (simp add: scan_int_append [OF r] scan_frac_append [OF r] scan_exp_append [OF r])
qed

section \<open>Printing and scanning\<close>

lemma next_token_number:
  assumes "num_ok n" and "num_end r"
  shows "\<exists>c cs. n = c # cs \<and> \<not> is_json_space c \<and> next_token c (cs @ r) = Some (TNum n, r)"
proof -
  have sc: "scan_number (n @ r) = Some (n, r)"
    using scan_number_append [OF assms(2)] assms(1) by (fastforce simp: num_ok_def)
  from assms(1) obtain c cs where n: "n = c # cs" and c: "c = CHR ''-'' \<or> is_digit_char c"
    by (cases n)
       (auto simp: num_ok_def scan_number_def scan_int_def is_digit_char_def less_eq_char_def
         split: if_splits option.splits)
  have "punct c = None" "c \<noteq> CHR 0x22" "\<not> is_json_space c"
    using c by (auto simp: punct_def is_json_space_def is_digit_char_def less_eq_char_def)
  with c n sc show ?thesis
    by (auto simp: next_token_def)
qed

lemma json_lex_number:
  "num_ok n \<Longrightarrow> num_end r \<Longrightarrow> json_lex (n @ r) = map_option ((#) (TNum n)) (json_lex r)"
  using next_token_number by fastforce

lemma json_lex_quote:
  "valid_utf8 s \<Longrightarrow> json_lex (json_quote s @ r) = map_option ((#) (TStr s)) (json_lex r)"
  by (simp add: json_quote_def is_json_space_def next_token_def punct_def unquote_quote_body)

lemma json_lex_punct:
  "punct c = Some t \<Longrightarrow> json_lex (c # r) = map_option ((#) t) (json_lex r)"
  by (auto simp: next_token_def is_json_space_def punct_def split: if_splits)

lemma json_lex_words:
  "json_lex (''null'' @ r) = map_option ((#) TNull) (json_lex r)"
  "json_lex (''true'' @ r) = map_option ((#) TTrue) (json_lex r)"
  "json_lex (''false'' @ r) = map_option ((#) TFalse) (json_lex r)"
  by (simp_all add: next_token_def is_json_space_def punct_def is_digit_char_def less_eq_char_def)

lemma json_lex_braces:
  "json_lex (CHR 0x5B # r) = map_option ((#) TLBrack) (json_lex r)"
  "json_lex (CHR 0x5D # r) = map_option ((#) TRBrack) (json_lex r)"
  "json_lex (CHR 0x7B # r) = map_option ((#) TLBrace) (json_lex r)"
  "json_lex (CHR 0x7D # r) = map_option ((#) TRBrace) (json_lex r)"
  "json_lex (CHR 0x3A # r) = map_option ((#) TColon) (json_lex r)"
  "json_lex (CHR 0x2C # r) = map_option ((#) TComma) (json_lex r)"
  by (intro json_lex_punct, simp add: punct_def)+

lemma num_end_punct [simp]:
  "num_end []" "num_end (CHR 0x5D # r)" "num_end (CHR 0x7D # r)" "num_end (CHR 0x2C # r)"
  by (simp_all add: num_end_def is_digit_char_def less_eq_char_def)

lemmas lex_print_simps = json_lex_number json_lex_quote json_lex_braces
  json_lex_words [unfolded append_Cons append_Nil]

lemma json_lex_print:
  shows "json_wf j \<Longrightarrow> num_end r \<Longrightarrow>
           json_lex (json_print j @ r) = map_option ((@) (toks j)) (json_lex r)"
    and "elems_wf js \<Longrightarrow>
           json_lex (print_elems js @ CHR 0x5D # r) =
             map_option (\<lambda>ts. elem_toks js @ TRBrack # ts) (json_lex r)"
    and "members_wf ms \<Longrightarrow>
           json_lex (print_members ms @ CHR 0x7D # r) =
             map_option (\<lambda>ts. member_toks ms @ TRBrace # ts) (json_lex r)"
proof (induction j and js and ms arbitrary: r and r and r
    rule: json_print_print_elems_print_members.induct)
qed (simp_all add: lex_print_simps map_option_case split: option.split del: json_lex.simps(2))

lemma toks_start: "toks j \<noteq> [] \<and> hd (toks j) \<noteq> TRBrack"
  by (cases j) auto

lemma parse_toks:
  shows "length st + json_depth j \<le> max_nesting \<Longrightarrow>
           parse_run (toks j @ ts) (PValue, st) = parse_run ts (PEnd j, st)"
    and "js \<noteq> [] \<Longrightarrow> Suc (length st) + elems_depth js \<le> max_nesting \<Longrightarrow>
           parse_run (elem_toks js @ TRBrack # ts) (PValue, FArr a # st) =
             parse_run ts (PEnd (JArr (rev a @ js)), st)"
    and "ms \<noteq> [] \<Longrightarrow> Suc (length st) + members_depth ms \<le> max_nesting \<Longrightarrow>
           parse_run (member_toks ms @ TRBrace # ts) (PKey, FObj b k # st) =
             parse_run ts (PEnd (JObj (rev b @ ms)), st)"
proof (induction j and js and ms arbitrary: st ts and st ts a and st ts b k
    rule: toks_elem_toks_member_toks.induct)
  case (5 js)
  show ?case
  proof (cases js)
    case Nil
    with "5.prems" show ?thesis by (simp add: push_frame_def)
  next
    case (Cons j js')
    obtain t tl where t: "elem_toks js = t # tl" and "t \<noteq> TRBrack"
      using toks_start [of j] Cons by (cases js'; cases "toks j") auto
    then have "parse_run (elem_toks js @ us) (PValueOrEnd, s) = parse_run (elem_toks js @ us) (PValue, s)"
      for us s by simp
    with "5.IH" [of st ts "[]"] "5.prems" Cons show ?thesis
      by (simp add: push_frame_def)
  qed
next
  case (6 ms)
  show ?case
  proof (cases ms)
    case Nil
    with "6.prems" show ?thesis by (simp add: push_frame_def)
  next
    case (Cons m ms')
    obtain k tl where t: "member_toks ms = TStr k # tl"
      using Cons by (cases m; cases ms') auto
    then have "parse_run (member_toks ms @ us) (PKeyOrEnd, s) = parse_run (member_toks ms @ us) (PKey, s)"
      for us s by simp
    with "6.IH" [of st ts "[]" "[]"] "6.prems" Cons show ?thesis
      by (simp add: push_frame_def)
  qed
qed (simp_all add: end_value_def begin_key_def)

theorem json_roundtrip:
  assumes "json_wf j" and "json_depth j \<le> max_nesting"
  shows "json_parse (json_print j) = Some j"
proof -
  have "json_lex (json_print j) = Some (toks j)"
    using json_lex_print(1) [OF assms(1), of "[]"] by simp
  moreover have "parse_run (toks j) (PValue, []) = Some (PEnd j, [])"
    using parse_toks(1) [of "[]" j "[]"] assms(2) by simp
  ultimately show ?thesis by (simp add: json_parse_def)
qed

end
