(* ===== verification/GoStruct.thy ===== *)
theory GoStruct
  imports GoNum JsonRoundtrip
begin

text \<open>
  Decoding a JSON object into a Go struct, as \<open>json.Unmarshal\<close> does it: members are taken in order,
  a member goes to the field whose name equals its key up to case folding, an unknown key is
  skipped, \<open>null\<close> leaves a field alone, and a value of the wrong type is remembered as an error
  while decoding goes on.  A struct type is described by the list of its JSON names, each with the
  decoder of its field.
\<close>

datatype json_error = SyntaxError | UnmarshalTypeError

type_synonym 'a field_decoder = "json \<Rightarrow> 'a \<Rightarrow> 'a \<times> bool"

text \<open>
  \<open>foldName\<close>: the smallest rune of the case-folding orbit.  Beside ASCII letters, only the Kelvin
  sign and the long s share an orbit with an ASCII letter; other bytes cannot meet an ASCII name.
\<close>

definition upper_char :: "char \<Rightarrow> char" where
  "upper_char c =
     (if CHR ''a'' \<le> c \<and> c \<le> CHR ''z'' then char_of ((of_char c :: nat) - 32) else c)"

function fold_name :: "string \<Rightarrow> string" where
  "fold_name [] = []"
| "fold_name (c # cs) =
     (if take 3 (c # cs) = [CHR 0xE2, CHR 0x84, CHR 0xAA] then CHR ''K'' # fold_name (drop 2 cs)
      else if take 2 (c # cs) = [CHR 0xC5, CHR 0xBF] then CHR ''S'' # fold_name (drop 1 cs)
      else upper_char c # fold_name cs)"
  by pat_completeness auto
termination by (relation "measure length") auto

definition decode_member ::
  "(string \<times> 'a field_decoder) list \<Rightarrow> 'a \<times> bool \<Rightarrow> string \<times> json \<Rightarrow> 'a \<times> bool" where
  "decode_member fields acc m =
     (case find (\<lambda>(n, _). fold_name n = fold_name (fst m)) fields of
        None \<Rightarrow> acc
      | Some (_, f) \<Rightarrow> (let (v, ok) = f (snd m) (fst acc) in (v, snd acc \<and> ok)))"

definition decode_object ::
  "(string \<times> 'a field_decoder) list \<Rightarrow> 'a field_decoder" where
  "decode_object fields j v =
     (case j of
        JNull \<Rightarrow> (v, True)
      | JObj ms \<Rightarrow> foldl (decode_member fields) (v, True) ms
      | _ \<Rightarrow> (v, False))"

definition unmarshal :: "'a field_decoder \<Rightarrow> 'a \<Rightarrow> string \<Rightarrow> (json_error, 'a) result" where
  "unmarshal dec zero s =
     (case json_parse s of
        None \<Rightarrow> Inl SyntaxError
      | Some j \<Rightarrow> (let (v, ok) = dec j zero in if ok then Inr v else Inl UnmarshalTypeError))"

section \<open>Field decoders\<close>

definition dec_string :: "json \<Rightarrow> string \<Rightarrow> string \<times> bool" where
  "dec_string j old = (case j of JStr s \<Rightarrow> (s, True) | JNull \<Rightarrow> (old, True) | _ \<Rightarrow> (old, False))"

definition dec_int32 :: "json \<Rightarrow> int32 \<Rightarrow> int32 \<times> bool" where
  "dec_int32 j old =
     (case j of
        JNum n \<Rightarrow>
          (case Atoi n of
             Some v \<Rightarrow> if - (2 ^ 31) \<le> v \<and> v < 2 ^ 31 then (word_of_int v, True) else (old, False)
           | None \<Rightarrow> (old, False))
      | JNull \<Rightarrow> (old, True)
      | _ \<Rightarrow> (old, False))"

definition dec_int64 :: "json \<Rightarrow> int64 \<Rightarrow> int64 \<times> bool" where
  "dec_int64 j old =
     (case j of
        JNum n \<Rightarrow> (case Atoi n of Some v \<Rightarrow> (word_of_int v, True) | None \<Rightarrow> (old, False))
      | JNull \<Rightarrow> (old, True)
      | _ \<Rightarrow> (old, False))"

definition dec_float64 :: "json \<Rightarrow> float64 \<Rightarrow> float64 \<times> bool" where
  "dec_float64 j old =
     (case j of
        JNum n \<Rightarrow> (case ParseFloat_literal n of Some v \<Rightarrow> (v, True) | None \<Rightarrow> (old, False))
      | JNull \<Rightarrow> (old, True)
      | _ \<Rightarrow> (old, False))"

text \<open>
  A \<open>map[string]string\<close> is kept as its list of entries in increasing order of the keys, the order
  in which \<open>json.Marshal\<close> writes them.
\<close>

type_synonym go_map = "(string \<times> string) list"

fun map_put :: "string \<Rightarrow> string \<Rightarrow> go_map \<Rightarrow> go_map" where
  "map_put k v [] = [(k, v)]"
| "map_put k v ((k', v') # m) =
     (if k = k' then (k, v) # m
      else if k < k' then (k, v) # (k', v') # m
      else (k', v') # map_put k v m)"

text \<open>A value that is not a string is remembered as an error, and the entry gets the empty string.\<close>

definition dec_entry :: "go_map \<times> bool \<Rightarrow> string \<times> json \<Rightarrow> go_map \<times> bool" where
  "dec_entry acc m =
     (let (v, ok) = dec_string (snd m) [] in (map_put (fst m) v (fst acc), snd acc \<and> ok))"

definition dec_string_map :: "json \<Rightarrow> go_map \<Rightarrow> go_map \<times> bool" where
  "dec_string_map j old =
     (case j of
        JObj ms \<Rightarrow> foldl dec_entry (old, True) ms
      | JNull \<Rightarrow> ([], True)
      | _ \<Rightarrow> (old, False))"

text \<open>A decoder of a field, from the decoder of its type and its selector and update.\<close>

definition on_field ::
  "('b \<Rightarrow> 'b \<times> bool) \<Rightarrow> ('a \<Rightarrow> 'b) \<Rightarrow> (('b \<Rightarrow> 'b) \<Rightarrow> 'a \<Rightarrow> 'a) \<Rightarrow> 'a \<Rightarrow> 'a \<times> bool" where
  "on_field dec get upd v = (let (x, ok) = dec (get v) in (upd (\<lambda>_. x) v, ok))"

abbreviation str_field :: "('a \<Rightarrow> string) \<Rightarrow> ((string \<Rightarrow> string) \<Rightarrow> 'a \<Rightarrow> 'a) \<Rightarrow> 'a field_decoder" where
  "str_field get upd \<equiv> (\<lambda>j. on_field (dec_string j) get upd)"

lemmas decoder_defs [go_simps] = decode_member_def dec_string_def dec_int32_def dec_int64_def
  dec_float64_def dec_string_map_def on_field_def

end
