(* ===== verification/Models.thy ===== *)
theory Models
  imports GoStruct
begin

text \<open>
  \<^verbatim>\<open>engine/internal/models/models.go\<close>: the event and key-context structs with their JSON decoding,
  \<open>Validate\<close>, \<open>EnrichFromKeyContext\<close>, \<open>ParseIngestBatch\<close> and \<open>newEventID\<close>.  What the code reads from
  \<open>crypto/rand\<close> and from the clock is an argument.
\<close>

section \<open>Constants\<close>

definition SourceModeDirectIngest :: string where "SourceModeDirectIngest = ''direct_ingest''"
definition SourceModeVirtualKey :: string where "SourceModeVirtualKey = ''virtual_key''"
definition SourceModeBYOK :: string where "SourceModeBYOK = ''byok''"
definition KeyStatusActive :: string where "KeyStatusActive = ''active''"
definition KeyStatusRevoked :: string where "KeyStatusRevoked = ''revoked''"
definition KeyStatusExpired :: string where "KeyStatusExpired = ''expired''"

lemmas mode_defs = SourceModeDirectIngest_def SourceModeVirtualKey_def SourceModeBYOK_def
lemmas key_status_defs = KeyStatusActive_def KeyStatusRevoked_def KeyStatusExpired_def

definition Hour :: duration where "Hour = 3600000000000"
definition DefaultIdempotencyTTL :: duration where "DefaultIdempotencyTTL = 24 * Hour"
definition DefaultMaxBatchSize :: int where "DefaultMaxBatchSize = 50000"
definition DefaultMaxBodySize :: nat where "DefaultMaxBodySize = 2 ^ 20"
definition DefaultMaxBatchBodySize :: nat where "DefaultMaxBatchBodySize = 500 * 2 ^ 20"

section \<open>Structs\<close>

record UsageEvent =
  EventID :: string
  OrgID :: string
  CustomerID :: string
  EndUserID :: string
  SessionID :: string
  SourceMode :: string
  KeyID :: string
  EventType :: string
  Model :: string
  InputTokens :: int32
  OutputTokens :: int32
  ThinkingTokens :: int32
  TotalTokens :: float64
  Unit :: string
  Latency :: string
  Cost :: string
  Status :: string
  Service :: string
  TimestampMs :: int64
  Metadata :: go_map

definition zero_event :: UsageEvent where
  "zero_event =
     \<lparr>EventID = [], OrgID = [], CustomerID = [], EndUserID = [], SessionID = [], SourceMode = [],
      KeyID = [], EventType = [], Model = [], InputTokens = 0, OutputTokens = 0,
      ThinkingTokens = 0, TotalTokens = 0, Unit = [], Latency = [], Cost = [], Status = [],
      Service = [], TimestampMs = 0, Metadata = []\<rparr>"

record KeyContext =
  kc_KeyID :: string
  kc_OrgID :: string
  kc_CustomerID :: string
  kc_SourceMode :: string
  kc_Status :: string

definition zero_key_context :: KeyContext where
  "zero_key_context =
     \<lparr>kc_KeyID = [], kc_OrgID = [], kc_CustomerID = [], kc_SourceMode = [], kc_Status = []\<rparr>"

definition IsActive :: "KeyContext \<Rightarrow> bool" where
  "IsActive kc = (kc_Status kc = KeyStatusActive)"

definition IsProxyMode :: "KeyContext \<Rightarrow> bool" where
  "IsProxyMode kc =
     (kc_SourceMode kc = SourceModeVirtualKey \<or> kc_SourceMode kc = SourceModeBYOK)"

section \<open>JSON tags\<close>

definition event_fields :: "(string \<times> UsageEvent field_decoder) list" where
  "event_fields =
     [(''event_id'', str_field EventID EventID_update),
      (''org_id'', str_field OrgID OrgID_update),
      (''customer_id'', str_field CustomerID CustomerID_update),
      (''end_user_id'', str_field EndUserID EndUserID_update),
      (''session_id'', str_field SessionID SessionID_update),
      (''source_mode'', str_field SourceMode SourceMode_update),
      (''key_id'', str_field KeyID KeyID_update),
      (''event_type'', str_field EventType EventType_update),
      (''model'', str_field Model Model_update),
      (''input_tokens'', \<lambda>j. on_field (dec_int32 j) InputTokens InputTokens_update),
      (''output_tokens'', \<lambda>j. on_field (dec_int32 j) OutputTokens OutputTokens_update),
      (''thinking_tokens'', \<lambda>j. on_field (dec_int32 j) ThinkingTokens ThinkingTokens_update),
      (''total_tokens'', \<lambda>j. on_field (dec_float64 j) TotalTokens TotalTokens_update),
      (''unit'', str_field Unit Unit_update),
      (''latency'', str_field Latency Latency_update),
      (''cost'', str_field Cost Cost_update),
      (''status'', str_field Status Status_update),
      (''service'', str_field Service Service_update),
      (''timestamp_ms'', \<lambda>j. on_field (dec_int64 j) TimestampMs TimestampMs_update),
      (''metadata'', \<lambda>j. on_field (dec_string_map j) Metadata Metadata_update)]"

definition key_context_fields :: "(string \<times> KeyContext field_decoder) list" where
  "key_context_fields =
     [(''key_id'', str_field kc_KeyID kc_KeyID_update),
      (''org_id'', str_field kc_OrgID kc_OrgID_update),
      (''customer_id'', str_field kc_CustomerID kc_CustomerID_update),
      (''source_mode'', str_field kc_SourceMode kc_SourceMode_update),
      (''status'', str_field kc_Status kc_Status_update)]"

definition decode_event :: "UsageEvent field_decoder" where
  "decode_event = decode_object event_fields"

definition unmarshal_event :: "string \<Rightarrow> (json_error, UsageEvent) result" where
  "unmarshal_event = unmarshal decode_event zero_event"

definition unmarshal_key_context :: "string \<Rightarrow> (json_error, KeyContext) result" where
  "unmarshal_key_context = unmarshal (decode_object key_context_fields) zero_key_context"

section \<open>Validate\<close>

datatype validation_error =
    EventTypeRequired | ModelRequired
  | InputTokensNegative | OutputTokensNegative | ThinkingTokensNegative | TotalTokensNegative

definition validation_message :: "validation_error \<Rightarrow> string" where
  "validation_message e =
     (case e of
        EventTypeRequired \<Rightarrow> ''event_type is required''
      | ModelRequired \<Rightarrow> ''model is required''
      | InputTokensNegative \<Rightarrow> ''input_tokens must be >= 0''
      | OutputTokensNegative \<Rightarrow> ''output_tokens must be >= 0''
      | ThinkingTokensNegative \<Rightarrow> ''thinking_tokens must be >= 0''
      | TotalTokensNegative \<Rightarrow> ''total_tokens must be >= 0'')"

definition Validate :: "UsageEvent \<Rightarrow> validation_error option" where
  "Validate e =
     (if EventType e = [] then Some EventTypeRequired
      else if Model e = [] then Some ModelRequired
      else if sint (InputTokens e) < 0 then Some InputTokensNegative
      else if sint (OutputTokens e) < 0 then Some OutputTokensNegative
      else if sint (ThinkingTokens e) < 0 then Some ThinkingTokensNegative
      else if TotalTokens e < 0 then Some TotalTokensNegative
      else None)"

section \<open>newEventID\<close>

text \<open>
  What \<open>newEventID\<close> and \<open>EnrichFromKeyContext\<close> take from outside: the 16 bytes that \<open>rand.Read\<close>
  fills in (\<open>None\<close> when it fails), and the clock as \<open>UnixMilli\<close> and \<open>UnixNano\<close>.
\<close>

record entropy =
  rand16 :: "byte list option"
  now_milli :: int64
  now_nano :: int64

text \<open>The version and variant bits of a version 4 UUID, and its text.\<close>

definition uuid_v4 :: "byte list \<Rightarrow> string" where
  "uuid_v4 raw =
     (let buf = raw[6 := (raw ! 6 AND 0x0f) OR 0x40];
          buf' = buf[8 := (buf ! 8 AND 0x3f) OR 0x80]
      in hex_encode (take 4 buf') @ ''-'' @ hex_encode (take 2 (drop 4 buf')) @ ''-''
         @ hex_encode (take 2 (drop 6 buf')) @ ''-'' @ hex_encode (take 2 (drop 8 buf')) @ ''-''
         @ hex_encode (take 6 (drop 10 buf')))"

definition newEventID :: "entropy \<Rightarrow> string" where
  "newEventID ent =
     (case rand16 ent of
        None \<Rightarrow> ''evt_'' @ itoa (sint (now_nano ent))
      | Some buf \<Rightarrow> uuid_v4 buf)"

section \<open>EnrichFromKeyContext\<close>

definition EnrichFromKeyContext :: "entropy \<Rightarrow> KeyContext \<Rightarrow> UsageEvent \<Rightarrow> UsageEvent" where
  "EnrichFromKeyContext ent kc e =
     (let e1 = e\<lparr>OrgID := kc_OrgID kc\<rparr>;
          e2 = (if kc_CustomerID kc \<noteq> [] then e1\<lparr>CustomerID := kc_CustomerID kc\<rparr> else e1);
          e3 = e2\<lparr>SourceMode := kc_SourceMode kc\<rparr>;
          e4 = e3\<lparr>KeyID := kc_KeyID kc\<rparr>;
          e5 = (if EventID e4 = [] then e4\<lparr>EventID := newEventID ent\<rparr> else e4)
      in if TimestampMs e5 = 0 then e5\<lparr>TimestampMs := now_milli ent\<rparr> else e5)"

section \<open>ParseIngestBatch\<close>

text \<open>
  Decoding a JSON array into a slice.  The decoder writes element \<open>i\<close> over what the backing array
  holds at \<open>i\<close>, so a second \<open>events\<close> member of the same object decodes into the elements that the
  first one left; an empty array starts a fresh slice.  The target is the backing array, the
  slice is its first elements, as many as the array has.
\<close>

fun decode_elems :: "json list \<Rightarrow> UsageEvent list \<Rightarrow> UsageEvent list \<times> bool" where
  "decode_elems [] backing = (backing, True)"
| "decode_elems (j # js) backing =
     (let (e, ok) = decode_event j (case backing of [] \<Rightarrow> zero_event | b # _ \<Rightarrow> b);
          (es, ok') = decode_elems js (tl backing)
      in (e # es, ok \<and> ok'))"

record slice =
  sl_backing :: "UsageEvent list"
  sl_len :: nat

definition nil_slice :: slice where
  "nil_slice = \<lparr>sl_backing = [], sl_len = 0\<rparr>"

definition slice_elems :: "slice \<Rightarrow> UsageEvent list" where
  "slice_elems s = take (sl_len s) (sl_backing s)"

definition decode_slice :: "slice field_decoder" where
  "decode_slice j s =
     (case j of
        JNull \<Rightarrow> (nil_slice, True)
      | JArr [] \<Rightarrow> (nil_slice, True)
      | JArr js \<Rightarrow>
          (let (b, ok) = decode_elems js (sl_backing s) in (\<lparr>sl_backing = b, sl_len = length js\<rparr>, ok))
      | _ \<Rightarrow> (s, False))"

definition unmarshal_wrapped :: "string \<Rightarrow> (json_error, UsageEvent list) result" where
  "unmarshal_wrapped body =
     map_sum id slice_elems (unmarshal (decode_object [(''events'', decode_slice)]) nil_slice body)"

definition unmarshal_bare :: "string \<Rightarrow> (json_error, UsageEvent list) result" where
  "unmarshal_bare body = map_sum id slice_elems (unmarshal decode_slice nil_slice body)"

datatype batch_parse_error = InvalidBatchBody

definition ParseIngestBatch :: "string \<Rightarrow> (batch_parse_error, UsageEvent list) result" where
  "ParseIngestBatch body =
     (case unmarshal_wrapped body of
        Inr (e # es) \<Rightarrow> Inr (e # es)
      | _ \<Rightarrow>
          (case unmarshal_bare body of
             Inr (e # es) \<Rightarrow> Inr (e # es)
           | _ \<Rightarrow> Inl InvalidBatchBody))"

text \<open>The text form of a version 4 UUID: five groups of lower-case hexadecimal digits, with the
  version digit and the variant digit in their places.\<close>

definition uuid_v4_format :: "string \<Rightarrow> bool" where
  "uuid_v4_format s =
     (case split_on (CHR ''-'') s of
        [a, b, c, d, e] \<Rightarrow>
          map length [a, b, c, d, e] = [8, 4, 4, 4, 12] \<and> list_all is_hex_char (a @ b @ c @ d @ e)
          \<and> hd c = CHR ''4'' \<and> hd d \<in> set ''89ab''
      | _ \<Rightarrow> False)"

section \<open>Lemmas and properties\<close>

lemma or_push_bit: "take_bit n (a :: nat) OR push_bit n c = take_bit n a + push_bit n c"
  by (rule disjunctive_add [symmetric]) (auto simp: bit_simps)

lemma unat_mask_or:
  assumes "m = mask n" and "unat c = push_bit n d"
  shows "unat ((b AND m) OR c :: byte) = take_bit n (unat b) + push_bit n d"
  using assms or_push_bit [of n "unat b" d]
  by (simp add: take_bit_eq_mask [symmetric] unsigned_or_eq unsigned_take_bit_eq)

lemma unat_version_byte: "unat ((b AND 0x0f) OR 0x40 :: byte) = unat b mod 16 + 64"
  using unat_mask_or [of "0x0f" 4 "0x40" 4 b] by (simp add: mask_eq_exp_minus_1 push_bit_eq_mult take_bit_eq_mod)

lemma unat_variant_byte: "unat ((b AND 0x3f) OR 0x80 :: byte) = unat b mod 64 + 128"
  using unat_mask_or [of "0x3f" 6 "0x80" 2 b] by (simp add: mask_eq_exp_minus_1 push_bit_eq_mult take_bit_eq_mod)

lemma length16_cases:
  assumes "length raw = 16"
  obtains b0 b1 b2 b3 b4 b5 b6 b7 b8 b9 b10 b11 b12 b13 b14 b15
  where "raw = [b0, b1, b2, b3, b4, b5, b6, b7, b8, b9, b10, b11, b12, b13, b14, b15]"
  using assms by (auto simp: numeral_eq_Suc length_Suc_conv)

lemma hex_encode_no_dash: "CHR ''-'' \<notin> set (hex_encode bs)"
  using hex_encode_chars [of "CHR ''-''" bs] by (auto simp: is_hex_char_def)

lemma hex_variant: "n < 64 \<Longrightarrow> hex_digit ((n + 128) div 16) \<in> set ''89ab''"
proof -
  have "\<forall>k \<in> set [8..<12]. hex_digit k \<in> set ''89ab''" by code_simp
  moreover assume "n < 64"
  then have "(n + 128) div 16 \<in> set [8..<12]" by auto
  ultimately show ?thesis by blast
qed

lemma uuid_v4_ok:
  assumes "length raw = 16"
  shows "uuid_v4_format (uuid_v4 raw)"
proof -
  obtain b0 b1 b2 b3 b4 b5 b6 b7 b8 b9 b10 b11 b12 b13 b14 b15 where
    r: "raw = [b0, b1, b2, b3, b4, b5, b6, b7, b8, b9, b10, b11, b12, b13, b14, b15]"
    using assms by (rule length16_cases)
  define v w where "v = (b6 AND 0x0f) OR (0x40 :: byte)" and "w = (b8 AND 0x3f) OR (0x80 :: byte)"
  have "uuid_v4 raw = hex_encode [b0, b1, b2, b3] @ CHR ''-'' # hex_encode [b4, b5] @ CHR ''-''
      # hex_encode [v, b7] @ CHR ''-'' # hex_encode [w, b9] @ CHR ''-''
      # hex_encode [b10, b11, b12, b13, b14, b15]"
    by (simp add: r uuid_v4_def v_def w_def)
  then have sp: "split_on (CHR ''-'') (uuid_v4 raw) =
      [hex_encode [b0, b1, b2, b3], hex_encode [b4, b5], hex_encode [v, b7], hex_encode [w, b9],
       hex_encode [b10, b11, b12, b13, b14, b15]]"
    by (simp add: split_on_append_sep split_on_no_sep hex_encode_no_dash)
  have "(unat b6 mod 16 + 64) div 16 = 4" by presburger
  moreover have "hex_digit 4 = CHR ''4''" by code_simp
  ultimately have "hd (hex_encode [v, b7]) = CHR ''4''"
    by (simp add: hex_encode_def hex_byte_def v_def unat_version_byte)
  moreover have "hd (hex_encode [w, b9]) \<in> set ''89ab''"
    using hex_variant [of "unat b8 mod 64"]
    by (simp add: hex_encode_def hex_byte_def w_def unat_variant_byte)
  ultimately show ?thesis
    by (auto simp: uuid_v4_format_def sp list_all_iff hex_encode_chars)
qed
lemma uuid_v4_nonempty: "uuid_v4 raw \<noteq> []"
  by (simp add: uuid_v4_def Let_def)

lemma newEventID_nonempty [simp]: "newEventID ent \<noteq> []"
  by (simp add: newEventID_def uuid_v4_nonempty split: option.split)

lemmas Enrich_simps = EnrichFromKeyContext_def Let_def

lemma Enrich_fields [simp]:
  "OrgID (EnrichFromKeyContext ent kc e) = kc_OrgID kc"
  "SourceMode (EnrichFromKeyContext ent kc e) = kc_SourceMode kc"
  "KeyID (EnrichFromKeyContext ent kc e) = kc_KeyID kc"
  "CustomerID (EnrichFromKeyContext ent kc e) =
     (if kc_CustomerID kc = [] then CustomerID e else kc_CustomerID kc)"
  "EventID (EnrichFromKeyContext ent kc e) = (if EventID e = [] then newEventID ent else EventID e)"
  "EndUserID (EnrichFromKeyContext ent kc e) = EndUserID e"
  "EventType (EnrichFromKeyContext ent kc e) = EventType e"
  "Model (EnrichFromKeyContext ent kc e) = Model e"
  by (simp_all add: Enrich_simps)

lemma Enrich_Validate [simp]: "Validate (EnrichFromKeyContext ent kc e) = Validate e"
  by (simp add: Enrich_simps Validate_def)

text \<open>
  Anti-spoofing.  Whatever organisation, source mode, key id and (when the key carries a
  customer) customer a payload claims, the enriched event is the same, and it is the payload with
  exactly these fields taken from the authenticated key, plus a generated event id and a timestamp
  where the payload has none; the event id is never empty.
\<close>

theorem EnrichFromKeyContext_trusts_key:
  "EnrichFromKeyContext ent kc
     (e\<lparr>OrgID := o', SourceMode := m', KeyID := k',
        CustomerID := (if kc_CustomerID kc = [] then CustomerID e else c')\<rparr>)
   = EnrichFromKeyContext ent kc e
   \<and> EnrichFromKeyContext ent kc e =
     e\<lparr>OrgID := kc_OrgID kc,
       CustomerID := (if kc_CustomerID kc = [] then CustomerID e else kc_CustomerID kc),
       SourceMode := kc_SourceMode kc, KeyID := kc_KeyID kc,
       EventID := (if EventID e = [] then newEventID ent else EventID e),
       TimestampMs := (if TimestampMs e = 0 then now_milli ent else TimestampMs e)\<rparr>
   \<and> EventID (EnrichFromKeyContext ent kc e) \<noteq> []"
  by (simp add: Enrich_simps)

text \<open>
  A generated event id is a version 4 UUID: 8-4-4-4-12 lower-case hexadecimal digits, version
  digit 4 and variant digit 8, 9, a or b, whatever 16 bytes the random source delivers.
\<close>

theorem newEventID_uuid_v4:
  assumes "rand16 ent = Some raw" and "length raw = 16"
  shows "uuid_v4_format (newEventID ent)"
  using assms by (simp add: newEventID_def uuid_v4_ok)

theorem newEventID_uuid_v4_witness:
  "uuid_v4_format (newEventID \<lparr>rand16 = Some (replicate 16 0xff), now_milli = 0, now_nano = 0\<rparr>)"
  by (rule newEventID_uuid_v4 [where raw = "replicate 16 0xff"]) simp_all

lemma ParseIngestBatch_nonempty [simp]: "ParseIngestBatch body \<noteq> Inr []"
  by (auto simp: ParseIngestBatch_def split: sum.splits list.splits)

end
