(* ===== verification/Tracing.thy ===== *)
theory Tracing
  imports Prelude
begin

text \<open>
  \<^verbatim>\<open>engine/internal/tracing/tracing.go\<close>: the W3C \<open>traceparent\<close> header.  \<open>StartSpan\<close>,
  \<open>InjectTraceContext\<close> and \<open>RecordError\<close> are placeholders in the source: the first two return their
  context argument unchanged, the last returns nothing and does nothing.
\<close>

record TraceContext =
  TraceID :: string
  SpanID :: string
  TraceFlags :: string

text \<open>Go's slice \<open>s[i:j]\<close>, where \<open>i \<le> j \<le> len(s)\<close>.\<close>

definition str_slice :: "string \<Rightarrow> nat \<Rightarrow> nat \<Rightarrow> string" where
  "str_slice s i j = take (j - i) (drop i s)"

definition ParseTraceParent :: "string \<Rightarrow> TraceContext option" where
  "ParseTraceParent tp =
     (if tp = [] \<or> length tp < 55 then None
      else if length tp \<noteq> 55 \<or> str_slice tp 0 3 \<noteq> ''00-'' \<or> str_slice tp 35 36 \<noteq> ''-''
              \<or> str_slice tp 52 53 \<noteq> ''-'' then None
      else Some \<lparr>TraceID = str_slice tp 3 35, SpanID = str_slice tp 36 52,
                 TraceFlags = str_slice tp 53 55\<rparr>)"

text \<open>\<open>TraceContext.String\<close>; the receiver may be nil.\<close>

definition TraceContext_String :: "TraceContext option \<Rightarrow> string" where
  "TraceContext_String tc =
     (case tc of
        None \<Rightarrow> []
      | Some t \<Rightarrow> ''00-'' @ TraceID t @ ''-'' @ SpanID t @ ''-'' @ TraceFlags t)"

text \<open>\<open>StartSpan\<close>, \<open>InjectTraceContext\<close> and \<open>RecordError\<close>, over an arbitrary context.\<close>

definition InjectTraceContext :: "'c \<Rightarrow> TraceContext option \<Rightarrow> 'c" where
  "InjectTraceContext ctx tc = ctx"

definition StartSpan :: "'c \<Rightarrow> string \<Rightarrow> 'c" where
  "StartSpan ctx name = ctx"

definition RecordError :: "'c \<Rightarrow> 'err \<Rightarrow> unit" where
  "RecordError ctx err = ()"

definition trace_wf :: "TraceContext \<Rightarrow> bool" where
  "trace_wf t = (length (TraceID t) = 32 \<and> length (SpanID t) = 16 \<and> length (TraceFlags t) = 2)"

section \<open>Properties\<close>

lemma str_slice_append:
  "length a = i \<Longrightarrow> length b = j - i \<Longrightarrow> i \<le> j \<Longrightarrow> str_slice (a @ b @ c) i j = b"
  by (simp add: str_slice_def)

lemma ParseTraceParent_String:
  assumes "trace_wf t"
  shows "ParseTraceParent (TraceContext_String (Some t)) = Some t"
proof -
  let ?s = "TraceContext_String (Some t)"
  have len: "length (TraceID t) = 32" "length (SpanID t) = 16" "length (TraceFlags t) = 2"
    using assms by (auto simp: trace_wf_def)
  have "str_slice ?s 0 3 = ''00-''"
    using str_slice_append [of "[]" 0 "''00-''" 3] by (simp add: TraceContext_String_def)
  moreover have "str_slice ?s 3 35 = TraceID t"
    using len str_slice_append [of "''00-''" 3 "TraceID t" 35] by (simp add: TraceContext_String_def)
  moreover have "str_slice ?s 35 36 = ''-''"
    using len str_slice_append [of "''00-'' @ TraceID t" 35 "''-''" 36]
    by (simp add: TraceContext_String_def)
  moreover have "str_slice ?s 36 52 = SpanID t"
    using len str_slice_append [of "''00-'' @ TraceID t @ ''-''" 36 "SpanID t" 52]
    by (simp add: TraceContext_String_def)
  moreover have "str_slice ?s 52 53 = ''-''"
    using len str_slice_append [of "''00-'' @ TraceID t @ ''-'' @ SpanID t" 52 "''-''" 53]
    by (simp add: TraceContext_String_def)
  moreover have "str_slice ?s 53 55 = TraceFlags t"
    using len str_slice_append [of "''00-'' @ TraceID t @ ''-'' @ SpanID t @ ''-''" 53 "TraceFlags t" 55 "[]"]
    by (simp add: TraceContext_String_def)
  moreover have "length ?s = 55" using len by (simp add: TraceContext_String_def)
  ultimately show ?thesis by (auto simp: ParseTraceParent_def)
qed

lemma str_slice_join:
  assumes "i \<le> j" and "j \<le> k"
  shows "str_slice s i j @ str_slice s j k = str_slice s i k"
proof -
  obtain m n where "j = i + m" and "k = i + m + n"
    using assms by (metis le_Suc_ex)
  then show ?thesis by (simp add: str_slice_def take_add add.commute)
qed

lemma length_str_slice: "j \<le> length s \<Longrightarrow> length (str_slice s i j) = j - i"
  by (simp add: str_slice_def)

lemma ParseTraceParent_inv:
  assumes "ParseTraceParent tp = Some t"
  shows "trace_wf t \<and> TraceContext_String (Some t) = tp"
proof -
  from assms have len: "length tp = 55"
    and sep: "str_slice tp 0 3 = ''00-''" "str_slice tp 35 36 = ''-''" "str_slice tp 52 53 = ''-''"
    and t: "TraceID t = str_slice tp 3 35" "SpanID t = str_slice tp 36 52"
      "TraceFlags t = str_slice tp 53 55"
    by (auto simp: ParseTraceParent_def split: if_splits)
  have "TraceContext_String (Some t) =
      str_slice tp 0 3 @ str_slice tp 3 35 @ str_slice tp 35 36 @ str_slice tp 36 52
      @ str_slice tp 52 53 @ str_slice tp 53 55"
    by (simp add: TraceContext_String_def t sep)
  also have "\<dots> = str_slice tp 0 55" by (simp add: str_slice_join)
  also have "\<dots> = tp" using len by (simp add: str_slice_def)
  finally show ?thesis using len by (simp add: trace_wf_def t length_str_slice)
qed

interpretation traceparent: text_codec "\<lambda>t. TraceContext_String (Some t)" ParseTraceParent trace_wf
  by unfold_locales (rule ParseTraceParent_String, assumption, rule ParseTraceParent_inv)

text \<open>
  The traceparent parser and printer are inverse: a header parses to a context exactly when it
  is the printed form of that context and the context has a 32-character trace id, a 16-character
  span id and 2 characters of flags.
\<close>

theorem ParseTraceParent_iff:
  "ParseTraceParent tp = Some t \<longleftrightarrow> trace_wf t \<and> TraceContext_String (Some t) = tp"
  by (rule traceparent.dec_iff)

end
