(* ===== verification/Http.thy ===== *)
theory Http
  imports Models Tracing
begin

text \<open>
  What the handlers see of \<^verbatim>\<open>net/http\<close>: a request with its method, path, parsed query, headers by
  canonical name, body and the two values that middleware stores in its context, and a response
  with a status, a content type and a body.
\<close>

record request =
  r_Method :: string
  r_Path :: string
  r_Query :: "string \<Rightarrow> string"
  r_Header :: "string \<Rightarrow> string"
  r_RemoteAddr :: string
  r_Body :: string
  r_BodyErr :: bool
  r_KeyContext :: "KeyContext option"
  r_TraceContext :: "TraceContext option"

record response =
  status :: nat
  content_type :: string
  resp_body :: string

text \<open>
  The outcome of a handler: a response, or a panic, after which the server drops the connection
  without one.
\<close>

datatype reply = Reply response | Panicked

text \<open>
  \<open>io.ReadAll\<close> over \<open>http.MaxBytesReader\<close>: an error when the transport fails or the body is longer
  than the limit.
\<close>

definition ReadAll_limited :: "nat \<Rightarrow> request \<Rightarrow> string option" where
  "ReadAll_limited n r =
     (if r_BodyErr r \<or> n < length (r_Body r) then None else Some (r_Body r))"

text \<open>\<open>json.NewEncoder(w).Encode(v)\<close> ends the value with a newline.\<close>

definition json_response :: "nat \<Rightarrow> json \<Rightarrow> response" where
  "json_response st j =
     \<lparr>status = st, content_type = ''application/json'', resp_body = json_print j @ [CHR 0x0A]\<rparr>"

text \<open>The error envelope of \<open>writeError\<close>; \<open>encoding/json\<close> writes the keys of a map sorted.\<close>

definition error_json :: "string \<Rightarrow> string \<Rightarrow> json" where
  "error_json code msg =
     JObj [(''error'', JObj [(''code'', JStr code), (''message'', JStr msg)])]"

definition writeError :: "nat \<Rightarrow> string \<Rightarrow> string \<Rightarrow> response" where
  "writeError st code msg = json_response st (error_json code msg)"

section \<open>Trace context of a request\<close>

text \<open>
  The request side of \<^verbatim>\<open>engine/internal/tracing/tracing.go\<close>.  \<open>r_Header\<close> is indexed by the canonical form
  of the header's name.
\<close>

definition ExtractTraceParent :: "request \<Rightarrow> string" where
  "ExtractTraceParent r = r_Header r ''Traceparent''"

definition GetTraceContext :: "request \<Rightarrow> TraceContext option" where
  "GetTraceContext r = r_TraceContext r"

definition Middleware :: "(request \<Rightarrow> 'w \<Rightarrow> 'r) \<Rightarrow> request \<Rightarrow> 'w \<Rightarrow> 'r" where
  "Middleware next r w =
     (let tp = ExtractTraceParent r in
      if tp \<noteq> [] then
        (case ParseTraceParent tp of
           Some tc \<Rightarrow> next (r\<lparr>r_TraceContext := Some tc\<rparr>) w
         | None \<Rightarrow> next r w)
      else next r w)"

lemma status_json_response [simp]: "status (json_response st j) = st"
  by (simp add: json_response_def)

lemma status_writeError [simp]: "status (writeError st code msg) = st"
  by (simp add: writeError_def)

end
