(* ===== verification/Backend.thy ===== *)
theory Backend
  imports Models
begin

text \<open>
  The services behind the engine: the Redis server reached through go-redis, the Postgres database
  reached through database/sql, and the publisher of Kafka messages.  Their code is not part of
  the repository, so every operation is a parameter: a definition that uses them takes a record
  \<open>'w services\<close> of operations over an abstract world \<open>'w\<close>.  An operation returns its result and the
  next world; \<open>Inl\<close> is a failed command (network error, timeout, cancelled context).

  The locale \<open>backend\<close> holds what the engine relies on, the documented behaviour of each
  command (so that a sequence of commands in one function stands for a period in which no key
  expires and no other client writes; \<open>IngestConc\<close> has both): \<open>kv\<close> is the key space of Redis, \<open>bf\<close> what has been added to each Bloom filter, \<open>db\<close> the database tables, \<open>sent\<close> the messages
  handed to the publisher.  A failed write may or may not have taken effect.  \<open>backend_up\<close> adds that
  no command fails.  \<open>Ref_Backend\<close> interprets both.
\<close>

datatype redis_error = RedisError string
datatype pg_error = PgError string
datatype publish_error = PublishError string

section \<open>Tables\<close>

text \<open>The columns of the tables that the engine's SQL names; a nullable column is an option.\<close>

record org_row =
  org_id_col :: string
  org_status_col :: string

record end_user_row =
  eu_id_col :: string
  eu_org_id_col :: string
  eu_status_col :: string

record api_key_row =
  ak_id :: string
  ak_org_id :: string
  ak_customer_id :: "string option"
  ak_end_user_id :: "string option"
  ak_name :: string
  ak_key_hash :: string
  ak_key_prefix :: string
  ak_source_mode :: string
  ak_status :: string
  ak_created_at :: int
  ak_revoked_at :: "int option"

record byok_row =
  bk_org_id :: string
  bk_provider :: string
  bk_encrypted_key :: "byte list"
  bk_key_iv :: "byte list"
  bk_created_at :: int
  bk_updated_at :: int

record audit_row =
  au_org_id :: "string option"
  au_violation_type :: string
  au_ip_address :: string
  au_details :: string
  au_triggered_by :: string
  au_created_at :: int

record database =
  organizations :: "org_row list"
  end_users :: "end_user_row list"
  api_keys :: "api_key_row list"
  byok_provider_keys :: "byok_row list"
  security_audit_logs :: "audit_row list"

section \<open>Operations\<close>

text \<open>
  \<open>pg_insert_*\<close> take the new row as a function of the server's \<open>NOW()\<close>; \<open>pg_update_api_keys\<close> is
  \<open>UPDATE ... SET ... WHERE ... RETURNING\<close>, with the rows after the update; \<open>pg_upsert_byok\<close> is
  \<open>INSERT ... ON CONFLICT (org_id, provider) DO UPDATE\<close>.
\<close>

record 'w services =
  redis_Get :: "string \<Rightarrow> 'w \<Rightarrow> (redis_error, string option) result \<times> 'w"
  redis_Set :: "string \<Rightarrow> string \<Rightarrow> duration \<Rightarrow> 'w \<Rightarrow> (redis_error, unit) result \<times> 'w"
  redis_SetNX :: "string \<Rightarrow> string \<Rightarrow> duration \<Rightarrow> 'w \<Rightarrow> (redis_error, bool) result \<times> 'w"
  redis_Exists :: "string \<Rightarrow> 'w \<Rightarrow> (redis_error, int) result \<times> 'w"
  redis_Del :: "string \<Rightarrow> 'w \<Rightarrow> (redis_error, int) result \<times> 'w"
  redis_BFReserve :: "string \<Rightarrow> string \<Rightarrow> string \<Rightarrow> 'w \<Rightarrow> (redis_error, unit) result \<times> 'w"
  redis_BFExists :: "string \<Rightarrow> string \<Rightarrow> 'w \<Rightarrow> (redis_error, int) result \<times> 'w"
  redis_BFAdd :: "string \<Rightarrow> string \<Rightarrow> 'w \<Rightarrow> (redis_error, int) result \<times> 'w"
  pg_organizations :: "'w \<Rightarrow> (pg_error, org_row list) result \<times> 'w"
  pg_end_users :: "'w \<Rightarrow> (pg_error, end_user_row list) result \<times> 'w"
  pg_api_keys :: "'w \<Rightarrow> (pg_error, api_key_row list) result \<times> 'w"
  pg_byok :: "'w \<Rightarrow> (pg_error, byok_row list) result \<times> 'w"
  pg_insert_api_key :: "(int \<Rightarrow> api_key_row) \<Rightarrow> 'w \<Rightarrow> (pg_error, unit) result \<times> 'w"
  pg_update_api_keys ::
    "(api_key_row \<Rightarrow> bool) \<Rightarrow> (int \<Rightarrow> api_key_row \<Rightarrow> api_key_row) \<Rightarrow> 'w
     \<Rightarrow> (pg_error, api_key_row list) result \<times> 'w"
  pg_upsert_byok ::
    "(int \<Rightarrow> byok_row) \<Rightarrow> (int \<Rightarrow> byok_row \<Rightarrow> byok_row) \<Rightarrow> 'w \<Rightarrow> (pg_error, unit) result \<times> 'w"
  pg_insert_audit :: "(int \<Rightarrow> audit_row) \<Rightarrow> 'w \<Rightarrow> (pg_error, unit) result \<times> 'w"
  kafka_publish :: "string \<Rightarrow> string \<Rightarrow> 'w \<Rightarrow> publish_error option \<times> 'w"
  kafka_publish_batch :: "string list \<Rightarrow> string \<Rightarrow> 'w \<Rightarrow> publish_error option \<times> 'w"

definition same_byok_key :: "byok_row \<Rightarrow> byok_row \<Rightarrow> bool" where
  "same_byok_key a b = (bk_org_id a = bk_org_id b \<and> bk_provider a = bk_provider b)"

definition upsert_byok :: "byok_row \<Rightarrow> (byok_row \<Rightarrow> byok_row) \<Rightarrow> byok_row list \<Rightarrow> byok_row list" where
  "upsert_byok new upd rows =
     (if list_ex (same_byok_key new) rows
      then map (\<lambda>r. if same_byok_key new r then upd r else r) rows
      else rows @ [new])"

section \<open>What the engine relies on\<close>

locale backend =
  fixes sv :: "'w services"
    and kv :: "'w \<Rightarrow> string \<Rightarrow> string option"
    and bf :: "'w \<Rightarrow> string \<Rightarrow> string set"
    and db :: "'w \<Rightarrow> database"
    and sent :: "'w \<Rightarrow> (string \<times> string) list"
  assumes get_frame: "\<And>k w x w'. redis_Get sv k w = (x, w') \<Longrightarrow> kv w' = kv w \<and> bf w' = bf w \<and> db w' = db w \<and> sent w' = sent w"
    and get_ok: "\<And>k w v w'. redis_Get sv k w = (Inr v, w') \<Longrightarrow> v = kv w k"
    and set_frame: "\<And>k v t w x w'. redis_Set sv k v t w = (x, w') \<Longrightarrow> bf w' = bf w \<and> db w' = db w \<and> sent w' = sent w"
    and set_ok: "\<And>k v t w u w'. redis_Set sv k v t w = (Inr u, w') \<Longrightarrow> kv w' = (kv w)(k \<mapsto> v)"
    and set_err: "\<And>k v t w e w'. redis_Set sv k v t w = (Inl e, w') \<Longrightarrow> kv w' = kv w \<or> kv w' = (kv w)(k \<mapsto> v)"
    and setnx_frame: "\<And>k v t w x w'. redis_SetNX sv k v t w = (x, w') \<Longrightarrow> bf w' = bf w \<and> db w' = db w \<and> sent w' = sent w"
    and setnx_ok: "\<And>k v t w b w'. redis_SetNX sv k v t w = (Inr b, w') \<Longrightarrow>
           b = (kv w k = None) \<and> kv w' = (if b then (kv w)(k \<mapsto> v) else kv w)"
    and setnx_err: "\<And>k v t w e w'. redis_SetNX sv k v t w = (Inl e, w') \<Longrightarrow>
           kv w' = kv w \<or> kv w k = None \<and> kv w' = (kv w)(k \<mapsto> v)"
    and exists_frame: "\<And>k w y w'. redis_Exists sv k w = (y, w') \<Longrightarrow> kv w' = kv w \<and> bf w' = bf w \<and> db w' = db w \<and> sent w' = sent w"
    and exists_ok: "\<And>k w n w'. redis_Exists sv k w = (Inr n, w') \<Longrightarrow> 0 < n \<longleftrightarrow> kv w k \<noteq> None"
    and del_frame: "\<And>k w y w'. redis_Del sv k w = (y, w') \<Longrightarrow> bf w' = bf w \<and> db w' = db w \<and> sent w' = sent w"
    and del_ok: "\<And>k w n w'. redis_Del sv k w = (Inr n, w') \<Longrightarrow> kv w' = (kv w)(k := None)"
    and del_err: "\<And>k w e w'. redis_Del sv k w = (Inl e, w') \<Longrightarrow> kv w' = kv w \<or> kv w' = (kv w)(k := None)"
    and bfreserve_frame: "\<And>k p c w x w'. redis_BFReserve sv k p c w = (x, w') \<Longrightarrow>
           kv w' = kv w \<and> bf w' = bf w \<and> db w' = db w \<and> sent w' = sent w"
    and bfexists_frame: "\<And>k i w y w'. redis_BFExists sv k i w = (y, w') \<Longrightarrow>
           kv w' = kv w \<and> bf w' = bf w \<and> db w' = db w \<and> sent w' = sent w"
    and bfexists_ok: "\<And>k i w n w'. redis_BFExists sv k i w = (Inr n, w') \<Longrightarrow>
           (n = 0 \<or> n = 1) \<and> (i \<in> bf w k \<longrightarrow> n = 1)"
    and bfadd_frame: "\<And>k i w y w'. redis_BFAdd sv k i w = (y, w') \<Longrightarrow> kv w' = kv w \<and> db w' = db w \<and> sent w' = sent w"
    and bfadd_ok: "\<And>k i w n w'. redis_BFAdd sv k i w = (Inr n, w') \<Longrightarrow> bf w' = (bf w)(k := insert i (bf w k))"
    and bfadd_err: "\<And>k i w e w'. redis_BFAdd sv k i w = (Inl e, w') \<Longrightarrow>
           bf w' = bf w \<or> bf w' = (bf w)(k := insert i (bf w k))"
    and orgs_ok: "\<And>w z w'. pg_organizations sv w = (z, w') \<Longrightarrow>
           kv w' = kv w \<and> bf w' = bf w \<and> db w' = db w \<and> sent w' = sent w
           \<and> (\<forall>rows. z = Inr rows \<longrightarrow> rows = organizations (db w))"
    and end_users_ok: "\<And>w q w'. pg_end_users sv w = (q, w') \<Longrightarrow>
           kv w' = kv w \<and> bf w' = bf w \<and> db w' = db w \<and> sent w' = sent w
           \<and> (\<forall>rows. q = Inr rows \<longrightarrow> rows = end_users (db w))"
    and api_keys_ok: "\<And>w g w'. pg_api_keys sv w = (g, w') \<Longrightarrow>
           kv w' = kv w \<and> bf w' = bf w \<and> db w' = db w \<and> sent w' = sent w
           \<and> (\<forall>rows. g = Inr rows \<longrightarrow> rows = api_keys (db w))"
    and byok_ok: "\<And>w h w'. pg_byok sv w = (h, w') \<Longrightarrow>
           kv w' = kv w \<and> bf w' = bf w \<and> db w' = db w \<and> sent w' = sent w
           \<and> (\<forall>rows. h = Inr rows \<longrightarrow> rows = byok_provider_keys (db w))"
    and insert_key_frame: "\<And>row w d w'. pg_insert_api_key sv row w = (d, w') \<Longrightarrow>
           kv w' = kv w \<and> bf w' = bf w \<and> sent w' = sent w"
    and insert_key_ok: "\<And>row w u w'. pg_insert_api_key sv row w = (Inr u, w') \<Longrightarrow>
           \<exists>now. db w' = (db w)\<lparr>api_keys := api_keys (db w) @ [row now]\<rparr>"
    and update_keys_frame: "\<And>sel upd w g w'. pg_update_api_keys sv sel upd w = (g, w') \<Longrightarrow>
           kv w' = kv w \<and> bf w' = bf w \<and> sent w' = sent w"
    and update_keys_ok: "\<And>sel upd w rows w'. pg_update_api_keys sv sel upd w = (Inr rows, w') \<Longrightarrow>
           \<exists>now. db w' = (db w)\<lparr>api_keys := map (\<lambda>r. if sel r then upd now r else r) (api_keys (db w))\<rparr>
                 \<and> rows = map (upd now) (filter sel (api_keys (db w)))"
    and upsert_byok_frame: "\<And>new upb w d w'. pg_upsert_byok sv new upb w = (d, w') \<Longrightarrow>
           kv w' = kv w \<and> bf w' = bf w \<and> sent w' = sent w"
    and upsert_byok_ok: "\<And>new upb w u w'. pg_upsert_byok sv new upb w = (Inr u, w') \<Longrightarrow>
           \<exists>now. db w' = (db w)\<lparr>byok_provider_keys :=
                   upsert_byok (new now) (upb now) (byok_provider_keys (db w))\<rparr>"
    and insert_audit_frame: "\<And>arow w d w'. pg_insert_audit sv arow w = (d, w') \<Longrightarrow>
           kv w' = kv w \<and> bf w' = bf w \<and> sent w' = sent w"
    and insert_audit_ok: "\<And>arow w u w'. pg_insert_audit sv arow w = (Inr u, w') \<Longrightarrow>
           \<exists>now. db w' = (db w)\<lparr>security_audit_logs := security_audit_logs (db w) @ [arow now]\<rparr>"
    and publish_frame: "\<And>m org w p w'. kafka_publish sv m org w = (p, w') \<Longrightarrow>
           kv w' = kv w \<and> bf w' = bf w \<and> db w' = db w \<and> sent w' = sent w @ [(m, org)]"
    and publish_batch_frame: "\<And>ms org w p w'. kafka_publish_batch sv ms org w = (p, w') \<Longrightarrow>
           kv w' = kv w \<and> bf w' = bf w \<and> db w' = db w \<and> sent w' = sent w @ map (\<lambda>m. (m, org)) ms"

text \<open>A period in which no command fails.\<close>

locale backend_up = backend +
  assumes get_up: "\<And>k w. \<exists>x w'. redis_Get sv k w = (Inr x, w')"
    and set_up: "\<And>k v t w. \<exists>x w'. redis_Set sv k v t w = (Inr x, w')"
    and setnx_up: "\<And>k v t w. \<exists>x w'. redis_SetNX sv k v t w = (Inr x, w')"
    and exists_up: "\<And>k w. \<exists>x w'. redis_Exists sv k w = (Inr x, w')"
    and del_up: "\<And>k w. \<exists>x w'. redis_Del sv k w = (Inr x, w')"
    and bfexists_up: "\<And>k i w. \<exists>x w'. redis_BFExists sv k i w = (Inr x, w')"
    and bfadd_up: "\<And>k i w. \<exists>x w'. redis_BFAdd sv k i w = (Inr x, w')"
    and orgs_up: "\<And>w. \<exists>x w'. pg_organizations sv w = (Inr x, w')"
    and end_users_up: "\<And>w. \<exists>x w'. pg_end_users sv w = (Inr x, w')"
    and api_keys_up: "\<And>w. \<exists>x w'. pg_api_keys sv w = (Inr x, w')"
    and byok_up: "\<And>w. \<exists>x w'. pg_byok sv w = (Inr x, w')"
    and insert_key_up: "\<And>row w. \<exists>x w'. pg_insert_api_key sv row w = (Inr x, w')"
    and update_keys_up: "\<And>sel upd w. \<exists>x w'. pg_update_api_keys sv sel upd w = (Inr x, w')"
    and upsert_byok_up: "\<And>new upb w. \<exists>x w'. pg_upsert_byok sv new upb w = (Inr x, w')"
    and insert_audit_up: "\<And>arow w. \<exists>x w'. pg_insert_audit sv arow w = (Inr x, w')"
begin

lemmas commands_up = get_up set_up setnx_up exists_up del_up bfexists_up bfadd_up orgs_up
  end_users_up api_keys_up byok_up insert_key_up update_keys_up upsert_byok_up insert_audit_up

end

end
