(* ===== verification/Ref_Backend.thy ===== *)
theory Ref_Backend
  imports Backend
begin

text \<open>
  A reference implementation of the services: an in-memory key space, Bloom filters that remember
  their items exactly, tables as lists of rows, a clock that \<open>NOW()\<close> reads, the messages handed to
  the publisher, and a script of faults that makes chosen commands fail without effect.  It
  discharges the laws of \<open>backend\<close> (with faults) and of \<open>backend_up\<close> (without).
\<close>

record ref_world =
  rw_kv :: "string \<Rightarrow> string option"
  rw_bf :: "string \<Rightarrow> string list"
  rw_db :: database
  rw_sent :: "(string \<times> string) list"
  rw_clock :: int
  rw_faults :: "bool list"

definition empty_db :: database where
  "empty_db = \<lparr>organizations = [], end_users = [], api_keys = [], byok_provider_keys = [],
     security_audit_logs = []\<rparr>"

definition empty_world :: ref_world where
  "empty_world = \<lparr>rw_kv = Map.empty, rw_bf = (\<lambda>_. []), rw_db = empty_db, rw_sent = [],
     rw_clock = 0, rw_faults = []\<rparr>"

text \<open>
  One command: with faults enabled, the head of the script decides whether it fails; the script
  moves on either way.
\<close>

definition command ::
  "bool \<Rightarrow> 'e \<Rightarrow> (ref_world \<Rightarrow> 'a \<times> ref_world) \<Rightarrow> ref_world \<Rightarrow> ('e, 'a) result \<times> ref_world" where
  "command faults e f w =
     (let w1 = w\<lparr>rw_faults := tl (rw_faults w)\<rparr> in
      if faults \<and> rw_faults w \<noteq> [] \<and> hd (rw_faults w) then (Inl e, w1)
      else (let (x, w2) = f w1 in (Inr x, w2)))"

abbreviation redis_down :: redis_error where "redis_down \<equiv> RedisError ''connection refused''"
abbreviation pg_down :: pg_error where "pg_down \<equiv> PgError ''connection refused''"

definition ref_services :: "bool \<Rightarrow> ref_world services" where
  "ref_services faults =
    \<lparr>redis_Get = (\<lambda>k. command faults redis_down (\<lambda>w. (rw_kv w k, w))),
     redis_Set = (\<lambda>k v t. command faults redis_down
       (\<lambda>w. ((), w\<lparr>rw_kv := (rw_kv w)(k \<mapsto> v)\<rparr>))),
     redis_SetNX = (\<lambda>k v t. command faults redis_down
       (\<lambda>w. if rw_kv w k = None then (True, w\<lparr>rw_kv := (rw_kv w)(k \<mapsto> v)\<rparr>) else (False, w))),
     redis_Exists = (\<lambda>k. command faults redis_down
       (\<lambda>w. (if rw_kv w k = None then 0 else 1, w))),
     redis_Del = (\<lambda>k. command faults redis_down
       (\<lambda>w. (if rw_kv w k = None then 0 else 1, w\<lparr>rw_kv := (rw_kv w)(k := None)\<rparr>))),
     redis_BFReserve = (\<lambda>k p c. command faults redis_down (\<lambda>w. ((), w))),
     redis_BFExists = (\<lambda>k i. command faults redis_down
       (\<lambda>w. (if i \<in> set (rw_bf w k) then 1 else 0, w))),
     redis_BFAdd = (\<lambda>k i. command faults redis_down
       (\<lambda>w. (if i \<in> set (rw_bf w k) then 0 else 1,
             w\<lparr>rw_bf := (rw_bf w)(k := i # rw_bf w k)\<rparr>))),
     pg_organizations = command faults pg_down (\<lambda>w. (organizations (rw_db w), w)),
     pg_end_users = command faults pg_down (\<lambda>w. (end_users (rw_db w), w)),
     pg_api_keys = command faults pg_down (\<lambda>w. (api_keys (rw_db w), w)),
     pg_byok = command faults pg_down (\<lambda>w. (byok_provider_keys (rw_db w), w)),
     pg_insert_api_key = (\<lambda>row. command faults pg_down
       (\<lambda>w. ((), w\<lparr>rw_db := (rw_db w)\<lparr>api_keys := api_keys (rw_db w) @ [row (rw_clock w)]\<rparr>\<rparr>))),
     pg_update_api_keys = (\<lambda>sel upd. command faults pg_down
       (\<lambda>w. (map (upd (rw_clock w)) (filter sel (api_keys (rw_db w))),
             w\<lparr>rw_db := (rw_db w)\<lparr>api_keys :=
               map (\<lambda>r. if sel r then upd (rw_clock w) r else r) (api_keys (rw_db w))\<rparr>\<rparr>))),
     pg_upsert_byok = (\<lambda>new upd. command faults pg_down
       (\<lambda>w. ((), w\<lparr>rw_db := (rw_db w)\<lparr>byok_provider_keys :=
               upsert_byok (new (rw_clock w)) (upd (rw_clock w)) (byok_provider_keys (rw_db w))\<rparr>\<rparr>))),
     pg_insert_audit = (\<lambda>row. command faults pg_down
       (\<lambda>w. ((), w\<lparr>rw_db := (rw_db w)\<lparr>security_audit_logs :=
               security_audit_logs (rw_db w) @ [row (rw_clock w)]\<rparr>\<rparr>))),
     kafka_publish = (\<lambda>m org w. (None, w\<lparr>rw_sent := rw_sent w @ [(m, org)]\<rparr>)),
     kafka_publish_batch = (\<lambda>ms org w. (None, w\<lparr>rw_sent := rw_sent w @ map (\<lambda>m. (m, org)) ms\<rparr>))\<rparr>"

abbreviation rw_bloom :: "ref_world \<Rightarrow> string \<Rightarrow> string set" where
  "rw_bloom w k \<equiv> set (rw_bf w k)"

lemma ref_services_backend:
  "backend (ref_services faults) rw_kv rw_bloom rw_db rw_sent"
  by unfold_locales
     (auto simp: ref_services_def command_def Let_def fun_eq_iff split: if_splits)

interpretation ref: backend "ref_services True" rw_kv rw_bloom rw_db rw_sent
  by (rule ref_services_backend)

interpretation ref_up: backend_up "ref_services False" rw_kv rw_bloom rw_db rw_sent
  by (intro backend_up.intro ref_services_backend, unfold_locales)
     (auto simp: ref_services_def command_def Let_def)

lemmas ref_eval = ref_services_def command_def empty_world_def empty_db_def

end
