(* ===== verification/Auth.thy ===== *)
theory Auth
  imports Http Ref_Backend
begin

text \<open>
  \<^verbatim>\<open>engine/internal/auth/redis_provider.go\<close>: the lookup of an API key in Redis, the middleware that
  puts the key's context into the request, and the error envelope.  The log lines are not modelled.
\<close>

section \<open>Errors\<close>

datatype auth_error = ErrKeyNotFound | ErrKeyRevoked | ErrKeyExpired | ErrAuthServiceUnavailable

definition StatusCode :: "auth_error \<Rightarrow> nat" where
  "StatusCode e = (case e of ErrAuthServiceUnavailable \<Rightarrow> 503 | _ \<Rightarrow> 401)"

definition ErrorCode :: "auth_error \<Rightarrow> string" where
  "ErrorCode e =
     (case e of
        ErrKeyNotFound \<Rightarrow> ''UNAUTHORIZED''
      | ErrKeyRevoked \<Rightarrow> ''KEY_REVOKED''
      | ErrKeyExpired \<Rightarrow> ''KEY_EXPIRED''
      | ErrAuthServiceUnavailable \<Rightarrow> ''AUTH_SERVICE_UNAVAILABLE'')"

definition auth_message :: "auth_error \<Rightarrow> string" where
  "auth_message e =
     (case e of
        ErrKeyNotFound \<Rightarrow> ''invalid API key''
      | ErrKeyRevoked \<Rightarrow> ''API key has been revoked''
      | ErrKeyExpired \<Rightarrow> ''API key has expired''
      | ErrAuthServiceUnavailable \<Rightarrow> ''authentication service unavailable'')"

text \<open>
  An error made by \<open>fmt.Errorf\<close> with the verb \<open>%w\<close>: the wrapped error, which \<open>errors.As\<close> finds, and
  the text after it.
\<close>

datatype wrapped_error = Wrapped (unwrap: auth_error) (detail: string)

definition MaskKey :: "string \<Rightarrow> string" where
  "MaskKey rawKey = (if length rawKey < 8 then ''...'' else take 8 rawKey @ ''...'')"

section \<open>ValidateAPIKey\<close>

definition apikey_key :: "string \<Rightarrow> string" where
  "apikey_key rawKey = ''apikey:'' @ rawKey"

definition plain_key_context :: "string \<Rightarrow> KeyContext" where
  "plain_key_context val =
     zero_key_context\<lparr>kc_OrgID := val, kc_SourceMode := SourceModeDirectIngest,
       kc_Status := KeyStatusActive\<rparr>"

definition redis_error_text :: "redis_error \<Rightarrow> string" where
  "redis_error_text e = (case e of RedisError s \<Rightarrow> s)"

text \<open>What a stored value means: JSON first, any other text is an organisation id.\<close>

definition key_context_of_value :: "string \<Rightarrow> string \<Rightarrow> (wrapped_error, KeyContext) result" where
  "key_context_of_value rawKey val =
     (case unmarshal_key_context val of
        Inr kc \<Rightarrow>
          (if kc_Status kc = KeyStatusActive then Inr kc
           else if kc_Status kc = KeyStatusRevoked
             then Inl (Wrapped ErrKeyRevoked (''key_id='' @ kc_KeyID kc))
           else if kc_Status kc = KeyStatusExpired
             then Inl (Wrapped ErrKeyExpired (''key_id='' @ kc_KeyID kc))
           else Inl (Wrapped ErrKeyNotFound (MaskKey rawKey)))
      | Inl _ \<Rightarrow> Inr (plain_key_context val))"

definition ValidateAPIKey ::
  "'w services \<Rightarrow> string \<Rightarrow> 'w \<Rightarrow> (wrapped_error, KeyContext) result \<times> 'w" where
  "ValidateAPIKey sv rawKey w =
     (case redis_Get sv (apikey_key rawKey) w of
        (Inl e, w') \<Rightarrow> (Inl (Wrapped ErrAuthServiceUnavailable (redis_error_text e)), w')
      | (Inr None, w') \<Rightarrow> (Inl (Wrapped ErrKeyNotFound (MaskKey rawKey)), w')
      | (Inr (Some val), w') \<Rightarrow> (key_context_of_value rawKey val, w'))"

section \<open>AuthMiddleware\<close>

text \<open>\<open>fmt.Fprintf\<close> of the envelope: code and message are inserted as they are.\<close>

definition writeAuthError :: "nat \<Rightarrow> string \<Rightarrow> string \<Rightarrow> response" where
  "writeAuthError st code message =
     (let safeMsg = (if str_contains message ''sk-'' then ''invalid API key'' else message);
          q = [CHR 0x22]
      in \<lparr>status = st, content_type = ''application/json'',
          resp_body = ''{'' @ q @ ''error'' @ q @ '':{'' @ q @ ''code'' @ q @ '':'' @ q @ code @ q
            @ '','' @ q @ ''message'' @ q @ '':'' @ q @ safeMsg @ q @ ''}}''\<rparr>)"

definition AuthMiddleware ::
  "'w services \<Rightarrow> (request \<Rightarrow> 'w \<Rightarrow> reply \<times> 'w) \<Rightarrow> request \<Rightarrow> 'w \<Rightarrow> reply \<times> 'w" where
  "AuthMiddleware sv next r w =
     (let rawKey = r_Header r ''X-API-Key'' in
      if rawKey = [] then (Reply (writeAuthError 401 ''UNAUTHORIZED'' ''missing X-API-Key header''), w)
      else
        (case ValidateAPIKey sv rawKey w of
           (Inl err, w') \<Rightarrow>
             (let ae = unwrap err in
              (Reply (writeAuthError (StatusCode ae) (ErrorCode ae) (auth_message ae)), w'))
         | (Inr kc, w') \<Rightarrow> next (r\<lparr>r_KeyContext := Some kc\<rparr>) w'))"

definition GetKeyContext :: "request \<Rightarrow> KeyContext option" where
  "GetKeyContext r = r_KeyContext r"

text \<open>The replies that the middleware itself can write.\<close>

definition auth_replies :: "response list" where
  "auth_replies =
     writeAuthError 401 ''UNAUTHORIZED'' ''missing X-API-Key header''
     # map (\<lambda>ae. writeAuthError (StatusCode ae) (ErrorCode ae) (auth_message ae))
         [ErrKeyNotFound, ErrKeyRevoked, ErrKeyExpired, ErrAuthServiceUnavailable]"

text \<open>Sample data of the witnesses.\<close>

definition demo_key_json :: string where
  "demo_key_json = json_print (JObj [(''key_id'', JStr ''k1''), (''org_id'', JStr ''acme''),
     (''status'', JStr ''active'')])"

definition demo_key_context :: KeyContext where
  "demo_key_context = zero_key_context\<lparr>kc_KeyID := ''k1'', kc_OrgID := ''acme'',
     kc_Status := KeyStatusActive\<rparr>"

definition demo_key_world :: ref_world where
  "demo_key_world = empty_world\<lparr>rw_kv := [apikey_key ''sk-1'' \<mapsto> demo_key_json]\<rparr>"

definition demo_request :: "string \<Rightarrow> string \<Rightarrow> request" where
  "demo_request key body =
     \<lparr>r_Method = ''POST'', r_Path = ''/v1/events'', r_Query = (\<lambda>_. []),
      r_Header = (\<lambda>_. [])(''X-API-Key'' := key), r_RemoteAddr = [], r_Body = body,
      r_BodyErr = False, r_KeyContext = None, r_TraceContext = None\<rparr>"

section \<open>Lemmas and properties\<close>

lemma plain_key_context_active [simp]: "kc_Status (plain_key_context v) = KeyStatusActive"
  by (simp add: plain_key_context_def)

lemma auth_reply_of_error:
  "writeAuthError (StatusCode ae) (ErrorCode ae) (auth_message ae) \<in> set auth_replies"
  by (cases ae) (simp_all add: auth_replies_def)

lemma auth_replies_status: "resp \<in> set auth_replies \<Longrightarrow> status resp = 401 \<or> status resp = 503"
  by (auto simp: auth_replies_def writeAuthError_def Let_def StatusCode_def)

context backend
begin

lemma ValidateAPIKey_frame:
  assumes "ValidateAPIKey sv raw w = (x, w')"
  shows "kv w' = kv w" and "bf w' = bf w" and "db w' = db w" and "sent w' = sent w"
  using assms get_frame [of "apikey_key raw" w]
  by (auto simp: ValidateAPIKey_def split: prod.splits sum.splits option.splits)

lemma ValidateAPIKey_result:
  assumes "ValidateAPIKey sv raw w = (x, w')"
  shows "(\<exists>t. x = Inl (Wrapped ErrAuthServiceUnavailable t))
         \<or> x = (case kv w (apikey_key raw) of
                  None \<Rightarrow> Inl (Wrapped ErrKeyNotFound (MaskKey raw))
                | Some v \<Rightarrow> key_context_of_value raw v)"
  using assms get_ok [of "apikey_key raw" w]
  by (auto simp: ValidateAPIKey_def split: prod.splits sum.splits option.splits)

end

context backend_up
begin

lemma ValidateAPIKey_up:
  "\<exists>w'. ValidateAPIKey sv raw w =
     ((case kv w (apikey_key raw) of
         None \<Rightarrow> Inl (Wrapped ErrKeyNotFound (MaskKey raw))
       | Some v \<Rightarrow> key_context_of_value raw v), w')"
proof -
  obtain v w' where g: "redis_Get sv (apikey_key raw) w = (Inr v, w')"
    using get_up by blast
  then have "v = kv w (apikey_key raw)" by (rule get_ok)
  with g show ?thesis
    by (auto simp: ValidateAPIKey_def split: option.splits)
qed

end

text \<open>
  C14.  A key that authenticates is active.  \<open>ValidateAPIKey\<close> succeeds only for a key whose Redis entry
  exists at that moment; the context it returns is active and is either the entry's JSON object or,
  for an entry that is not such an object, the direct-ingest context of the organisation the entry
  names.  A revoked or expired entry is refused with its own error and an absent one as unknown.
\<close>

theorem ValidateAPIKey_correct:
  assumes "backend sv kv bf db sent" and "ValidateAPIKey sv raw w = (x, w')"
  shows "case x of
      Inr kc \<Rightarrow> IsActive kc \<and> (\<exists>v. kv w (apikey_key raw) = Some v \<and>
        (unmarshal_key_context v = Inr kc
         \<or> (\<exists>e. unmarshal_key_context v = Inl e) \<and> kc = plain_key_context v))
    | Inl err \<Rightarrow>
        (case unwrap err of
           ErrKeyNotFound \<Rightarrow> kv w (apikey_key raw) = None
             \<or> (\<exists>v kc. kv w (apikey_key raw) = Some v \<and> unmarshal_key_context v = Inr kc \<and> kc_Status kc
                   \<notin> {KeyStatusActive, KeyStatusRevoked, KeyStatusExpired})
         | ErrKeyRevoked \<Rightarrow> (\<exists>v kc. kv w (apikey_key raw) = Some v
             \<and> unmarshal_key_context v = Inr kc \<and> kc_Status kc = KeyStatusRevoked)
         | ErrKeyExpired \<Rightarrow> (\<exists>v kc. kv w (apikey_key raw) = Some v
             \<and> unmarshal_key_context v = Inr kc \<and> kc_Status kc = KeyStatusExpired)
         | ErrAuthServiceUnavailable \<Rightarrow> \<exists>e. fst (redis_Get sv (apikey_key raw) w) = Inl e)"
  using assms(2) backend.get_ok [OF assms(1), of "apikey_key raw" w]
  by (auto simp: ValidateAPIKey_def key_context_of_value_def IsActive_def
      split: prod.splits sum.splits option.splits if_splits)

lemma unmarshal_demo_key: "unmarshal_key_context demo_key_json = Inr demo_key_context"
  by code_simp

lemma ValidateAPIKey_demo:
  "ValidateAPIKey (ref_services f) ''sk-1'' demo_key_world = (Inr demo_key_context, demo_key_world)"
  by (simp add: ValidateAPIKey_def demo_key_world_def ref_eval key_context_of_value_def
      unmarshal_demo_key demo_key_context_def)

theorem ValidateAPIKey_correct_witness:
  "IsActive demo_key_context \<and> unmarshal_key_context demo_key_json = Inr demo_key_context"
  using ValidateAPIKey_correct [OF ref.backend_axioms ValidateAPIKey_demo] unmarshal_demo_key
  by (simp add: demo_key_world_def)

text \<open>
  C15.  The gate.  For every request, either the protected handler runs, and it gets the request with
  exactly the context that \<open>ValidateAPIKey\<close> returned for the header's key, or the reply is one of
  five fixed envelopes with status 401 or 503, so that neither the key nor anything read from Redis
  appears in it, and the request has changed nothing.
\<close>

theorem AuthMiddleware_gate:
  assumes "backend sv kv bf db sent" and "AuthMiddleware sv next r w = (rep, w')"
  shows "(\<exists>kc w1. ValidateAPIKey sv (r_Header r ''X-API-Key'') w = (Inr kc, w1) \<and> IsActive kc
            \<and> r_Header r ''X-API-Key'' \<noteq> [] \<and> kv w1 = kv w \<and> sent w1 = sent w
            \<and> (rep, w') = next (r\<lparr>r_KeyContext := Some kc\<rparr>) w1)
       \<or> (\<exists>resp \<in> set auth_replies. rep = Reply resp \<and> (status resp = 401 \<or> status resp = 503)
            \<and> kv w' = kv w \<and> bf w' = bf w \<and> db w' = db w \<and> sent w' = sent w)"
proof (cases "r_Header r ''X-API-Key'' = []")
  case True
  then show ?thesis
    using assms(2) auth_replies_status by (auto simp: AuthMiddleware_def auth_replies_def)
next
  case False
  obtain x w1 where v: "ValidateAPIKey sv (r_Header r ''X-API-Key'') w = (x, w1)" by fastforce
  note fr = backend.ValidateAPIKey_frame [OF assms(1) v]
  show ?thesis
  proof (cases x)
    case (Inl err)
    then show ?thesis
      using assms(2) False v fr auth_reply_of_error [of "unwrap err"] auth_replies_status
      by (auto simp: AuthMiddleware_def Let_def)
  next
    case (Inr kc)
    moreover have "IsActive kc"
      using v unfolding Inr ValidateAPIKey_def key_context_of_value_def
      by (auto simp: IsActive_def split: prod.splits sum.splits option.splits if_splits)
    ultimately show ?thesis
      using assms(2) False v fr by (auto simp: AuthMiddleware_def)
  qed
qed

theorem AuthMiddleware_gate_witness:
  "\<exists>resp \<in> set auth_replies. status resp = 401 \<and> AuthMiddleware (ref_services True)
     (\<lambda>r w. (Panicked, w)) (demo_request ''sk-2'' []) demo_key_world = (Reply resp, demo_key_world)"
proof -
  define res where "res = AuthMiddleware (ref_services True) (\<lambda>r w. (Panicked, w))
    (demo_request ''sk-2'' []) demo_key_world"
  have r: "res = (Reply (writeAuthError 401 ''UNAUTHORIZED'' ''invalid API key''), demo_key_world)"
    by (simp add: res_def AuthMiddleware_def ValidateAPIKey_def demo_request_def demo_key_world_def
        ref_eval apikey_key_def StatusCode_def ErrorCode_def auth_message_def)
  from AuthMiddleware_gate [OF ref.backend_axioms r [unfolded res_def]]
  show ?thesis
    using r by (auto simp: res_def writeAuthError_def Let_def)
qed

end
