(* ===== verification/GoFormat.thy ===== *)
theory GoFormat
  imports GoNum JsonRoundtrip
begin

text \<open>
  Two formats of Go's standard library: the text of a \<open>float64\<close> that \<open>encoding/json\<close> writes, and the
  durations that \<open>time.ParseDuration\<close> reads.
\<close>

section \<open>Floating-point numbers in JSON\<close>

text \<open>
  \<open>strconv.FormatFloat(x, fmt, -1, 64)\<close> writes the shortest decimal that reads back as \<open>x\<close>, the
  nearest one where several are as short.  The candidates with \<open>k\<close> significant digits are the two
  neighbours of \<open>x\<close> on the grid of that precision; 17 digits suffice for every double.
\<close>

definition dec_exp :: "rat \<Rightarrow> int" where
  "dec_exp x =
     (let (n, d) = quotient_of x;
          e = int (length (show_nat (nat n))) - int (length (show_nat (nat d)))
      in if pow10 e \<le> x then e else e - 1)"

function strip_zeros :: "nat \<Rightarrow> int \<Rightarrow> nat \<times> int" where
  "strip_zeros m q = (if m \<noteq> 0 \<and> m mod 10 = 0 then strip_zeros (m div 10) (q + 1) else (m, q))"
  by pat_completeness auto
termination by (relation "measure fst") auto

declare strip_zeros.simps [simp del]

definition digit_candidates :: "rat \<Rightarrow> nat \<Rightarrow> (nat \<times> int) list" where
  "digit_candidates a k =
     (let q = dec_exp a - int k + 1;
          lo = nat \<lfloor>a / pow10 q\<rfloor>;
          near = (if a / pow10 q - of_nat lo \<le> 1 / 2 then [lo, lo + 1] else [lo + 1, lo])
      in map (\<lambda>m. strip_zeros m q) near)"

text \<open>
  The digits \<open>m\<close> scaled by \<open>10 ^ q\<close>, positionally, or with an exponent below 1e-6 and from 1e21 on,
  written without a leading zero.
\<close>

definition positional :: "nat \<times> int \<Rightarrow> string" where
  "positional mq =
     (let ds = show_nat (fst mq); dp = int (length ds) + snd mq
      in if dp \<le> 0 then ''0.'' @ replicate (nat (- dp)) (CHR ''0'') @ ds
         else if int (length ds) \<le> dp then ds @ replicate (nat dp - length ds) (CHR ''0'')
         else take (nat dp) ds @ ''.'' @ drop (nat dp) ds)"

definition scientific :: "nat \<times> int \<Rightarrow> string" where
  "scientific mq =
     (let ds = show_nat (fst mq); e = int (length ds) + snd mq - 1
      in take 1 ds @ (if length ds = 1 then [] else ''.'' @ drop 1 ds)
         @ ''e'' @ (if e < 0 then ''-'' else ''+'') @ show_nat (nat \<bar>e\<bar>))"

definition float_text :: "rat \<Rightarrow> nat \<times> int \<Rightarrow> string" where
  "float_text x mq =
     (if x < 0 then ''-'' else [])
     @ (if \<bar>x\<bar> < pow10 (- 6) \<or> pow10 21 \<le> \<bar>x\<bar> then scientific mq else positional mq)"

text \<open>
  \<open>None\<close> is a number that is not a double; \<open>json.Marshal\<close> reports an unsupported value there.
\<close>

definition format_float :: "float64 \<Rightarrow> string option" where
  "format_float x =
     (if x = 0 then Some ''0''
      else find (\<lambda>s. num_ok s \<and> ParseFloat_literal s = Some x)
             (map (float_text x) (concat (map (digit_candidates \<bar>x\<bar>) [1..<18]))))"

lemma ParseFloat_zero: "ParseFloat_literal ''0'' = Some 0"
  by (simp add: ParseFloat_literal_def literal_value_def literal_parts_def read_nat_def
      digit_val_def to_float64_def is_digit_char_def less_eq_char_def)

lemma num_ok_zero: "num_ok ''0''"
  by code_simp

lemma format_float_ok:
  assumes "format_float x = Some s"
  shows "num_ok s \<and> ParseFloat_literal s = Some x"
  using assms ParseFloat_zero num_ok_zero
  by (auto simp: format_float_def find_Some_iff split: if_splits)

section \<open>time.ParseDuration\<close>

text \<open>
  \<open>leadingInt\<close>: the leading digits and the rest, \<open>None\<close> when the value exceeds \<open>2 ^ 63\<close>.  Once a
  prefix exceeds the bound every longer one does, so the check is made once, on the whole.
\<close>

definition leadingInt :: "string \<Rightarrow> (nat \<times> string) option" where
  "leadingInt s =
     (let x = read_nat (takeWhile is_digit_char s)
      in if 2 ^ 63 < x then None else Some (x, dropWhile is_digit_char s))"

text \<open>\<open>leadingFraction\<close>: digits that would overflow are skipped.  The scale is a power of ten.\<close>

fun fraction_digits :: "string \<Rightarrow> nat \<Rightarrow> nat \<Rightarrow> nat \<times> nat" where
  "fraction_digits [] x scale = (x, scale)"
| "fraction_digits (c # cs) x scale =
     (if (2 ^ 63 - 1) div 10 < x \<or> 2 ^ 63 < 10 * x + digit_val c then (x, scale)
      else fraction_digits cs (10 * x + digit_val c) (10 * scale))"

definition leadingFraction :: "string \<Rightarrow> nat \<times> nat \<times> string" where
  "leadingFraction s =
     (let (x, scale) = fraction_digits (takeWhile is_digit_char s) 0 1
      in (x, scale, dropWhile is_digit_char s))"

definition unitMap :: "string \<Rightarrow> nat option" where
  "unitMap = map_of
     [(''ns'', 1), (''us'', 1000), ([CHR 0xC2, CHR 0xB5, CHR ''s''], 1000),
      ([CHR 0xCE, CHR 0xBC, CHR ''s''], 1000), (''ms'', 1000000), (''s'', 1000000000),
      (''m'', 60000000000), (''h'', 3600000000000)]"

text \<open>\<open>uint64(float64(f) * (float64(unit) / scale))\<close>, each operation rounded.\<close>

definition fraction_ns :: "nat \<Rightarrow> nat \<Rightarrow> nat \<Rightarrow> nat" where
  "fraction_ns f unit scale =
     (case (to_float64 (of_nat f), to_float64 (of_nat unit / of_nat scale)) of
        (Some a, Some b) \<Rightarrow> (case to_float64 (a * b) of Some p \<Rightarrow> nat \<lfloor>p\<rfloor> | None \<Rightarrow> 0)
      | _ \<Rightarrow> 0)"

text \<open>One round of the loop: a number with its unit, in nanoseconds, and what is left.\<close>

definition duration_item :: "string \<Rightarrow> (nat \<times> string) option" where
  "duration_item s =
     (if s = [] \<or> \<not> (hd s = CHR ''.'' \<or> is_digit_char (hd s)) then None
      else
        (case leadingInt s of
           None \<Rightarrow> None
         | Some (v, s1) \<Rightarrow>
             let pre = (s1 \<noteq> s);
                 dot = (s1 \<noteq> [] \<and> hd s1 = CHR ''.'');
                 (f, scale, s2) = (if dot then leadingFraction (tl s1) else (0, 1, s1));
                 post = (dot \<and> s2 \<noteq> tl s1);
                 u = takeWhile (\<lambda>c. \<not> (c = CHR ''.'' \<or> is_digit_char c)) s2;
                 s3 = drop (length u) s2
             in if \<not> pre \<and> \<not> post \<or> u = [] then None
                else
                  (case unitMap u of
                     None \<Rightarrow> None
                   | Some unit \<Rightarrow>
                       if 2 ^ 63 div unit < v then None
                       else
                         let v' = v * unit + (if 0 < f then fraction_ns f unit scale else 0)
                         in if 2 ^ 63 < v' then None else Some (v', s3))))"

lemma duration_item_shorter:
  assumes "duration_item s = Some (v, r)"
  shows "length r < length s"
proof -
  have dw: "length (dropWhile p xs) \<le> length xs" for p :: "char \<Rightarrow> bool" and xs
    by (simp add: length_dropWhile_le)
  from assms obtain s1 f scale s2 u where
    s1: "s1 = dropWhile is_digit_char s"
    and s2: "(f, scale, s2) = (if s1 \<noteq> [] \<and> hd s1 = CHR ''.'' then leadingFraction (tl s1) else (0, 1, s1))"
    and u: "u = takeWhile (\<lambda>c. \<not> (c = CHR ''.'' \<or> is_digit_char c)) s2" "u \<noteq> []"
    and r: "r = drop (length u) s2"
    by (auto simp: duration_item_def leadingInt_def Let_def split: if_splits option.splits prod.splits)
  have "length s2 \<le> length s1"
    using s2 dw [of is_digit_char "tl s1"]
    by (auto simp: leadingFraction_def split: if_splits prod.splits)
  moreover have "length u \<le> length s2" and "0 < length u"
    using u by (simp_all add: length_takeWhile_le)
  ultimately show ?thesis
    using dw [of is_digit_char s] unfolding r s1 length_drop by linarith
qed

function duration_loop :: "nat \<Rightarrow> string \<Rightarrow> nat option" where
  "duration_loop d s =
     (if s = [] then Some d
      else (case duration_item s of
              None \<Rightarrow> None
            | Some (v, r) \<Rightarrow> if 2 ^ 63 < d + v then None else duration_loop (d + v) r))"
  by pat_completeness auto
termination
  by (relation "measure (length \<circ> snd)") (auto simp: duration_item_shorter)

declare duration_loop.simps [simp del]

definition ParseDuration :: "string \<Rightarrow> duration option" where
  "ParseDuration s =
     (let neg = (s \<noteq> [] \<and> hd s = CHR ''-'');
          s' = (if s \<noteq> [] \<and> (hd s = CHR ''-'' \<or> hd s = CHR ''+'') then tl s else s)
      in if s' = ''0'' then Some 0
         else if s' = [] then None
         else (case duration_loop 0 s' of
                 None \<Rightarrow> None
               | Some d \<Rightarrow> if neg then Some (- int d)
                            else if 2 ^ 63 - 1 < d then None else Some (int d)))"

end
