(* ===== verification/EventCodec.thy ===== *)
theory EventCodec
  imports Models GoFormat
begin

text \<open>
  \<open>json.Marshal\<close> of a usage event, the message that the ingest API publishes and that the analytics
  worker decodes.  The members come in the order of the struct's fields; a field tagged
  \<open>omitempty\<close> is left out when it is zero.
\<close>

definition str_member :: "string \<Rightarrow> string \<Rightarrow> (string \<times> json) list" where
  "str_member n s = [(n, JStr s)]"

definition opt_str_member :: "string \<Rightarrow> string \<Rightarrow> (string \<times> json) list" where
  "opt_str_member n s = (if s = [] then [] else [(n, JStr s)])"

definition int_member :: "string \<Rightarrow> int \<Rightarrow> (string \<times> json) list" where
  "int_member n i = [(n, JNum (itoa i))]"

definition opt_int_member :: "string \<Rightarrow> int \<Rightarrow> (string \<times> json) list" where
  "opt_int_member n i = (if i = 0 then [] else [(n, JNum (itoa i))])"

definition num_member :: "string \<Rightarrow> string \<Rightarrow> (string \<times> json) list" where
  "num_member n lit = [(n, JNum lit)]"

definition opt_map_member :: "string \<Rightarrow> go_map \<Rightarrow> (string \<times> json) list" where
  "opt_map_member n m = (if m = [] then [] else [(n, JObj (map (\<lambda>(k, v). (k, JStr v)) m))])"

definition event_json :: "string \<Rightarrow> UsageEvent \<Rightarrow> json" where
  "event_json tt e = JObj
     (str_member ''event_id'' (EventID e)
      @ str_member ''org_id'' (OrgID e)
      @ str_member ''customer_id'' (CustomerID e)
      @ str_member ''end_user_id'' (EndUserID e)
      @ opt_str_member ''session_id'' (SessionID e)
      @ str_member ''source_mode'' (SourceMode e)
      @ str_member ''key_id'' (KeyID e)
      @ str_member ''event_type'' (EventType e)
      @ str_member ''model'' (Model e)
      @ int_member ''input_tokens'' (sint (InputTokens e))
      @ int_member ''output_tokens'' (sint (OutputTokens e))
      @ opt_int_member ''thinking_tokens'' (sint (ThinkingTokens e))
      @ num_member ''total_tokens'' tt
      @ opt_str_member ''unit'' (Unit e)
      @ opt_str_member ''latency'' (Latency e)
      @ opt_str_member ''cost'' (Cost e)
      @ opt_str_member ''status'' (Status e)
      @ opt_str_member ''service'' (Service e)
      @ opt_int_member ''timestamp_ms'' (sint (TimestampMs e))
      @ opt_map_member ''metadata'' (Metadata e))"

definition marshal_event :: "UsageEvent \<Rightarrow> string option" where
  "marshal_event e = map_option (\<lambda>t. json_print (event_json t e)) (format_float (TotalTokens e))"

section \<open>Round trip\<close>

text \<open>
  An event that can be told apart from its text: its strings are valid UTF-8 (the encoder replaces
  other bytes), and its metadata is a map.
\<close>

definition event_strings :: "UsageEvent \<Rightarrow> string list" where
  "event_strings e =
     [EventID e, OrgID e, CustomerID e, EndUserID e, SessionID e, SourceMode e, KeyID e,
      EventType e, Model e, Unit e, Latency e, Cost e, Status e, Service e]
     @ map fst (Metadata e) @ map snd (Metadata e)"

definition event_wf :: "UsageEvent \<Rightarrow> bool" where
  "event_wf e =
     (list_all valid_utf8 (event_strings e) \<and> sorted_wrt (<) (map fst (Metadata e))
      \<and> format_float (TotalTokens e) \<noteq> None)"

lemma show_nat_no_lead_zero: "show_nat n = CHR ''0'' # cs \<Longrightarrow> cs = []"
proof (induction n arbitrary: cs rule: show_nat.induct)
  case (1 n)
  show ?case
  proof (cases "n < 10")
    case True
    with 1(2) show ?thesis by (subst (asm) show_nat.simps) simp
  next
    case False
    obtain d ds where d: "show_nat (n div 10) = d # ds"
      using show_nat_nonempty [of "n div 10"] by (cases "show_nat (n div 10)") auto
    have "d = CHR ''0''" and "ds = []"
      using 1 d False by (simp_all add: show_nat.simps [of n])
    then have "read_nat (show_nat (n div 10)) = 0"
      by (simp add: d read_nat_def digit_val_def)
    with False show ?thesis by simp
  qed
qed

lemma scan_number_show_nat:
  "scan_number (show_nat n) = Some (show_nat n, [])"
  "scan_number (CHR ''-'' # show_nat n) = Some (CHR ''-'' # show_nat n, [])"
proof -
  obtain c cs where c: "show_nat n = c # cs" "is_digit_char c"
    using show_nat_head by blast
  have all: "list_all is_digit_char (c # cs)"
    using show_nat_digits [of n] c by simp
  then have tw: "takeWhile is_digit_char (c # cs) = c # cs" "dropWhile is_digit_char (c # cs) = []"
    by (simp_all add: takeWhile_eq_all_conv dropWhile_eq_Nil_conv list_all_iff)
  have "scan_int (show_nat n) = Some (show_nat n, [])"
  proof (cases "c = CHR ''0''")
    case True
    then show ?thesis using show_nat_no_lead_zero [of n cs] c by (simp add: scan_int_def)
  next
    case False
    then show ?thesis using tw c by (simp add: scan_int_def take_digits_def)
  qed
  then show "scan_number (show_nat n) = Some (show_nat n, [])"
    and "scan_number (CHR ''-'' # show_nat n) = Some (CHR ''-'' # show_nat n, [])"
    using digit_not_sign [OF c(2)] c(1)
    by (simp_all add: scan_number_def scan_frac_def scan_exp_def)
qed

lemma num_ok_itoa: "num_ok (itoa i)"
  by (simp add: num_ok_def itoa_def scan_number_show_nat)

lemma members_wf_append [simp]: "members_wf (xs @ ys) \<longleftrightarrow> members_wf xs \<and> members_wf ys"
  by (induction xs) auto

lemma members_depth_append [simp]:
  "members_depth (xs @ ys) = max (members_depth xs) (members_depth ys)"
  by (induction xs) auto

lemma members_wf_strings:
  "members_wf (map (\<lambda>(k, v). (k, JStr v)) m) \<longleftrightarrow>
     list_all valid_utf8 (map fst m) \<and> list_all valid_utf8 (map snd m)"
  by (induction m) auto

lemma members_depth_strings: "members_depth (map (\<lambda>(k, v). (k, JStr v)) m) = 0"
  by (induction m) auto

lemmas member_defs = str_member_def opt_str_member_def int_member_def opt_int_member_def
  num_member_def opt_map_member_def

lemma event_names_utf8:
  "valid_utf8 ''event_id''" "valid_utf8 ''org_id''" "valid_utf8 ''customer_id''" "valid_utf8 ''end_user_id''"
  "valid_utf8 ''session_id''" "valid_utf8 ''source_mode''" "valid_utf8 ''key_id''" "valid_utf8 ''event_type''"
  "valid_utf8 ''model''" "valid_utf8 ''input_tokens''" "valid_utf8 ''output_tokens''" "valid_utf8 ''thinking_tokens''"
  "valid_utf8 ''total_tokens''" "valid_utf8 ''unit''" "valid_utf8 ''latency''" "valid_utf8 ''cost''"
  "valid_utf8 ''status''" "valid_utf8 ''service''" "valid_utf8 ''timestamp_ms''" "valid_utf8 ''metadata''"
  by (simp_all add: byte_of_def rune_len_def)

lemma event_json_wf:
  assumes "event_wf e" and "num_ok t"
  shows "json_wf (event_json t e)"
  using assms unfolding event_json_def member_defs event_wf_def event_strings_def
  by (simp add: num_ok_itoa members_wf_strings event_names_utf8 del: valid_utf8.simps)

lemma event_json_depth: "json_depth (event_json t e) \<le> max_nesting"
  by (simp add: event_json_def member_defs members_depth_strings max_nesting_def)

text \<open>Decoding, one member at a time.\<close>

definition event_decoder :: "string \<Rightarrow> UsageEvent field_decoder option" where
  "event_decoder n = map_option snd (find (\<lambda>(m, _). fold_name m = fold_name n) event_fields)"

abbreviation event_members :: "UsageEvent \<times> bool \<Rightarrow> (string \<times> json) list \<Rightarrow> UsageEvent \<times> bool" where
  "event_members \<equiv> foldl (decode_member event_fields)"

lemma decode_member_event:
  "decode_member event_fields (v, b) (n, j) =
     (case event_decoder n of None \<Rightarrow> (v, b) | Some f \<Rightarrow> (let (v', ok) = f j v in (v', b \<and> ok)))"
  by (auto simp: decode_member_def event_decoder_def split: option.splits)

lemma event_decoder_names:
  "event_decoder ''event_id'' = Some (str_field EventID EventID_update)"
  "event_decoder ''org_id'' = Some (str_field OrgID OrgID_update)"
  "event_decoder ''customer_id'' = Some (str_field CustomerID CustomerID_update)"
  "event_decoder ''end_user_id'' = Some (str_field EndUserID EndUserID_update)"
  "event_decoder ''source_mode'' = Some (str_field SourceMode SourceMode_update)"
  "event_decoder ''key_id'' = Some (str_field KeyID KeyID_update)"
  "event_decoder ''event_type'' = Some (str_field EventType EventType_update)"
  "event_decoder ''model'' = Some (str_field Model Model_update)"
  "event_decoder ''session_id'' = Some (str_field SessionID SessionID_update)"
  "event_decoder ''unit'' = Some (str_field Unit Unit_update)"
  "event_decoder ''latency'' = Some (str_field Latency Latency_update)"
  "event_decoder ''cost'' = Some (str_field Cost Cost_update)"
  "event_decoder ''status'' = Some (str_field Status Status_update)"
  "event_decoder ''service'' = Some (str_field Service Service_update)"
  "event_decoder ''input_tokens'' = Some (\<lambda>j. on_field (dec_int32 j) InputTokens InputTokens_update)"
  "event_decoder ''output_tokens'' = Some (\<lambda>j. on_field (dec_int32 j) OutputTokens OutputTokens_update)"
  "event_decoder ''thinking_tokens'' = Some (\<lambda>j. on_field (dec_int32 j) ThinkingTokens ThinkingTokens_update)"
  "event_decoder ''total_tokens'' = Some (\<lambda>j. on_field (dec_float64 j) TotalTokens TotalTokens_update)"
  "event_decoder ''timestamp_ms'' = Some (\<lambda>j. on_field (dec_int64 j) TimestampMs TimestampMs_update)"
  "event_decoder ''metadata'' = Some (\<lambda>j. on_field (dec_string_map j) Metadata Metadata_update)"
  by (simp_all add: event_decoder_def event_fields_def upper_char_def less_eq_char_def)

lemma dec_int_itoa:
  "dec_int32 (JNum (itoa (sint (x :: int32)))) old = (x, True)"
  "dec_int64 (JNum (itoa (sint (y :: int64)))) old' = (y, True)"
proof -
  have x: "- (2 ^ 31) \<le> sint x" "sint x < 2 ^ 31"
    using sint_ge [of x] sint_lt [of x] by simp_all
  then have "Atoi (itoa (sint x)) = Some (sint x)"
    by (intro Atoi_itoa) (simp add: int64_range_def)
  then show "dec_int32 (JNum (itoa (sint x))) old = (x, True)"
    using x by (simp add: dec_int32_def)
  have "Atoi (itoa (sint y)) = Some (sint y)"
    using sint_ge [of y] sint_lt [of y] by (intro Atoi_itoa) (simp add: int64_range_def)
  then show "dec_int64 (JNum (itoa (sint y))) old' = (y, True)"
    by (simp add: dec_int64_def)
qed

lemma map_put_last: "\<forall>k' \<in> set (map fst m). k' < k \<Longrightarrow> map_put k v m = m @ [(k, v)]"
  by (induction m) auto

lemma dec_entry_str: "dec_entry (acc, b) (k, JStr v) = (map_put k v acc, b)"
  by (simp add: dec_entry_def dec_string_def)

lemma dec_entries:
  "sorted_wrt (<) (map fst (acc @ m)) \<Longrightarrow>
     foldl dec_entry (acc, True) (map (\<lambda>(k, v). (k, JStr v)) m) = (acc @ m, True)"
proof (induction m arbitrary: acc)
  case (Cons p m)
  obtain k v where p: "p = (k, v)" by fastforce
  have "map_put k v acc = acc @ [(k, v)]"
    using Cons.prems by (intro map_put_last) (auto simp: p sorted_wrt_append)
  moreover have "foldl dec_entry (acc @ [(k, v)], True) (map (\<lambda>(k, v). (k, JStr v)) m)
      = ((acc @ [(k, v)]) @ m, True)"
    using Cons.prems by (intro Cons.IH) (simp add: p)
  ultimately show ?case
    by (simp add: p dec_entry_str)
qed simp

lemma sint_zero_iff: "sint (x :: 'a :: len word) = 0 \<longleftrightarrow> x = 0"
  using signed_eq_0_iff by blast

lemma event_segments:
  "event_members (v, b) (str_member ''event_id'' s) = (v\<lparr>EventID := s\<rparr>, b)"
  "event_members (v, b) (str_member ''org_id'' s) = (v\<lparr>OrgID := s\<rparr>, b)"
  "event_members (v, b) (str_member ''customer_id'' s) = (v\<lparr>CustomerID := s\<rparr>, b)"
  "event_members (v, b) (str_member ''end_user_id'' s) = (v\<lparr>EndUserID := s\<rparr>, b)"
  "event_members (v, b) (str_member ''source_mode'' s) = (v\<lparr>SourceMode := s\<rparr>, b)"
  "event_members (v, b) (str_member ''key_id'' s) = (v\<lparr>KeyID := s\<rparr>, b)"
  "event_members (v, b) (str_member ''event_type'' s) = (v\<lparr>EventType := s\<rparr>, b)"
  "event_members (v, b) (str_member ''model'' s) = (v\<lparr>Model := s\<rparr>, b)"
  "SessionID v = [] \<Longrightarrow> event_members (v, b) (opt_str_member ''session_id'' s) = (v\<lparr>SessionID := s\<rparr>, b)"
  "Unit v = [] \<Longrightarrow> event_members (v, b) (opt_str_member ''unit'' s) = (v\<lparr>Unit := s\<rparr>, b)"
  "Latency v = [] \<Longrightarrow> event_members (v, b) (opt_str_member ''latency'' s) = (v\<lparr>Latency := s\<rparr>, b)"
  "Cost v = [] \<Longrightarrow> event_members (v, b) (opt_str_member ''cost'' s) = (v\<lparr>Cost := s\<rparr>, b)"
  "Status v = [] \<Longrightarrow> event_members (v, b) (opt_str_member ''status'' s) = (v\<lparr>Status := s\<rparr>, b)"
  "Service v = [] \<Longrightarrow> event_members (v, b) (opt_str_member ''service'' s) = (v\<lparr>Service := s\<rparr>, b)"
  "event_members (v, b) (int_member ''input_tokens'' (sint i)) = (v\<lparr>InputTokens := i\<rparr>, b)"
  "event_members (v, b) (int_member ''output_tokens'' (sint i)) = (v\<lparr>OutputTokens := i\<rparr>, b)"
  "ThinkingTokens v = 0 \<Longrightarrow> event_members (v, b) (opt_int_member ''thinking_tokens'' (sint i)) =
     (v\<lparr>ThinkingTokens := i\<rparr>, b)"
  "TimestampMs v = 0 \<Longrightarrow> event_members (v, b) (opt_int_member ''timestamp_ms'' (sint l)) =
     (v\<lparr>TimestampMs := l\<rparr>, b)"
  by (auto simp: member_defs decode_member_event event_decoder_names on_field_def dec_string_def
      dec_int_itoa sint_zero_iff)

lemma event_number_segment:
  assumes "ParseFloat_literal t = Some x"
  shows "event_members (v, b) (num_member ''total_tokens'' t) = (v\<lparr>TotalTokens := x\<rparr>, b)"
  using assms by (simp add: member_defs decode_member_event event_decoder_names on_field_def dec_float64_def)

lemma event_metadata_segment:
  assumes "sorted_wrt (<) (map fst m)" and "Metadata v = []"
  shows "event_members (v, b) (opt_map_member ''metadata'' m) = (v\<lparr>Metadata := m\<rparr>, b)"
  using assms dec_entries [of "[]" m]
  by (simp add: member_defs decode_member_event event_decoder_names on_field_def dec_string_map_def)

lemma decode_event_json:
  assumes "event_wf e" and "ParseFloat_literal t = Some (TotalTokens e)"
  shows "decode_event (event_json t e) zero_event = (e, True)"
proof -
  have m: "sorted_wrt (<) (map fst (Metadata e))"
    using assms by (simp add: event_wf_def)
  show ?thesis
    unfolding decode_event_def decode_object_def event_json_def
    by (simp add: foldl_append event_segments event_number_segment [OF assms(2)]
        event_metadata_segment [OF m] zero_event_def)
qed

lemma unmarshal_marshal_event:
  assumes "event_wf e" and "marshal_event e = Some s"
  shows "unmarshal_event s = Inr e"
proof -
  obtain t where t: "format_float (TotalTokens e) = Some t" "s = json_print (event_json t e)"
    using assms by (auto simp: marshal_event_def)
  have ok: "num_ok t" "ParseFloat_literal t = Some (TotalTokens e)"
    using format_float_ok [OF t(1)] by simp_all
  have "json_parse s = Some (event_json t e)"
    unfolding t(2) using event_json_wf [OF assms(1) ok(1)] event_json_depth by (rule json_roundtrip)
  then show ?thesis
    using decode_event_json [OF assms(1) ok(2)] by (simp add: unmarshal_event_def unmarshal_def)
qed

lemma marshal_event_total: "event_wf e \<Longrightarrow> \<exists>s. marshal_event e = Some s"
  by (auto simp: event_wf_def marshal_event_def)

end
