(* ===== verification/Ingest.thy ===== *)
theory Ingest
  imports Auth EventCodec
begin

text \<open>
  \<^verbatim>\<open>engine/internal/postgres/fallback.go\<close> and \<^verbatim>\<open>engine/internal/handler/ingest_handler.go\<close>: the existence
  checks against the Redis cache and Postgres, and the endpoint that ingests one event.  The
  locale \<open>cached_check\<close> is the contract that \<open>verifyOrg\<close> and \<open>verifyEndUser\<close> share and that the
  handler relies on.
\<close>

section \<open>Postgres fallback\<close>

definition active_org :: "database \<Rightarrow> string \<Rightarrow> bool" where
  "active_org d orgID =
     list_ex (\<lambda>r. org_id_col r = orgID \<and> org_status_col r = ''ACTIVE'') (organizations d)"

definition member_end_user :: "database \<Rightarrow> string \<Rightarrow> string \<Rightarrow> bool" where
  "member_end_user d orgID euID =
     list_ex (\<lambda>r. eu_id_col r = euID \<and> eu_org_id_col r = orgID) (end_users d)"

definition OrgExists :: "'w services \<Rightarrow> string \<Rightarrow> 'w \<Rightarrow> (pg_error, bool) result \<times> 'w" where
  "OrgExists sv orgID w =
     (case pg_organizations sv w of
        (Inl e, w') \<Rightarrow> (Inl e, w')
      | (Inr rows, w') \<Rightarrow>
          (Inr (list_ex (\<lambda>r. org_id_col r = orgID \<and> org_status_col r = ''ACTIVE'') rows), w'))"

definition EndUserInOrg ::
  "'w services \<Rightarrow> string \<Rightarrow> string \<Rightarrow> 'w \<Rightarrow> (pg_error, bool) result \<times> 'w" where
  "EndUserInOrg sv orgID endUserID w =
     (case pg_end_users sv w of
        (Inl e, w') \<Rightarrow> (Inl e, w')
      | (Inr rows, w') \<Rightarrow>
          (Inr (list_ex (\<lambda>r. eu_id_col r = endUserID \<and> eu_org_id_col r = orgID) rows), w'))"

section \<open>The handler and its checks\<close>

text \<open>
  \<open>IngestHandler\<close>: the Redis client is the argument \<open>sv\<close>; \<open>h_PG\<close> tells whether the handler has a
  database; the publishers are nil or a function.
\<close>

record 'w IngestHandler =
  h_PG :: bool
  h_Publish :: "(string \<Rightarrow> string \<Rightarrow> 'w \<Rightarrow> publish_error option \<times> 'w) option"
  h_PubBatch :: "(string list \<Rightarrow> string \<Rightarrow> 'w \<Rightarrow> publish_error option \<times> 'w) option"

definition NewIngestHandler ::
  "bool \<Rightarrow> (string \<Rightarrow> string \<Rightarrow> 'w \<Rightarrow> publish_error option \<times> 'w) option
   \<Rightarrow> (string list \<Rightarrow> string \<Rightarrow> 'w \<Rightarrow> publish_error option \<times> 'w) option \<Rightarrow> 'w IngestHandler" where
  "NewIngestHandler pg pub pubBatch = \<lparr>h_PG = pg, h_Publish = pub, h_PubBatch = pubBatch\<rparr>"

datatype verify_error = LookupFailed pg_error | NotFound

definition idem_key :: "string \<Rightarrow> string \<Rightarrow> string" where
  "idem_key orgID eventID = ''idem:'' @ orgID @ '':'' @ eventID"

definition org_key :: "string \<Rightarrow> string" where
  "org_key orgID = ''org:'' @ orgID"

definition eu_key :: "string \<Rightarrow> string \<Rightarrow> string" where
  "eu_key orgID endUserID = ''org:'' @ orgID @ '':enduser:'' @ endUserID"

definition verifyOrg ::
  "'w services \<Rightarrow> 'w IngestHandler \<Rightarrow> string \<Rightarrow> 'w \<Rightarrow> verify_error option \<times> 'w" where
  "verifyOrg sv h orgID w =
     (let (exists, w1) = redis_Exists sv (org_key orgID) w in
      if (case exists of Inr n \<Rightarrow> 0 < n | Inl _ \<Rightarrow> False) then (None, w1)
      else if h_PG h then
        (case OrgExists sv orgID w1 of
           (Inl pgErr, w2) \<Rightarrow> (Some (LookupFailed pgErr), w2)
         | (Inr ok, w2) \<Rightarrow>
             if ok then (None, snd (redis_Set sv (org_key orgID) ''1'' Hour w2))
             else (Some NotFound, w2))
      else (Some NotFound, w1))"

definition verifyEndUser ::
  "'w services \<Rightarrow> 'w IngestHandler \<Rightarrow> string \<Rightarrow> string \<Rightarrow> 'w \<Rightarrow> verify_error option \<times> 'w" where
  "verifyEndUser sv h orgID endUserID w =
     (let euKey = eu_key orgID endUserID;
          (exists, w1) = redis_Exists sv euKey w in
      if (case exists of Inr n \<Rightarrow> 0 < n | Inl _ \<Rightarrow> False) then (None, w1)
      else if h_PG h then
        (case EndUserInOrg sv orgID endUserID w1 of
           (Inl pgErr, w2) \<Rightarrow> (Some (LookupFailed pgErr), w2)
         | (Inr ok, w2) \<Rightarrow>
             if ok then (None, snd (redis_Set sv euKey ''1'' Hour w2))
             else (Some NotFound, w2))
      else (Some NotFound, w1))"

definition getEnvDuration :: "environ \<Rightarrow> string \<Rightarrow> duration \<Rightarrow> duration" where
  "getEnvDuration env key defaultVal =
     (let s = env key in
      if s \<noteq> [] then
        (case ParseDuration s of
           Some d \<Rightarrow> d
         | None \<Rightarrow> (case Atoi s of Some secs \<Rightarrow> wrap64 (secs * 1000000000) | None \<Rightarrow> defaultVal))
      else defaultVal)"

section \<open>HandleSingleEvent\<close>

definition accepted_response :: "UsageEvent \<Rightarrow> response" where
  "accepted_response e =
     json_response 202 (JObj [(''accepted'', JBool True), (''event_id'', JStr (EventID e)),
       (''message'', JStr ''event accepted for processing'')])"

definition publish_event :: "'w IngestHandler \<Rightarrow> string \<Rightarrow> string \<Rightarrow> 'w \<Rightarrow> 'w" where
  "publish_event h msg orgID w =
     (case h_Publish h of Some pub \<Rightarrow> snd (pub msg orgID w) | None \<Rightarrow> w)"

text \<open>
  Once the idempotency key is taken: the existence checks, each refusal giving the key back, and
  the publication.
\<close>

definition check_end_user ::
  "'w services \<Rightarrow> 'w IngestHandler \<Rightarrow> UsageEvent \<Rightarrow> 'w \<Rightarrow> verify_error option \<times> 'w" where
  "check_end_user sv h event w =
     (if EndUserID event \<noteq> [] then verifyEndUser sv h (OrgID event) (EndUserID event) w
      else (None, w))"

definition admit_event ::
  "'w services \<Rightarrow> 'w IngestHandler \<Rightarrow> string \<Rightarrow> UsageEvent \<Rightarrow> 'w \<Rightarrow> response \<times> 'w" where
  "admit_event sv h idemKey event w1 =
     (case verifyOrg sv h (OrgID event) w1 of
        (Some _, w2) \<Rightarrow>
          (writeError 403 ''UNKNOWN_ORG'' (''organization '' @ OrgID event @ '' not found''),
           snd (redis_Del sv idemKey w2))
      | (None, w2) \<Rightarrow>
          (case check_end_user sv h event w2 of
             (Some _, w3) \<Rightarrow>
               (writeError 422 ''END_USER_NOT_IN_ORG''
                  (''end_user '' @ EndUserID event @ '' does not belong to org '' @ OrgID event),
                snd (redis_Del sv idemKey w3))
           | (None, w3) \<Rightarrow>
               (case marshal_event event of
                  None \<Rightarrow>
                    (writeError 500 ''INTERNAL_ERROR'' ''failed to serialize event'',
                     snd (redis_Del sv idemKey w3))
                | Some msgBytes \<Rightarrow>
                    (accepted_response event, publish_event h msgBytes (OrgID event) w3))))"

text \<open>From the idempotency check on: the enriched and validated event is admitted or refused.\<close>

definition ingest_event ::
  "'w services \<Rightarrow> 'w IngestHandler \<Rightarrow> environ \<Rightarrow> UsageEvent \<Rightarrow> 'w \<Rightarrow> response \<times> 'w" where
  "ingest_event sv h env event w =
     (let idemKey = idem_key (OrgID event) (EventID event);
          ttl = getEnvDuration env ''IDEMPOTENCY_TTL'' DefaultIdempotencyTTL in
      case redis_SetNX sv idemKey ''1'' ttl w of
        (Inl _, w1) \<Rightarrow>
          (writeError 503 ''SERVICE_UNAVAILABLE'' ''idempotency service unavailable'', w1)
      | (Inr ok, w1) \<Rightarrow>
          if \<not> ok then
            (writeError 409 ''DUPLICATE_EVENT'' (''event '' @ EventID event @ '' already processed''), w1)
          else admit_event sv h idemKey event w1)"

definition HandleSingleEvent ::
  "'w services \<Rightarrow> 'w IngestHandler \<Rightarrow> environ \<Rightarrow> entropy \<Rightarrow> request \<Rightarrow> 'w \<Rightarrow> response \<times> 'w" where
  "HandleSingleEvent sv h env ent r w =
     (let ct = r_Header r ''Content-Type'' in
      if r_Method r \<noteq> ''POST'' then
        (writeError 405 ''METHOD_NOT_ALLOWED'' ''only POST is allowed'', w)
      else if ct \<noteq> [] \<and> ct \<noteq> ''application/json'' then
        (writeError 415 ''UNSUPPORTED_MEDIA_TYPE'' ''Content-Type must be application/json'', w)
      else
        (case ReadAll_limited DefaultMaxBodySize r of
           None \<Rightarrow> (writeError 413 ''PAYLOAD_TOO_LARGE'' ''request body exceeds 1MB limit'', w)
         | Some body \<Rightarrow>
             (case unmarshal_event body of
                Inl _ \<Rightarrow> (writeError 400 ''INVALID_JSON'' ''failed to parse JSON body'', w)
              | Inr event \<Rightarrow>
                  (case GetKeyContext r of
                     None \<Rightarrow> (writeError 401 ''UNAUTHORIZED'' ''missing authentication context'', w)
                   | Some kc \<Rightarrow>
                       (let event' = EnrichFromKeyContext ent kc event in
                        case Validate event' of
                          Some err \<Rightarrow>
                            (writeError 400 ''VALIDATION_ERROR'' (validation_message err), w)
                        | None \<Rightarrow> ingest_event sv h env event' w)))))"

text \<open>
  What a sequence of requests accepts: the idempotency keys of the requests answered with 202, in
  order, and the world afterwards.
\<close>

definition event_of_request :: "entropy \<Rightarrow> request \<Rightarrow> UsageEvent option" where
  "event_of_request ent r =
     (case (unmarshal_event (r_Body r), r_KeyContext r) of
        (Inr e, Some kc) \<Rightarrow> Some (EnrichFromKeyContext ent kc e)
      | _ \<Rightarrow> None)"

fun serve_all ::
  "'w services \<Rightarrow> 'w IngestHandler \<Rightarrow> environ \<Rightarrow> (entropy \<times> request) list \<Rightarrow> 'w
   \<Rightarrow> UsageEvent list \<times> 'w" where
  "serve_all sv h env [] w = ([], w)"
| "serve_all sv h env ((ent, r) # rs) w =
     (let (resp, w1) = HandleSingleEvent sv h env ent r w;
          (es, w2) = serve_all sv h env rs w1
      in ((if status resp = 202 then [the (event_of_request ent r)] else []) @ es, w2))"

text \<open>The shape that the two existence checks share.\<close>

definition cached_lookup ::
  "'w services \<Rightarrow> bool \<Rightarrow> string \<Rightarrow> ('w \<Rightarrow> (pg_error, bool) result \<times> 'w) \<Rightarrow> 'w
   \<Rightarrow> verify_error option \<times> 'w" where
  "cached_lookup sv pg ckey query w =
     (let (exists, w1) = redis_Exists sv ckey w in
      if (case exists of Inr n \<Rightarrow> 0 < n | Inl _ \<Rightarrow> False) then (None, w1)
      else if pg then
        (case query w1 of
           (Inl pgErr, w2) \<Rightarrow> (Some (LookupFailed pgErr), w2)
         | (Inr ok, w2) \<Rightarrow>
             if ok then (None, snd (redis_Set sv ckey ''1'' Hour w2)) else (Some NotFound, w2))
      else (Some NotFound, w1))"

lemma verify_lookup:
  "verifyOrg sv h orgID = cached_lookup sv (h_PG h) (org_key orgID) (OrgExists sv orgID)"
  "verifyEndUser sv h orgID euID =
     cached_lookup sv (h_PG h) (eu_key orgID euID) (EndUserInOrg sv orgID euID)"
  by (simp_all add: fun_eq_iff verifyOrg_def verifyEndUser_def cached_lookup_def Let_def)

text \<open>
  The handler's publisher is nil or the Kafka publisher; what it adds to the messages sent; and the
  part of the key space outside the existence caches.
\<close>

definition publisher_ok :: "'w services \<Rightarrow> 'w IngestHandler \<Rightarrow> bool" where
  "publisher_ok sv h = (h_Publish h \<in> {None, Some (kafka_publish sv)})"

definition published :: "'w IngestHandler \<Rightarrow> string \<Rightarrow> string \<Rightarrow> (string \<times> string) list" where
  "published h msg orgID = (case h_Publish h of None \<Rightarrow> [] | Some _ \<Rightarrow> [(msg, orgID)])"

definition same_uncached :: "(string \<Rightarrow> string option) \<Rightarrow> (string \<Rightarrow> string option) \<Rightarrow> bool" where
  "same_uncached m m' = (\<forall>k. \<not> prefix ''org:'' k \<longrightarrow> m' k = m k)"

lemma idem_not_cached [simp]: "\<not> prefix ''org:'' (idem_key orgID eid)"
  by (simp add: idem_key_def)

lemma cache_keys [simp]: "prefix ''org:'' (org_key orgID)" "prefix ''org:'' (eu_key orgID euID)"
  by (simp_all add: org_key_def eu_key_def)

lemma uncached_key [simp]:
  "\<not> prefix ''org:'' k \<Longrightarrow> k \<noteq> org_key orgID" "\<not> prefix ''org:'' k \<Longrightarrow> k \<noteq> eu_key orgID euID"
  by auto

lemma cache_keys_distinct [simp]:
  "eu_key orgID euID \<noteq> org_key orgID" "org_key orgID \<noteq> eu_key orgID euID"
  "idem_key orgID' eid \<noteq> org_key orgID" "idem_key orgID' eid \<noteq> eu_key orgID euID"
  "org_key orgID \<noteq> idem_key orgID' eid" "eu_key orgID euID \<noteq> idem_key orgID' eid"
  by (simp_all add: org_key_def eu_key_def idem_key_def)

definition event_key :: "UsageEvent \<Rightarrow> string" where
  "event_key e = idem_key (OrgID e) (EventID e)"

definition event_messages :: "'w IngestHandler \<Rightarrow> UsageEvent \<Rightarrow> (string \<times> string) list" where
  "event_messages h e =
     (case marshal_event e of None \<Rightarrow> [] | Some msg \<Rightarrow> published h msg (OrgID e))"

text \<open>The organisation, and the end user where the event has one, are known to a cache or the database.\<close>

definition event_known :: "(string \<Rightarrow> string option) \<Rightarrow> database \<Rightarrow> UsageEvent \<Rightarrow> bool" where
  "event_known m d e =
     ((m (org_key (OrgID e)) \<noteq> None \<or> active_org d (OrgID e))
      \<and> (EndUserID e = [] \<or> m (eu_key (OrgID e) (EndUserID e)) \<noteq> None
          \<or> member_end_user d (OrgID e) (EndUserID e)))"

text \<open>Sample data of the witnesses: one event, its organisation cached, no publisher or the Kafka one.\<close>

definition demo_body :: string where
  "demo_body = json_print (JObj [(''event_id'', JStr ''e1''), (''org_id'', JStr ''evil''),
     (''event_type'', JStr ''llm''), (''model'', JStr ''m'')])"

definition demo_event :: UsageEvent where
  "demo_event = zero_event\<lparr>EventID := ''e1'', OrgID := ''evil'', EventType := ''llm'', Model := ''m''\<rparr>"

definition demo_entropy :: entropy where
  "demo_entropy = \<lparr>rand16 = None, now_milli = 7, now_nano = 7\<rparr>"

definition demo_ingest_request :: request where
  "demo_ingest_request = (demo_request ''sk-1'' demo_body)\<lparr>r_KeyContext := Some demo_key_context\<rparr>"

definition demo_handler :: "bool \<Rightarrow> ref_world IngestHandler" where
  "demo_handler f = NewIngestHandler True (Some (kafka_publish (ref_services f)))
     (Some (kafka_publish_batch (ref_services f)))"

definition demo_enriched :: UsageEvent where
  "demo_enriched = EnrichFromKeyContext demo_entropy demo_key_context demo_event"

definition demo_org_world :: ref_world where
  "demo_org_world = empty_world\<lparr>rw_kv := [org_key ''acme'' \<mapsto> ''1'']\<rparr>"

section \<open>The contract of an existence check\<close>

text \<open>
  A check against a cache key with a fallback to the database: it touches nothing but its own
  cache key, fills that key only when the database confirms, and succeeds only when the cache or the
  database knows the object.
\<close>

locale cached_check = backend sv kv bf db sent
  for sv :: "'w services" and kv :: "'w \<Rightarrow> string \<Rightarrow> string option"
    and bf :: "'w \<Rightarrow> string \<Rightarrow> string set" and db :: "'w \<Rightarrow> database"
    and sent :: "'w \<Rightarrow> (string \<times> string) list" +
  fixes check :: "'w \<Rightarrow> verify_error option \<times> 'w"
    and ckey :: string
    and known :: "database \<Rightarrow> bool"
  assumes check_frame: "check w = (x, w') \<Longrightarrow> bf w' = bf w \<and> db w' = db w \<and> sent w' = sent w"
    and check_kv: "check w = (x, w') \<Longrightarrow>
      kv w' = kv w \<or> known (db w) \<and> kv w' = (kv w)(ckey \<mapsto> ''1'')"
    and check_sound: "check w = (None, w') \<Longrightarrow> kv w ckey \<noteq> None \<or> known (db w)"
begin

lemma other_keys: "check w = (x, w') \<Longrightarrow> k \<noteq> ckey \<Longrightarrow> kv w' k = kv w k"
  using check_kv [of w x w'] by auto

lemma no_loss: "check w = (x, w') \<Longrightarrow> kv w k \<noteq> None \<Longrightarrow> kv w' k \<noteq> None"
  using check_kv [of w x w'] by auto

lemma cache_coherent:
  assumes "check w = (x, w')" and "kv w ckey \<noteq> None \<longrightarrow> known (db w)"
  shows "kv w' ckey \<noteq> None \<longrightarrow> known (db w')"
  using assms check_kv [of w x w'] check_frame [of w x w'] by auto

end

text \<open>The generic shape of both checks discharges the contract.\<close>

context backend
begin

lemma set_effect:
  assumes "w' = snd (redis_Set sv k v t w)"
  shows "bf w' = bf w \<and> db w' = db w \<and> sent w' = sent w
         \<and> (kv w' = kv w \<or> kv w' = (kv w)(k \<mapsto> v))"
proof -
  obtain x where s: "redis_Set sv k v t w = (x, w')"
    using assms by (metis prod.collapse)
  show ?thesis
    using set_frame [OF s] s set_ok [of k v t w _ w'] set_err [of k v t w _ w'] by (cases x) auto
qed

lemma del_effect:
  assumes "w' = snd (redis_Del sv k w)"
  shows "bf w' = bf w \<and> db w' = db w \<and> sent w' = sent w
         \<and> (kv w' = kv w \<or> kv w' = (kv w)(k := None))"
proof -
  obtain x where s: "redis_Del sv k w = (x, w')"
    using assms by (metis prod.collapse)
  show ?thesis
    using del_frame [OF s] s del_ok [of k w _ w'] del_err [of k w _ w'] by (cases x) auto
qed

lemma setnx_effect:
  assumes "w' = snd (redis_SetNX sv k v t w)"
  shows "bf w' = bf w \<and> db w' = db w \<and> sent w' = sent w
         \<and> (kv w' = kv w \<or> kv w k = None \<and> kv w' = (kv w)(k \<mapsto> v))"
proof -
  obtain x where s: "redis_SetNX sv k v t w = (x, w')"
    using assms by (metis prod.collapse)
  show ?thesis
    using setnx_frame [OF s] s setnx_ok [of k v t w _ w'] setnx_err [of k v t w _ w']
    by (cases x) (auto split: if_splits)
qed

lemma OrgExists_query:
  assumes "OrgExists sv orgID w = (x, w')"
  shows "kv w' = kv w \<and> bf w' = bf w \<and> db w' = db w \<and> sent w' = sent w
         \<and> (\<forall>b. x = Inr b \<longrightarrow> b = active_org (db w) orgID)"
  using assms orgs_ok [of w _ w']
  by (auto simp: OrgExists_def active_org_def split: prod.splits sum.splits)

lemma EndUserInOrg_query:
  assumes "EndUserInOrg sv orgID euID w = (x, w')"
  shows "kv w' = kv w \<and> bf w' = bf w \<and> db w' = db w \<and> sent w' = sent w
         \<and> (\<forall>b. x = Inr b \<longrightarrow> b = member_end_user (db w) orgID euID)"
  using assms end_users_ok [of w _ w']
  by (auto simp: EndUserInOrg_def member_end_user_def split: prod.splits sum.splits)

lemma cached_lookup_check:
  assumes query: "\<And>w x w'. query w = (x, w') \<Longrightarrow>
      kv w' = kv w \<and> bf w' = bf w \<and> db w' = db w \<and> sent w' = sent w
      \<and> (\<forall>b. x = Inr b \<longrightarrow> b = known (db w))"
  shows "cached_check sv kv bf db sent (cached_lookup sv pg ckey query) ckey known"
proof -
  have "bf w' = bf w \<and> db w' = db w \<and> sent w' = sent w
      \<and> (kv w' = kv w \<or> known (db w) \<and> kv w' = (kv w)(ckey \<mapsto> ''1''))
      \<and> (x = None \<longrightarrow> kv w ckey \<noteq> None \<or> known (db w))"
    if c: "cached_lookup sv pg ckey query w = (x, w')" for w x w'
  proof -
    obtain ex w1 where e: "redis_Exists sv ckey w = (ex, w1)" by fastforce
    obtain q w2 where q: "query w1 = (q, w2)" by fastforce
    note fr = exists_frame [OF e] query [OF q] set_effect [of w' ckey "''1''" Hour w2]
    have "0 < n \<Longrightarrow> ex = Inr n \<Longrightarrow> kv w ckey \<noteq> None" for n
      using exists_ok [of ckey w n w1] e by simp
    then show ?thesis
      using c fr by (cases ex; cases q) (auto simp: cached_lookup_def Let_def e q split: if_splits)
  qed
  then show ?thesis by unfold_locales blast+
qed

lemma verifyOrg_check:
  "cached_check sv kv bf db sent (verifyOrg sv h orgID) (org_key orgID) (\<lambda>d. active_org d orgID)"
  unfolding verify_lookup by (rule cached_lookup_check) (rule OrgExists_query)

lemma verifyEndUser_check:
  "cached_check sv kv bf db sent (verifyEndUser sv h orgID euID) (eu_key orgID euID)
     (\<lambda>d. member_end_user d orgID euID)"
  unfolding verify_lookup by (rule cached_lookup_check) (rule EndUserInOrg_query)

lemma verifyOrg_effect:
  assumes "verifyOrg sv h orgID w = (x, w')"
  shows "bf w' = bf w \<and> db w' = db w \<and> sent w' = sent w \<and> same_uncached (kv w) (kv w')
         \<and> kv w' (eu_key orgID euID) = kv w (eu_key orgID euID)"
    and "x = None \<Longrightarrow> kv w (org_key orgID) \<noteq> None \<or> active_org (db w) orgID"
proof -
  show "bf w' = bf w \<and> db w' = db w \<and> sent w' = sent w \<and> same_uncached (kv w) (kv w')
         \<and> kv w' (eu_key orgID euID) = kv w (eu_key orgID euID)"
    using cached_check.check_frame [OF verifyOrg_check assms]
      cached_check.other_keys [OF verifyOrg_check assms] by (auto simp: same_uncached_def)
  show "x = None \<Longrightarrow> kv w (org_key orgID) \<noteq> None \<or> active_org (db w) orgID"
    using cached_check.check_sound [OF verifyOrg_check] assms by blast
qed

lemma verifyEndUser_effect:
  assumes "verifyEndUser sv h orgID euID w = (x, w')"
  shows "bf w' = bf w \<and> db w' = db w \<and> sent w' = sent w \<and> same_uncached (kv w) (kv w')"
    and "x = None \<Longrightarrow> kv w (eu_key orgID euID) \<noteq> None \<or> member_end_user (db w) orgID euID"
proof -
  show "bf w' = bf w \<and> db w' = db w \<and> sent w' = sent w \<and> same_uncached (kv w) (kv w')"
    using cached_check.check_frame [OF verifyEndUser_check assms]
      cached_check.other_keys [OF verifyEndUser_check assms] by (auto simp: same_uncached_def)
  show "x = None \<Longrightarrow> kv w (eu_key orgID euID) \<noteq> None \<or> member_end_user (db w) orgID euID"
    using cached_check.check_sound [OF verifyEndUser_check] assms by blast
qed

lemma check_end_user_effect:
  assumes "check_end_user sv h e w = (x, w')"
  shows "bf w' = bf w \<and> db w' = db w \<and> sent w' = sent w \<and> same_uncached (kv w) (kv w')"
    and "x = None \<Longrightarrow> EndUserID e = [] \<or> kv w (eu_key (OrgID e) (EndUserID e)) \<noteq> None
           \<or> member_end_user (db w) (OrgID e) (EndUserID e)"
  using assms verifyEndUser_effect
  by (auto simp: check_end_user_def same_uncached_def split: if_splits)

lemma publish_effect:
  assumes "publisher_ok sv h" and "w' = publish_event h msg orgID w"
  shows "kv w' = kv w \<and> bf w' = bf w \<and> db w' = db w \<and> sent w' = sent w @ published h msg orgID"
proof (cases "h_Publish h")
  case (Some p)
  then have "kafka_publish sv msg orgID w = (fst (p msg orgID w), w')"
    using assms by (auto simp: publisher_ok_def publish_event_def)
  from publish_frame [OF this] show ?thesis by (simp add: published_def Some)
qed (use assms in \<open>simp add: publish_event_def published_def\<close>)

lemma same_uncached_trans: "same_uncached a b \<Longrightarrow> same_uncached b c \<Longrightarrow> same_uncached a c"
  by (simp add: same_uncached_def)

text \<open>The two outcomes of \<open>admit_event\<close>: refused with the key given back, or accepted.\<close>

lemma admit_event_cases:
  assumes "publisher_ok sv h" and "admit_event sv h K e w = (resp, w')"
  obtains
    (refused) w3 where "status resp \<in> {403, 422, 500}" "bf w3 = bf w" "db w3 = db w"
      "sent w3 = sent w" "same_uncached (kv w) (kv w3)" "w' = snd (redis_Del sv K w3)"
  | (accepted) msg where "resp = accepted_response e" "marshal_event e = Some msg"
      "bf w' = bf w" "db w' = db w" "same_uncached (kv w) (kv w')"
      "sent w' = sent w @ published h msg (OrgID e)" "event_known (kv w) (db w) e"
proof -
  obtain o' w2 where v: "verifyOrg sv h (OrgID e) w = (o', w2)" by fastforce
  obtain u w3 where u: "check_end_user sv h e w2 = (u, w3)" by fastforce
  note fr2 = verifyOrg_effect(1) [OF v, of "EndUserID e"]
  note fr3 = check_end_user_effect(1) [OF u]
  have unc: "same_uncached (kv w) (kv w3)"
    using fr2 fr3 same_uncached_trans by blast
  consider "o' \<noteq> None" | "o' = None" "u \<noteq> None" | "o' = None" "u = None" "marshal_event e = None"
    | msg where "o' = None" "u = None" "marshal_event e = Some msg"
    by (cases o'; cases u; cases "marshal_event e") auto
  then show thesis
  proof cases
    case 1
    then show thesis using assms(2) v fr2 by (intro refused [of w2]) (auto simp: admit_event_def)
  next
    case 2
    then show thesis
      using assms(2) v u fr2 fr3 unc by (intro refused [of w3]) (auto simp: admit_event_def)
  next
    case 3
    then show thesis
      using assms(2) v u fr2 fr3 unc by (intro refused [of w3]) (auto simp: admit_event_def)
  next
    case (4 msg)
    then have r: "resp = accepted_response e" "w' = publish_event h msg (OrgID e) w3"
      using assms(2) v u by (simp_all add: admit_event_def)
    have "event_known (kv w) (db w) e"
      using verifyOrg_effect(2) [OF v] check_end_user_effect(2) [OF u] 4 fr2
      by (auto simp: event_known_def)
    then show thesis
      using accepted [OF r(1) 4(3)] publish_effect [OF assms(1) r(2)] fr2 fr3 unc by simp
  qed
qed

text \<open>
  The four outcomes of \<open>ingest_event\<close>: the idempotency service fails, the event is a duplicate, it is
  refused and rolled back, or it is accepted.
\<close>

lemma ingest_event_cases:
  assumes "publisher_ok sv h" and "ingest_event sv h env e w = (resp, w')"
  defines "K \<equiv> idem_key (OrgID e) (EventID e)"
  obtains
    (unavailable) "status resp = 503" "sent w' = sent w" "bf w' = bf w" "db w' = db w"
      "kv w' = kv w \<or> kv w K = None \<and> kv w' = (kv w)(K \<mapsto> ''1'')"
      "\<exists>ttl er. fst (redis_SetNX sv K ''1'' ttl w) = Inl er"
  | (duplicate) "status resp = 409" "sent w' = sent w" "bf w' = bf w" "db w' = db w"
      "kv w' = kv w" "kv w K \<noteq> None"
  | (refused) w3 where "status resp \<in> {403, 422, 500}" "sent w' = sent w" "bf w' = bf w"
      "db w' = db w" "kv w K = None" "w' = snd (redis_Del sv K w3)"
      "same_uncached ((kv w)(K \<mapsto> ''1'')) (kv w3)"
  | (accepted) msg where "resp = accepted_response e" "marshal_event e = Some msg"
      "bf w' = bf w" "db w' = db w" "kv w K = None" "same_uncached ((kv w)(K \<mapsto> ''1'')) (kv w')"
      "sent w' = sent w @ published h msg (OrgID e)" "event_known (kv w) (db w) e"
proof -
  define ttl where "ttl = getEnvDuration env ''IDEMPOTENCY_TTL'' DefaultIdempotencyTTL"
  obtain x w1 where s: "redis_SetNX sv K ''1'' ttl w = (x, w1)" by fastforce
  note fr1 = setnx_frame [OF s]
  consider er where "x = Inl er" | "x = Inr False" | "x = Inr True"
    by (cases x) auto
  then show thesis
  proof cases
    case 1
    then have "status resp = 503" "w' = w1"
      using assms(2) s by (auto simp: ingest_event_def K_def ttl_def)
    then show thesis
      using unavailable fr1 setnx_err [OF s [unfolded 1]] s 1 by (metis fst_conv)
  next
    case 2
    then have "status resp = 409" "w' = w1"
      using assms(2) s by (auto simp: ingest_event_def K_def ttl_def)
    then show thesis
      using duplicate fr1 setnx_ok [OF s [unfolded 2]] by simp
  next
    case 3
    have kv1: "kv w K = None" "kv w1 = (kv w)(K \<mapsto> ''1'')"
      using setnx_ok [OF s [unfolded 3]] by simp_all
    have "admit_event sv h K e w1 = (resp, w')"
      using assms(2) s 3 by (simp add: ingest_event_def K_def ttl_def)
    with assms(1) show thesis
    proof (cases rule: admit_event_cases)
      case (refused w3)
      then show thesis
        using del_effect [OF refused(6)] fr1 kv1 by (intro that(3) [of w3]) simp_all
    next
      case (accepted msg)
      then show thesis using that(4) fr1 kv1 by (simp add: event_known_def K_def)
    qed
  qed
qed

lemma HandleSingleEvent_cases:
  assumes "HandleSingleEvent sv h env ent r w = (resp, w')"
  obtains
    (early) "status resp \<in> {400, 401, 405, 413, 415}" "w' = w"
  | (ingest) e where "event_of_request ent r = Some e" "Validate e = None"
      "ingest_event sv h env e w = (resp, w')"
  using assms
  by (auto simp: HandleSingleEvent_def event_of_request_def Let_def ReadAll_limited_def GetKeyContext_def
      split: if_splits option.splits sum.splits)

lemma accepted_step:
  assumes "publisher_ok sv h" and "HandleSingleEvent sv h env ent r w = (resp, w')"
    and "status resp = 202"
  obtains e msg where "event_of_request ent r = Some e" "Validate e = None"
    "resp = accepted_response e" "marshal_event e = Some msg" "kv w (event_key e) = None"
    "kv w' (event_key e) = Some ''1''" "sent w' = sent w @ published h msg (OrgID e)"
    "event_known (kv w) (db w) e" "same_uncached ((kv w)(event_key e \<mapsto> ''1'')) (kv w')"
  using assms(2)
proof (cases rule: HandleSingleEvent_cases)
  case early
  then show thesis using assms(3) by auto
next
  case (ingest e)
  from assms(1) ingest(3) show thesis
  proof (cases rule: ingest_event_cases)
    case (accepted msg)
    moreover have "kv w' (event_key e) = Some ''1''"
      using accepted(6) by (simp add: same_uncached_def event_key_def)
    ultimately show thesis
      using that ingest by (simp add: event_key_def)
  qed (use assms(3) in auto)
qed

lemma refused_step:
  assumes "publisher_ok sv h" and "HandleSingleEvent sv h env ent r w = (resp, w')"
    and "status resp \<noteq> 202"
  shows "sent w' = sent w \<and> bf w' = bf w \<and> db w' = db w"
    and "\<not> prefix ''org:'' k \<Longrightarrow> kv w k \<noteq> None \<Longrightarrow> kv w' k = kv w k"
proof -
  have "(sent w' = sent w \<and> bf w' = bf w \<and> db w' = db w) \<and>
      (\<forall>k. \<not> prefix ''org:'' k \<longrightarrow> kv w k \<noteq> None \<longrightarrow> kv w' k = kv w k)"
    using assms(2)
  proof (cases rule: HandleSingleEvent_cases)
    case (ingest e)
    from assms(1) ingest(3) show ?thesis
    proof (cases rule: ingest_event_cases)
      case (refused w3)
      then show ?thesis using del_effect [OF refused(6)] by (auto simp: same_uncached_def)
    next
      case (accepted msg)
      then show ?thesis using assms(3) by (simp add: accepted_response_def)
    qed auto
  qed simp
  then show "sent w' = sent w \<and> bf w' = bf w \<and> db w' = db w"
    and "\<not> prefix ''org:'' k \<Longrightarrow> kv w k \<noteq> None \<Longrightarrow> kv w' k = kv w k" by blast+
qed

lemma idem_kept:
  assumes "publisher_ok sv h" and "HandleSingleEvent sv h env ent r w = (resp, w')"
    and "kv w (idem_key o' i) \<noteq> None"
  shows "kv w' (idem_key o' i) \<noteq> None"
proof (cases "status resp = 202")
  case True
  with assms(1,2) show ?thesis
    by (rule accepted_step) (use assms(3) in \<open>auto simp: same_uncached_def event_key_def\<close>)
next
  case False
  then show ?thesis
    using refused_step(2) [OF assms(1,2) False, of "idem_key o' i"] assms(3) by simp
qed

lemma serve_all_once:
  assumes "publisher_ok sv h" and "serve_all sv h env rs w = (es, w')"
  shows "distinct (map event_key es)
    \<and> (\<forall>e \<in> set es. Validate e = None \<and> kv w (event_key e) = None)
    \<and> (\<forall>o' i. kv w (idem_key o' i) \<noteq> None \<longrightarrow> kv w' (idem_key o' i) \<noteq> None)
    \<and> sent w' = sent w @ concat (map (event_messages h) es)"
  using assms(2)
proof (induction rs arbitrary: w es)
  case (Cons p rs)
  obtain ent r where p: "p = (ent, r)" by fastforce
  obtain resp w1 where st: "HandleSingleEvent sv h env ent r w = (resp, w1)" by fastforce
  obtain es1 where rest: "serve_all sv h env rs w1 = (es1, w')"
    and es: "es = (if status resp = 202 then [the (event_of_request ent r)] else []) @ es1"
    using Cons.prems by (auto simp: p st split: prod.splits)
  note IH = Cons.IH [OF rest] and kept = idem_kept [OF assms(1) st]
  show ?case
  proof (cases "status resp = 202")
    case True
    from assms(1) st True show ?thesis
    proof (rule accepted_step)
      fix e msg
      assume a: "event_of_request ent r = Some e" "Validate e = None"
        "marshal_event e = Some msg" "kv w (event_key e) = None"
        "kv w1 (event_key e) = Some ''1''" "sent w1 = sent w @ published h msg (OrgID e)"
      have "event_key e \<notin> event_key ` set es1"
        using IH a(5) by auto
      moreover have "kv w (event_key e') = None" if "e' \<in> set es1" for e'
        using IH that kept unfolding event_key_def by blast
      ultimately show ?thesis
        using IH a True kept by (auto simp: es event_messages_def)
    qed
  next
    case False
    have "kv w (event_key e') = None" if "e' \<in> set es1" for e'
      using IH that kept unfolding event_key_def by blast
    then show ?thesis
      using IH kept False refused_step(1) [OF assms(1) st False] by (auto simp: es)
  qed
qed simp

end

context backend_up
begin

lemma cached_lookup_up:
  assumes query: "\<And>w x w'. query w = (x, w') \<Longrightarrow>
      kv w' = kv w \<and> bf w' = bf w \<and> db w' = db w \<and> sent w' = sent w
      \<and> (\<forall>b. x = Inr b \<longrightarrow> b = known (db w))"
    and up: "\<And>w. \<exists>b w'. query w = (Inr b, w')"
  shows "fst (cached_lookup sv pg ckey query w) = None \<longleftrightarrow> kv w ckey \<noteq> None \<or> pg \<and> known (db w)"
    and "fst (cached_lookup sv pg ckey query w) = None \<Longrightarrow>
           kv (snd (cached_lookup sv pg ckey query w)) ckey \<noteq> None"
proof -
  obtain n w1 where e: "redis_Exists sv ckey w = (Inr n, w1)" using exists_up by blast
  obtain b w2 where q: "query w1 = (Inr b, w2)" using up by blast
  obtain u w3 where s: "redis_Set sv ckey ''1'' Hour w2 = (Inr u, w3)" using set_up by blast
  have f: "kv w1 = kv w" "db w1 = db w" "0 < n \<longleftrightarrow> kv w ckey \<noteq> None" "b = known (db w)"
    using exists_frame [OF e] exists_ok [OF e] query [OF q] by auto
  show "fst (cached_lookup sv pg ckey query w) = None \<longleftrightarrow> kv w ckey \<noteq> None \<or> pg \<and> known (db w)"
    using f by (auto simp: cached_lookup_def e q)
  show "fst (cached_lookup sv pg ckey query w) = None \<Longrightarrow>
      kv (snd (cached_lookup sv pg ckey query w)) ckey \<noteq> None"
    using f set_ok [OF s] by (auto simp: cached_lookup_def e q s split: if_splits)
qed

lemma OrgExists_up: "\<exists>b w'. OrgExists sv orgID w = (Inr b, w')"
  using orgs_up [of w] by (auto simp: OrgExists_def)

lemma EndUserInOrg_up: "\<exists>b w'. EndUserInOrg sv orgID euID w = (Inr b, w')"
  using end_users_up [of w] by (auto simp: EndUserInOrg_def)

lemmas verifyOrg_up = cached_lookup_up [where query = "OrgExists sv orgID" and known = "\<lambda>d. active_org d orgID"
  for orgID, OF OrgExists_query OrgExists_up]
lemmas verifyEndUser_up = cached_lookup_up [where query = "EndUserInOrg sv orgID euID"
  and known = "\<lambda>d. member_end_user d orgID euID" for orgID euID, OF EndUserInOrg_query EndUserInOrg_up]

lemma refused_step_up:
  assumes "publisher_ok sv h" and "HandleSingleEvent sv h env ent r w = (resp, w')"
    and "status resp \<noteq> 202"
  shows "same_uncached (kv w) (kv w')"
  using assms(2)
proof (cases rule: HandleSingleEvent_cases)
  case (ingest e)
  from assms(1) ingest(3) show ?thesis
  proof (cases rule: ingest_event_cases)
    case unavailable
    then show ?thesis by (metis Inl_Inr_False fst_conv setnx_up)
  next
    case (refused w3)
    obtain n where "redis_Del sv (idem_key (OrgID e) (EventID e)) w3 = (Inr n, w')"
      using del_up refused(6) by (metis snd_conv)
    from del_ok [OF this] show ?thesis
      using refused by (auto simp: same_uncached_def)
  next
    case (accepted msg)
    then show ?thesis using assms(3) by (simp add: accepted_response_def)
  qed (simp add: same_uncached_def)
qed (simp add: same_uncached_def)

end

interpretation ref_org: cached_check "ref_services True" rw_kv rw_bloom rw_db rw_sent
  "verifyOrg (ref_services True) h orgID" "org_key orgID" "\<lambda>d. active_org d orgID" for h orgID
  by (rule ref.verifyOrg_check)

interpretation ref_eu: cached_check "ref_services True" rw_kv rw_bloom rw_db rw_sent
  "verifyEndUser (ref_services True) h orgID euID" "eu_key orgID euID"
  "\<lambda>d. member_end_user d orgID euID" for h orgID euID
  by (rule ref.verifyEndUser_check)

section \<open>Properties\<close>

lemma demo_unmarshal: "unmarshal_event demo_body = Inr demo_event"
  by code_simp

lemma demo_body_short: "length demo_body \<le> DefaultMaxBodySize"
proof -
  have "length demo_body \<le> 100" by code_simp
  then show ?thesis by (simp add: DefaultMaxBodySize_def)
qed

lemma demo_publisher: "publisher_ok (ref_services f) (demo_handler f)"
  by (simp add: publisher_ok_def demo_handler_def NewIngestHandler_def)

lemma demo_event_of_request:
  "event_of_request demo_entropy demo_ingest_request =
     Some demo_enriched"
  by (simp add: demo_enriched_def event_of_request_def demo_ingest_request_def demo_request_def demo_unmarshal)

lemma demo_marshal: "marshal_event demo_enriched = Some (json_print (event_json ''0'' demo_enriched))"
  by (simp add: marshal_event_def format_float_def demo_enriched_def demo_event_def Enrich_simps zero_event_def)

lemma demo_validate: "Validate demo_enriched = None"
  unfolding demo_enriched_def Enrich_Validate by (simp add: Validate_def demo_event_def zero_event_def)

lemma demo_fields [simp]: "OrgID demo_enriched = ''acme''" "EventID demo_enriched = ''e1''"
  "EndUserID demo_enriched = []"
  by (simp_all add: demo_enriched_def demo_key_context_def zero_key_context_def demo_event_def zero_event_def)

lemma demo_ingest_entry:
  "HandleSingleEvent sv h env demo_entropy demo_ingest_request w = ingest_event sv h env demo_enriched w"
  using demo_validate demo_body_short
  by (simp add: HandleSingleEvent_def demo_ingest_request_def demo_request_def ReadAll_limited_def
      demo_unmarshal GetKeyContext_def demo_enriched_def)

lemma demo_accept:
  "HandleSingleEvent (ref_services f) (demo_handler f) (\<lambda>_. []) demo_entropy demo_ingest_request
     demo_org_world
   = (accepted_response demo_enriched,
      demo_org_world\<lparr>rw_kv := (rw_kv demo_org_world)(event_key demo_enriched \<mapsto> ''1''),
        rw_sent := [(json_print (event_json ''0'' demo_enriched), ''acme'')]\<rparr>)"
  unfolding demo_ingest_entry
  by (simp add: ingest_event_def admit_event_def demo_org_world_def ref_eval verifyOrg_def
      check_end_user_def demo_marshal publish_event_def demo_handler_def NewIngestHandler_def
      event_key_def Let_def)

lemma status_accepted [simp]: "status (accepted_response e) = 202"
  by (simp add: accepted_response_def)

text \<open>
  C1.  What acceptance means.  A single event is answered with 202 only when the request carries an
  authenticated key, the body decodes, the enriched event passes validation, belongs to the key's
  organisation and that organisation and the end user (if any) are known to the cache or the
  database; its idempotency key was free and is taken afterwards; and exactly its JSON text is
  handed to the publisher, once, under the key's organisation.
\<close>

theorem HandleSingleEvent_accepts:
  assumes "backend sv kv bf db sent" and "publisher_ok sv h"
    and "HandleSingleEvent sv h env ent r w = (resp, w')" and "status resp = 202"
  shows "\<exists>kc e0 e msg.
      r_KeyContext r = Some kc \<and> unmarshal_event (r_Body r) = Inr e0
    \<and> e = EnrichFromKeyContext ent kc e0 \<and> Validate e = None \<and> OrgID e = kc_OrgID kc
    \<and> event_known (kv w) (db w) e
    \<and> kv w (idem_key (kc_OrgID kc) (EventID e)) = None
    \<and> kv w' (idem_key (kc_OrgID kc) (EventID e)) = Some ''1''
    \<and> marshal_event e = Some msg \<and> sent w' = sent w @ published h msg (kc_OrgID kc)
    \<and> resp = accepted_response e"
proof -
  obtain e msg where a: "event_of_request ent r = Some e" "Validate e = None"
    "resp = accepted_response e" "marshal_event e = Some msg" "kv w (event_key e) = None"
    "kv w' (event_key e) = Some ''1''" "sent w' = sent w @ published h msg (OrgID e)"
    "event_known (kv w) (db w) e"
    by (rule backend.accepted_step [OF assms])
  then show ?thesis
    by (auto simp: event_of_request_def event_key_def split: sum.splits option.splits)
qed

theorem HandleSingleEvent_accepts_witness:
  "\<exists>kc e0 e msg.
      r_KeyContext demo_ingest_request = Some kc \<and> unmarshal_event demo_body = Inr e0
    \<and> e = EnrichFromKeyContext demo_entropy kc e0 \<and> OrgID e = ''acme''
    \<and> marshal_event e = Some msg \<and> EventID e = ''e1''"
  using HandleSingleEvent_accepts [OF ref.backend_axioms demo_publisher demo_accept]
  by (auto simp: demo_ingest_request_def demo_request_def demo_unmarshal demo_key_context_def
      demo_event_def)

text \<open>
  C16.  A refused request has no effect.  Whatever error a single-event request is answered with,
  nothing is handed to the publisher and the database and the Bloom filters stay as they were; and
  when the commands it sends succeed, the key space is unchanged apart from the existence caches:
  the idempotency key taken for an event that is then refused is free again, so that a corrected
  retry is not a duplicate.
\<close>

theorem HandleSingleEvent_refuses:
  assumes "backend sv kv bf db sent" and "publisher_ok sv h"
    and "HandleSingleEvent sv h env ent r w = (resp, w')" and "status resp \<noteq> 202"
  shows "sent w' = sent w \<and> bf w' = bf w \<and> db w' = db w
    \<and> (backend_up sv kv bf db sent \<longrightarrow> same_uncached (kv w) (kv w'))"
  using backend.refused_step(1) [OF assms] backend_up.refused_step_up [OF _ assms(2-4)] by blast

lemma demo_unknown_org:
  "HandleSingleEvent (ref_services f) (demo_handler f) (\<lambda>_. []) demo_entropy demo_ingest_request
     empty_world
   = (writeError 403 ''UNKNOWN_ORG'' ''organization acme not found'', empty_world)"
  unfolding demo_ingest_entry
  by (simp add: ingest_event_def admit_event_def ref_eval verifyOrg_def OrgExists_def
      demo_handler_def NewIngestHandler_def Let_def fun_eq_iff)

theorem HandleSingleEvent_refuses_witness:
  "status (writeError 403 ''UNKNOWN_ORG'' ''organization acme not found'') \<noteq> 202
   \<and> same_uncached (rw_kv empty_world) (rw_kv empty_world)"
  using HandleSingleEvent_refuses [OF ref_up.backend_axioms demo_publisher demo_unknown_org]
    ref_up.backend_up_axioms by simp

text \<open>
  At most once.  In any sequence of single-event requests, with any replies and any failing
  Redis or Postgres command, the accepted events have pairwise different idempotency keys, none
  of which was taken before, every accepted event is valid, and the publisher receives exactly the
  messages of the accepted events, in the order of acceptance.
\<close>

theorem serve_all_at_most_once:
  assumes "backend sv kv bf db sent" and "publisher_ok sv h"
    and "serve_all sv h env rs w = (es, w')"
  shows "distinct (map event_key es) \<and> (\<forall>e \<in> set es. Validate e = None \<and> kv w (event_key e) = None)
    \<and> sent w' = sent w @ concat (map (event_messages h) es)"
  using backend.serve_all_once [OF assms] by blast

lemma demo_duplicate:
  assumes "rw_kv w (event_key demo_enriched) \<noteq> None"
  shows "HandleSingleEvent (ref_services False) h env demo_entropy demo_ingest_request w
     = (writeError 409 ''DUPLICATE_EVENT'' ''event e1 already processed'', w\<lparr>rw_faults := tl (rw_faults w)\<rparr>)"
  unfolding demo_ingest_entry
  using assms by (auto simp: ingest_event_def ref_eval event_key_def Let_def)

theorem serve_all_at_most_once_witness:
  "\<exists>es w'. serve_all (ref_services False) (demo_handler False) (\<lambda>_. [])
       (replicate 3 (demo_entropy, demo_ingest_request)) demo_org_world = (es, w')
     \<and> es = [demo_enriched] \<and> distinct (map event_key es) \<and> length (rw_sent w') = 1"
proof -
  obtain es w' where s: "serve_all (ref_services False) (demo_handler False) (\<lambda>_. [])
      (replicate 3 (demo_entropy, demo_ingest_request)) demo_org_world = (es, w')" by fastforce
  then have "es = [demo_enriched]"
    by (auto simp: numeral_3_eq_3 demo_accept demo_duplicate demo_event_of_request)
  then show ?thesis
    using serve_all_at_most_once [OF ref_up.backend_axioms demo_publisher s] s
    by (simp add: event_messages_def demo_marshal published_def demo_handler_def NewIngestHandler_def
        demo_org_world_def empty_world_def)
qed

text \<open>
  The existence checks are exact.  While no command fails, \<open>verifyOrg\<close> succeeds precisely for an
  organisation that is cached or, when the handler has a database, an ACTIVE row of it, and
  \<open>verifyEndUser\<close> precisely for an end user that is cached under the organisation or a row of it
  there; after a success the object is cached.
\<close>

theorem verify_exact:
  assumes "backend_up sv kv bf db sent"
  shows "(fst (verifyOrg sv h orgID w) = None \<longleftrightarrow>
            kv w (org_key orgID) \<noteq> None \<or> h_PG h \<and> active_org (db w) orgID)
    \<and> (fst (verifyOrg sv h orgID w) = None \<longrightarrow> kv (snd (verifyOrg sv h orgID w)) (org_key orgID) \<noteq> None)
    \<and> (fst (verifyEndUser sv h orgID euID w) = None \<longleftrightarrow>
            kv w (eu_key orgID euID) \<noteq> None \<or> h_PG h \<and> member_end_user (db w) orgID euID)
    \<and> (fst (verifyEndUser sv h orgID euID w) = None \<longrightarrow>
            kv (snd (verifyEndUser sv h orgID euID w)) (eu_key orgID euID) \<noteq> None)"
  unfolding verify_lookup
  by (intro conjI impI; (rule backend_up.verifyOrg_up [OF assms] backend_up.verifyEndUser_up [OF assms];
      assumption?))

theorem verify_exact_witness:
  "fst (verifyOrg (ref_services False) (demo_handler False) ''acme'' demo_org_world) = None
   \<and> fst (verifyOrg (ref_services False) (demo_handler False) ''other'' demo_org_world) \<noteq> None"
  unfolding verify_exact [OF ref_up.backend_up_axioms, THEN conjunct1]
  by (simp add: demo_org_world_def empty_world_def empty_db_def active_org_def org_key_def)

end
