(* ===== verification/Bloom.thy ===== *)
theory Bloom
  imports Prelude
begin

text \<open>
  The in-process Bloom filter of \<^verbatim>\<open>engine/internal/handler/batch_handler.go\<close>, the fallback of the
  batch endpoint when Redis Bloom is down.  The Go slice \<open>bits\<close> is an array of known length: an
  index outside it, a division by zero and a bad \<open>make\<close> panic, which is the value \<open>None\<close>.  The
  locale \<open>membership_filter\<close> is what the batch loop relies on.
\<close>

section \<open>Operations\<close>

record inProcessBloom =
  shards :: int
  bits_len :: nat
  bits :: "nat \<Rightarrow> 64 word"

definition bloomSize :: int where
  "bloomSize = 16384"

text \<open>
  \<open>make([]uint64, n)\<close> panics for a negative length and for more bytes than the address space of the
  64-bit runtime holds.
\<close>

definition newInProcessBloom :: "int \<Rightarrow> inProcessBloom option" where
  "newInProcessBloom n =
     (let len = wrap64 (n * bloomSize) in
      if len < 0 \<or> 2 ^ 48 < 8 * len then None
      else Some \<lparr>shards = n, bits_len = nat len, bits = (\<lambda>_. 0)\<rparr>)"

definition bloom_hash :: "string \<Rightarrow> string \<Rightarrow> 32 word \<times> 32 word" where
  "bloom_hash orgID eventID =
     (fnv32a (orgID @ '':'' @ eventID), fnv32a (eventID @ '':'' @ orgID))"

text \<open>\<open>uint32(b.shards*bloomSize)\<close>, the divisor of the bit positions.\<close>

definition bloom_modulus :: "inProcessBloom \<Rightarrow> 32 word" where
  "bloom_modulus b = word_of_int (shards b * bloomSize)"

definition probes :: "32 word list" where
  "probes = [0, 1, 2, 3]"

text \<open>The \<open>j\<close>-th probe: block and bit, \<open>None\<close> when the divisor is zero or the block is out of range.\<close>

definition bloom_pos :: "inProcessBloom \<Rightarrow> string \<Rightarrow> string \<Rightarrow> 32 word \<Rightarrow> (nat \<times> nat) option" where
  "bloom_pos b orgID eventID j =
     (let (a, c) = bloom_hash orgID eventID in
      if bloom_modulus b = 0 then None
      else
        let h = (a + j * c) mod bloom_modulus b;
            blockIdx = unat (h div 64);
            bitIdx = unat (h mod 64)
        in if blockIdx < bits_len b then Some (blockIdx, bitIdx) else None)"

definition set_bit_at :: "nat \<times> nat \<Rightarrow> inProcessBloom \<Rightarrow> inProcessBloom" where
  "set_bit_at p b = b\<lparr>bits := (bits b)(fst p := bits b (fst p) OR push_bit (snd p) 1)\<rparr>"

definition bit_clear_at :: "nat \<times> nat \<Rightarrow> inProcessBloom \<Rightarrow> bool" where
  "bit_clear_at p b = (bits b (fst p) AND push_bit (snd p) 1 = 0)"

fun existsAndAdd_loop ::
  "string \<Rightarrow> string \<Rightarrow> 32 word list \<Rightarrow> bool \<times> inProcessBloom \<Rightarrow> (bool \<times> inProcessBloom) option" where
  "existsAndAdd_loop orgID eventID [] acc = Some acc"
| "existsAndAdd_loop orgID eventID (j # js) (wasPresent, b) =
     (case bloom_pos b orgID eventID j of
        None \<Rightarrow> None
      | Some p \<Rightarrow>
          if bit_clear_at p b then existsAndAdd_loop orgID eventID js (False, set_bit_at p b)
          else existsAndAdd_loop orgID eventID js (wasPresent, b))"

definition existsAndAdd ::
  "inProcessBloom \<Rightarrow> string \<Rightarrow> string \<Rightarrow> (bool \<times> inProcessBloom) option" where
  "existsAndAdd b orgID eventID = existsAndAdd_loop orgID eventID probes (True, b)"

fun add_loop :: "string \<Rightarrow> string \<Rightarrow> 32 word list \<Rightarrow> inProcessBloom \<Rightarrow> inProcessBloom option" where
  "add_loop orgID eventID [] b = Some b"
| "add_loop orgID eventID (j # js) b =
     (case bloom_pos b orgID eventID j of
        None \<Rightarrow> None
      | Some p \<Rightarrow> add_loop orgID eventID js (set_bit_at p b))"

definition add :: "inProcessBloom \<Rightarrow> string \<Rightarrow> string \<Rightarrow> inProcessBloom option" where
  "add b orgID eventID = add_loop orgID eventID probes b"

text \<open>
  The invariant of a filter in use, and the membership test that \<open>existsAndAdd\<close> performs: all four
  bits are set.
\<close>

definition bloom_ok :: "inProcessBloom \<Rightarrow> bool" where
  "bloom_ok b = (0 < shards b \<and> shards b < 2 ^ 18 \<and> bits_len b = nat (shards b * bloomSize))"

definition bloom_member :: "inProcessBloom \<Rightarrow> string \<Rightarrow> string \<Rightarrow> bool" where
  "bloom_member b orgID eventID =
     list_all (\<lambda>j. case bloom_pos b orgID eventID j of None \<Rightarrow> False | Some p \<Rightarrow> \<not> bit_clear_at p b)
       probes"

section \<open>The contract of a membership filter\<close>

text \<open>
  A set with insertion and a test that may report an absent item but never misses a present one.
  Operations on a filter in use do not fail.
\<close>

locale membership_filter =
  fixes inv :: "'f \<Rightarrow> bool"
    and insert_item :: "'x \<Rightarrow> 'f \<Rightarrow> 'f option"
    and test :: "'x \<Rightarrow> 'f \<Rightarrow> bool"
  assumes insert_inv: "inv f \<Longrightarrow> \<exists>f'. insert_item x f = Some f' \<and> inv f'"
    and insert_test: "inv f \<Longrightarrow> insert_item x f = Some f' \<Longrightarrow> test x f'"
    and insert_mono: "inv f \<Longrightarrow> insert_item x f = Some f' \<Longrightarrow> test y f \<Longrightarrow> test y f'"
begin

lemma insert_all_complete:
  "inv f \<Longrightarrow> \<exists>f'. fold_option insert_item xs f = Some f' \<and> inv f' \<and> (\<forall>y. test y f \<longrightarrow> test y f')
     \<and> (\<forall>x \<in> set xs. test x f')"
proof (induction xs arbitrary: f)
  case (Cons x xs)
  obtain f1 where f1: "insert_item x f = Some f1" "inv f1"
    using insert_inv Cons.prems by blast
  obtain f2 where f2: "fold_option insert_item xs f1 = Some f2" "inv f2" "\<forall>y. test y f1 \<longrightarrow> test y f2"
    "\<forall>x \<in> set xs. test x f2"
    using Cons.IH f1(2) by blast
  have "test x f1" and "\<forall>y. test y f \<longrightarrow> test y f1"
    using insert_test insert_mono Cons.prems f1(1) by blast+
  then show ?case using f1 f2 by auto
qed simp

end

section \<open>Lemmas\<close>

lemma set_bit_at_fields [simp]:
  "shards (set_bit_at p b) = shards b" "bits_len (set_bit_at p b) = bits_len b"
  by (simp_all add: set_bit_at_def)

lemma bloom_pos_cong:
  assumes "shards b' = shards b" and "bits_len b' = bits_len b"
  shows "bloom_pos b' orgID eventID j = bloom_pos b orgID eventID j"
proof -
  have "bloom_modulus b' = bloom_modulus b"
    using assms by (simp add: bloom_modulus_def)
  with assms(2) show ?thesis by (simp add: bloom_pos_def Let_def split: prod.split)
qed

lemma bloom_pos_frame [simp]:
  "bloom_pos (set_bit_at p b) orgID eventID j = bloom_pos b orgID eventID j"
  by (rule bloom_pos_cong) simp_all

lemma bloom_ok_set_bit [simp]: "bloom_ok (set_bit_at p b) = bloom_ok b"
  by (simp add: bloom_ok_def)

lemma bit_clear_iff: "bit_clear_at p b \<longleftrightarrow> \<not> bit (bits b (fst p)) (snd p)"
  by (simp add: bit_clear_at_def and_exp_eq_0_iff_not_bit)

lemma clear_after_set:
  assumes "snd q < 64"
  shows "bit_clear_at p (set_bit_at q b) \<longleftrightarrow> bit_clear_at p b \<and> p \<noteq> q"
  using assms by (cases p; cases q) (auto simp: bit_clear_iff set_bit_at_def bit_or_iff bit_exp_iff)

lemma set_bit_idem: "\<not> bit_clear_at p b \<Longrightarrow> snd p < 64 \<Longrightarrow> set_bit_at p b = b"
  by (auto simp: bit_clear_iff set_bit_at_def bit_eq_iff [where 'a = "64 word"] bit_or_iff bit_exp_iff
      intro!: inProcessBloom.equality ext)

text \<open>Positions are in range: the divisor is the number of blocks, and a block holds 64 bits.\<close>

lemma unat_word_of_int32: "0 \<le> n \<Longrightarrow> n < 2 ^ 32 \<Longrightarrow> unat (word_of_int n :: 32 word) = nat n"
  by (simp add: unat_eq_nat_uint unsigned_of_int take_bit_int_eq_self)

lemma bloom_pos_ok:
  assumes "bloom_ok b"
  shows "\<exists>p. bloom_pos b orgID eventID j = Some p \<and> snd p < 64 \<and> fst p < bits_len b"
proof -
  obtain a c where ac: "bloom_hash orgID eventID = (a, c)" by fastforce
  have s: "0 < shards b * bloomSize" "shards b * bloomSize < 2 ^ 32"
    using assms by (simp_all add: bloom_ok_def bloomSize_def)
  then have m: "unat (bloom_modulus b) = nat (shards b * bloomSize)"
    unfolding bloom_modulus_def by (intro unat_word_of_int32) simp_all
  with s(1) have nz: "bloom_modulus b \<noteq> 0" by force
  define h where "h = (a + j * c) mod bloom_modulus b"
  have "unat h < bits_len b"
    using m nz assms s(1) by (simp add: h_def unat_mod_distrib bloom_ok_def)
  moreover have "unat (h div 64) = unat h div 64" "unat (h mod 64) = unat h mod 64"
    by (simp_all add: unat_div_distrib unat_mod_distrib)
  ultimately have "unat (h div 64) < bits_len b" "unat (h mod 64) < 64" by auto
  then show ?thesis
    using nz by (auto simp: bloom_pos_def ac Let_def h_def [symmetric])
qed

lemma add_loop_ok:
  assumes "bloom_ok b"
  shows "\<exists>b'. add_loop orgID eventID js b = Some b' \<and> bloom_ok b' \<and> shards b' = shards b
      \<and> bits_len b' = bits_len b
      \<and> (\<forall>p. snd p < 64 \<longrightarrow> (\<not> bit_clear_at p b' \<longleftrightarrow>
           \<not> bit_clear_at p b \<or> Some p \<in> bloom_pos b orgID eventID ` set js))"
  using assms
proof (induction js arbitrary: b)
  case (Cons j js)
  obtain q where q: "bloom_pos b orgID eventID j = Some q" "snd q < 64"
    using bloom_pos_ok [OF Cons.prems] by blast
  obtain b' where b': "add_loop orgID eventID js (set_bit_at q b) = Some b'" "bloom_ok b'"
    "shards b' = shards b" "bits_len b' = bits_len b"
    "\<forall>p. snd p < 64 \<longrightarrow> (\<not> bit_clear_at p b' \<longleftrightarrow> \<not> bit_clear_at p (set_bit_at q b)
        \<or> Some p \<in> bloom_pos b orgID eventID ` set js)"
    using Cons.IH [of "set_bit_at q b"] Cons.prems by auto
  then show ?case
    using q by (auto simp: clear_after_set)
qed simp

lemma existsAndAdd_loop_ok:
  assumes "bloom_ok b"
  shows "existsAndAdd_loop orgID eventID js (wp, b) =
    map_option (Pair (wp \<and> list_all (\<lambda>j. case bloom_pos b orgID eventID j of
        None \<Rightarrow> False | Some p \<Rightarrow> \<not> bit_clear_at p b) js)) (add_loop orgID eventID js b)"
  using assms
proof (induction js arbitrary: b wp)
  case (Cons j js)
  obtain q where q: "bloom_pos b orgID eventID j = Some q" "snd q < 64"
    using bloom_pos_ok [OF Cons.prems] by blast
  show ?case
  proof (cases "bit_clear_at q b")
    case True
    then show ?thesis using q Cons by simp
  next
    case False
    then show ?thesis using q Cons set_bit_idem [OF False q(2)] by simp
  qed
qed simp

lemma bloom_member_iff:
  assumes "bloom_ok b"
  shows "bloom_member b orgID eventID \<longleftrightarrow>
    (\<forall>p. Some p \<in> bloom_pos b orgID eventID ` set probes \<longrightarrow> \<not> bit_clear_at p b)"
proof -
  have "(case bloom_pos b orgID eventID j of None \<Rightarrow> False | Some p \<Rightarrow> \<not> bit_clear_at p b) \<longleftrightarrow>
      (\<forall>p. bloom_pos b orgID eventID j = Some p \<longrightarrow> \<not> bit_clear_at p b)" for j
    using bloom_pos_ok [OF assms, of orgID eventID j] by auto
  then show ?thesis by (fastforce simp: bloom_member_def list_all_iff image_iff)
qed

lemma add_ok:
  assumes "bloom_ok b"
  obtains b' where "add b orgID eventID = Some b'" "bloom_ok b'"
    "bloom_pos b' = bloom_pos b"
    "\<And>p. snd p < 64 \<Longrightarrow> \<not> bit_clear_at p b' \<longleftrightarrow>
       \<not> bit_clear_at p b \<or> Some p \<in> bloom_pos b orgID eventID ` set probes"
proof -
  obtain b' where b': "add_loop orgID eventID probes b = Some b'" "bloom_ok b'"
    "shards b' = shards b" "bits_len b' = bits_len b"
    "\<forall>p. snd p < 64 \<longrightarrow> (\<not> bit_clear_at p b' \<longleftrightarrow> \<not> bit_clear_at p b
        \<or> Some p \<in> bloom_pos b orgID eventID ` set probes)"
    using add_loop_ok [OF assms] by blast
  have "bloom_pos b' = bloom_pos b"
    using bloom_pos_cong [OF b'(3,4)] by (simp add: fun_eq_iff)
  moreover have "add b orgID eventID = Some b'"
    using b'(1) by (simp only: add_def)
  ultimately show thesis
    using that b'(2,5) by blast
qed

lemma pos_bit_range: "bloom_ok b \<Longrightarrow> Some p \<in> bloom_pos b orgID eventID ` js \<Longrightarrow> snd p < 64"
  by (metis bloom_pos_ok imageE option.inject)

lemma add_member:
  assumes "bloom_ok b" and "add b orgID eventID = Some b'"
  shows "bloom_member b' orgID eventID"
    and "bloom_member b o' e' \<Longrightarrow> bloom_member b' o' e'"
proof -
  obtain b1 where b1: "add b orgID eventID = Some b1" "bloom_ok b1" "bloom_pos b1 = bloom_pos b"
    "\<And>p. snd p < 64 \<Longrightarrow> \<not> bit_clear_at p b1 \<longleftrightarrow>
       \<not> bit_clear_at p b \<or> Some p \<in> bloom_pos b orgID eventID ` set probes"
    using add_ok [OF assms(1), of orgID eventID] by blast
  then have "b1 = b'" using assms(2) by simp
  with b1 show "bloom_member b' orgID eventID"
    and "bloom_member b o' e' \<Longrightarrow> bloom_member b' o' e'"
    using pos_bit_range [OF assms(1)] unfolding bloom_member_iff [OF assms(1)] by (auto simp: bloom_member_iff)
qed

interpretation ipb: membership_filter bloom_ok "\<lambda>x b. add b (fst x) (snd x)"
  "\<lambda>x b. bloom_member b (fst x) (snd x)"
proof (unfold_locales, goal_cases)
  case (1 f x)
  then show ?case by (rule add_ok) auto
qed (rule add_member; assumption)+

lemma existsAndAdd_eq:
  assumes "bloom_ok b"
  shows "existsAndAdd b orgID eventID = map_option (Pair (bloom_member b orgID eventID)) (add b orgID eventID)"
  using existsAndAdd_loop_ok [OF assms, of orgID eventID "probes" True]
  by (simp add: existsAndAdd_def add_def bloom_member_def)

lemma newInProcessBloom_ok:
  assumes "0 < n" and "n < 2 ^ 18"
  shows "\<exists>b. newInProcessBloom n = Some b \<and> bloom_ok b \<and> shards b = n"
proof -
  have "wrap64 (n * bloomSize) = n * bloomSize"
    using assms by (intro wrap64_id) (simp add: int64_range_def bloomSize_def)
  then show ?thesis
    using assms by (simp add: newInProcessBloom_def bloom_ok_def bloomSize_def Let_def)
qed

section \<open>Property\<close>

text \<open>
  C33.  The in-process Bloom filter never forgets and never faults.  For a configured shard count
  between 1 and 262143, the filter is allocated, any sequence of insertions succeeds without an
  out-of-range access, and afterwards \<open>existsAndAdd\<close> reports every inserted event as seen; on every
  filter in use \<open>existsAndAdd\<close> is the membership test followed by \<open>add\<close>.
\<close>

theorem bloom_no_false_negative:
  assumes "0 < n" and "n < 2 ^ 18"
  shows "\<exists>b b'. newInProcessBloom n = Some b
    \<and> fold_option (\<lambda>x b. add b (fst x) (snd x)) items b = Some b' \<and> bloom_ok b'
    \<and> (\<forall>(orgID, eventID) \<in> set items. \<exists>b''. existsAndAdd b' orgID eventID = Some (True, b'')
         \<and> add b' orgID eventID = Some b'')"
proof -
  obtain b where b: "newInProcessBloom n = Some b" "bloom_ok b"
    using newInProcessBloom_ok [OF assms] by blast
  obtain b' where b': "fold_option (\<lambda>x b. add b (fst x) (snd x)) items b = Some b'" "bloom_ok b'"
    "\<forall>x \<in> set items. bloom_member b' (fst x) (snd x)"
    using ipb.insert_all_complete [OF b(2)] by blast
  have "\<exists>b''. add b' orgID eventID = Some b''" for orgID eventID
    by (rule add_ok [OF b'(2)]) blast
  then show ?thesis
    using b b' by (fastforce simp: existsAndAdd_eq)
qed

theorem bloom_no_false_negative_witness:
  "\<exists>b b'. newInProcessBloom 16 = Some b \<and> fold_option (\<lambda>x b. add b (fst x) (snd x))
       [(''acme'', ''e1''), (''acme'', ''e2'')] b = Some b'
     \<and> (\<exists>b''. existsAndAdd b' ''acme'' ''e2'' = Some (True, b''))"
  using bloom_no_false_negative [of 16 "[(''acme'', ''e1''), (''acme'', ''e2'')]"] by auto

end
