(* ===== verification/Batch.thy ===== *)
theory Batch
  imports Ingest Bloom
begin

text \<open>
  \<^verbatim>\<open>engine/internal/handler/batch_handler.go\<close>: the batch endpoint, with its bulk existence checks, the
  Bloom and SETNX duplicate filter and the per-event accounting.  A Go panic is \<open>None\<close> or \<open>Panicked\<close>,
  with the world at that moment.
\<close>

section \<open>Helpers\<close>

record BatchError =
  be_Index :: nat
  be_Code :: string
  be_EventID :: string

record BatchResult =
  Accepted :: "UsageEvent list"
  FailedCount :: nat
  DuplicateCount :: nat
  UnknownOrgCount :: nat
  UserNotInOrgCount :: nat
  Errors :: "BatchError list"

definition zero_result :: BatchResult where
  "zero_result = \<lparr>Accepted = [], FailedCount = 0, DuplicateCount = 0, UnknownOrgCount = 0,
     UserNotInOrgCount = 0, Errors = []\<rparr>"

fun unique_from :: "string list \<Rightarrow> string list \<Rightarrow> string list" where
  "unique_from seen [] = []"
| "unique_from seen (k # ks) =
     (if k \<in> set seen then unique_from seen ks else k # unique_from (k # seen) ks)"

definition collectUniqueOrgIDs :: "UsageEvent list \<Rightarrow> string list" where
  "collectUniqueOrgIDs events = unique_from [] (map OrgID events)"

definition eu_pair :: "string \<Rightarrow> string \<Rightarrow> string" where
  "eu_pair orgID euID = orgID @ '':'' @ euID"

definition collectUniqueEUPairs :: "UsageEvent list \<Rightarrow> string list" where
  "collectUniqueEUPairs events =
     unique_from [] (map (\<lambda>e. eu_pair (OrgID e) (EndUserID e)) (filter (\<lambda>e. EndUserID e \<noteq> []) events))"

text \<open>The loop from the last byte down to the first: the rightmost colon splits the pair.\<close>

fun splitPair_loop :: "string \<Rightarrow> nat \<Rightarrow> string \<times> string" where
  "splitPair_loop p 0 = (p, [])"
| "splitPair_loop p (Suc i) =
     (if p ! i = CHR '':'' then (take i p, drop (Suc i) p) else splitPair_loop p i)"

definition splitPair :: "string \<Rightarrow> string \<times> string" where
  "splitPair p = splitPair_loop p (length p)"

definition hashEventID :: "string \<Rightarrow> int" where
  "hashEventID eventID = int (unat (fnv32a eventID))"

definition getEnvInt :: "environ \<Rightarrow> string \<Rightarrow> int \<Rightarrow> int" where
  "getEnvInt env key defaultVal =
     (let s = env key in
      if s \<noteq> [] then (case Atoi s of Some v \<Rightarrow> v | None \<Rightarrow> defaultVal) else defaultVal)"

section \<open>Bulk existence checks\<close>

text \<open>A pipeline of EXISTS commands; a failed command reads as 0.\<close>

fun exists_all :: "'w services \<Rightarrow> string list \<Rightarrow> 'w \<Rightarrow> int list \<times> 'w" where
  "exists_all sv [] w = ([], w)"
| "exists_all sv (k # ks) w =
     (let (x, w1) = redis_Exists sv k w;
          (vals, w2) = exists_all sv ks w1
      in ((case x of Inr n \<Rightarrow> n | Inl _ \<Rightarrow> 0) # vals, w2))"

definition batchOrgPostgres :: "'w services \<Rightarrow> string list \<Rightarrow> 'w \<Rightarrow> string list \<times> 'w" where
  "batchOrgPostgres sv orgIDs w =
     (if orgIDs = [] then ([], w)
      else
        (case pg_organizations sv w of
           (Inl _, w') \<Rightarrow> ([], w')
         | (Inr rows, w') \<Rightarrow>
             (map org_id_col
                (filter (\<lambda>r. org_id_col r \<in> set orgIDs \<and> org_status_col r = ''ACTIVE'') rows), w')))"

record EURecord =
  eur_OrgID :: string
  eur_EndUserID :: string

definition batchEUPG :: "'w services \<Rightarrow> string list \<Rightarrow> string list \<Rightarrow> 'w \<Rightarrow> EURecord list \<times> 'w" where
  "batchEUPG sv orgIDs euIDs w =
     (if orgIDs = [] \<or> euIDs = [] then ([], w)
      else
        (case pg_end_users sv w of
           (Inl _, w') \<Rightarrow> ([], w')
         | (Inr rows, w') \<Rightarrow>
             (map (\<lambda>r. \<lparr>eur_OrgID = eu_org_id_col r, eur_EndUserID = eu_id_col r\<rparr>)
                (filter (\<lambda>r. eu_id_col r \<in> set euIDs \<and> eu_org_id_col r \<in> set orgIDs) rows), w')))"

text \<open>
  \<open>result[key] = true\<close> and the backfill of the cache, for each confirmed object in turn: \<open>confirm\<close>
  takes the result key and the cache key.
\<close>

definition confirm ::
  "'w services \<Rightarrow> (string \<Rightarrow> bool) \<times> 'w \<Rightarrow> string \<times> string \<Rightarrow> (string \<Rightarrow> bool) \<times> 'w" where
  "confirm sv acc kc =
     ((fst acc)(fst kc := True), snd (redis_Set sv (snd kc) ''1'' Hour (snd acc)))"

text \<open>The objects whose EXISTS answered with a positive count, and the others.\<close>

definition hits :: "'a list \<Rightarrow> int list \<Rightarrow> 'a list" where
  "hits xs vals = map fst (filter (\<lambda>(_, v). 0 < v) (zip xs vals))"

definition misses :: "'a list \<Rightarrow> int list \<Rightarrow> 'a list" where
  "misses xs vals = map fst (filter (\<lambda>(_, v). \<not> 0 < v) (zip xs vals))"

definition batchOrgCheck ::
  "'w services \<Rightarrow> 'w IngestHandler \<Rightarrow> string list \<Rightarrow> 'w \<Rightarrow> (string \<Rightarrow> bool) \<times> 'w" where
  "batchOrgCheck sv h orgIDs w =
     (if orgIDs = [] then (\<lambda>_. False, w)
      else
        let (vals, w1) = exists_all sv (map org_key orgIDs) w;
            result = (\<lambda>o'. o' \<in> set (hits orgIDs vals));
            missing = misses orgIDs vals
        in if missing \<noteq> [] \<and> h_PG h then
             (let (pgOrgs, w2) = batchOrgPostgres sv missing w1
              in foldl (confirm sv) (result, w2) (map (\<lambda>o'. (o', org_key o')) pgOrgs))
           else (result, w1))"

definition batchEUCheck ::
  "'w services \<Rightarrow> 'w IngestHandler \<Rightarrow> string list \<Rightarrow> 'w \<Rightarrow> (string \<Rightarrow> bool) \<times> 'w" where
  "batchEUCheck sv h pairs w =
     (if pairs = [] then (\<lambda>_. False, w)
      else
        let parts = map splitPair pairs;
            (vals, w1) = exists_all sv (map (\<lambda>(o', e). eu_key o' e) parts) w;
            result = (\<lambda>p. p \<in> set (hits pairs vals));
            missing = misses parts vals
        in if missing \<noteq> [] \<and> h_PG h then
             (let (pgEUs, w2) = batchEUPG sv (map fst missing) (map snd missing) w1
              in foldl (confirm sv) (result, w2)
                   (map (\<lambda>r. (eu_pair (eur_OrgID r) (eur_EndUserID r),
                              eu_key (eur_OrgID r) (eur_EndUserID r))) pgEUs))
           else (result, w1))"

section \<open>processBatchEvents\<close>

record batch_state =
  bs_result :: BatchResult
  bs_reserved :: "string \<Rightarrow> bool"
  bs_bloom :: inProcessBloom

definition bf_key :: "string \<Rightarrow> int \<Rightarrow> string" where
  "bf_key orgID shard = ''bf:'' @ orgID @ '':'' @ itoa shard"

text \<open>\<open>hashEventID(id) % bloomShards\<close>: the dividend is not negative, and neither is the remainder.\<close>

definition shard_of :: "int \<Rightarrow> string \<Rightarrow> int" where
  "shard_of bloomShards eventID = hashEventID eventID mod \<bar>bloomShards\<bar>"

definition count_failure :: "nat \<Rightarrow> string \<Rightarrow> UsageEvent \<Rightarrow> BatchResult \<Rightarrow> BatchResult" where
  "count_failure i code event res =
     res\<lparr>FailedCount := FailedCount res + 1,
       Errors := Errors res @ [\<lparr>be_Index = i, be_Code = code, be_EventID = EventID event\<rparr>]\<rparr>"

definition count_duplicate :: "BatchResult \<Rightarrow> BatchResult" where
  "count_duplicate res =
     res\<lparr>FailedCount := FailedCount res + 1, DuplicateCount := DuplicateCount res + 1\<rparr>"

text \<open>The SETNX check of a possible duplicate: \<open>setErr != nil || !set\<close>.\<close>

definition idem_taken :: "'w services \<Rightarrow> UsageEvent \<Rightarrow> 'w \<Rightarrow> bool \<times> 'w" where
  "idem_taken sv event w =
     (case redis_SetNX sv (idem_key (OrgID event) (EventID event)) ''1'' DefaultIdempotencyTTL w of
        (Inl _, w') \<Rightarrow> (True, w')
      | (Inr b, w') \<Rightarrow> (\<not> b, w'))"

text \<open>
  The Bloom verdict: with the answer of BF.EXISTS, or with the in-process filter when the command
  failed.  The result is whether the event is a duplicate, the in-process filter and the world.
\<close>

definition bloom_verdict ::
  "'w services \<Rightarrow> UsageEvent \<Rightarrow> string \<Rightarrow> (redis_error, int) result \<Rightarrow> inProcessBloom \<Rightarrow> 'w
   \<Rightarrow> (bool \<times> inProcessBloom) option \<times> 'w" where
  "bloom_verdict sv event eventID exists b w =
     (case exists of
        Inl _ \<Rightarrow>
          (case existsAndAdd b (OrgID event) eventID of
             None \<Rightarrow> (None, w)
           | Some (seen, b') \<Rightarrow>
               if seen then (let (dup, w') = idem_taken sv event w in (Some (dup, b'), w'))
               else (Some (False, b'), w))
      | Inr n \<Rightarrow>
          if n = 1 then (let (dup, w') = idem_taken sv event w in (Some (dup, b), w'))
          else (Some (False, b), w))"

text \<open>
  After the verdict: a duplicate is counted; any other event is added to both filters, takes its
  idempotency key when BF.EXISTS answered (or failed to answer) 0, and is accepted.
\<close>

definition accept_event ::
  "'w services \<Rightarrow> UsageEvent \<Rightarrow> string \<Rightarrow> string \<Rightarrow> (redis_error, int) result \<Rightarrow> inProcessBloom
   \<Rightarrow> batch_state \<Rightarrow> 'w \<Rightarrow> batch_state option \<times> 'w" where
  "accept_event sv event eventID bfKey exists b st w =
     (let w1 = snd (redis_BFAdd sv bfKey eventID w) in
      case add b (OrgID event) eventID of
        None \<Rightarrow> (None, w1)
      | Some b' \<Rightarrow>
          (let w2 = (if (case exists of Inr n \<Rightarrow> n | Inl _ \<Rightarrow> 0) = 0
                     then snd (redis_SetNX sv (idem_key (OrgID event) (EventID event)) ''1''
                            DefaultIdempotencyTTL w1)
                     else w1)
           in (Some (st\<lparr>bs_result := (bs_result st)\<lparr>Accepted := Accepted (bs_result st) @ [event]\<rparr>,
                        bs_bloom := b'\<rparr>), w2)))"

text \<open>The duplicate filter of one event whose organisation and end user are known.\<close>

definition dedup_event ::
  "'w services \<Rightarrow> int \<Rightarrow> UsageEvent \<Rightarrow> string \<Rightarrow> batch_state \<Rightarrow> 'w \<Rightarrow> batch_state option \<times> 'w" where
  "dedup_event sv bloomShards event eventID st w =
     (let bfKey = bf_key (OrgID event) (shard_of bloomShards (EventID event));
          w1 = (if bs_reserved st bfKey then w
                else snd (redis_BFReserve sv bfKey ''0.001'' ''10000000'' w));
          st1 = st\<lparr>bs_reserved := (bs_reserved st)(bfKey := True)\<rparr>;
          (exists, w2) = redis_BFExists sv bfKey eventID w1
      in case bloom_verdict sv event eventID exists (bs_bloom st) w2 of
           (None, w3) \<Rightarrow> (None, w3)
         | (Some (dup, b), w3) \<Rightarrow>
             if dup then
               (Some (st1\<lparr>bs_result := count_duplicate (bs_result st), bs_bloom := b\<rparr>), w3)
             else accept_event sv event eventID bfKey exists b st1 w3)"

definition process_event ::
  "'w services \<Rightarrow> int \<Rightarrow> (string \<Rightarrow> bool) \<Rightarrow> (string \<Rightarrow> bool) \<Rightarrow> nat \<times> UsageEvent \<Rightarrow> string
   \<Rightarrow> batch_state \<Rightarrow> 'w \<Rightarrow> batch_state option \<times> 'w" where
  "process_event sv bloomShards validOrgs validEUs ie eventID st w =
     (let (i, event) = ie; res = bs_result st in
      if \<not> validOrgs (OrgID event) then
        (Some (st\<lparr>bs_result := (count_failure i ''UNKNOWN_ORG'' event res)
           \<lparr>UnknownOrgCount := UnknownOrgCount res + 1\<rparr>\<rparr>), w)
      else if EndUserID event \<noteq> [] \<and> \<not> validEUs (eu_pair (OrgID event) (EndUserID event)) then
        (Some (st\<lparr>bs_result := (count_failure i ''END_USER_NOT_IN_ORG'' event res)
           \<lparr>UserNotInOrgCount := UserNotInOrgCount res + 1\<rparr>\<rparr>), w)
      else if bloomShards = 0 then (None, w)
      else dedup_event sv bloomShards event eventID st w)"

fun process_loop ::
  "'w services \<Rightarrow> int \<Rightarrow> (string \<Rightarrow> bool) \<Rightarrow> (string \<Rightarrow> bool) \<Rightarrow> string list \<Rightarrow> (nat \<times> UsageEvent) list
   \<Rightarrow> batch_state \<Rightarrow> 'w \<Rightarrow> batch_state option \<times> 'w" where
  "process_loop sv n vo ve eventIDs [] st w = (Some st, w)"
| "process_loop sv n vo ve eventIDs (ie # ies) st w =
     (case process_event sv n vo ve ie (eventIDs ! fst ie) st w of
        (None, w') \<Rightarrow> (None, w')
      | (Some st', w') \<Rightarrow> process_loop sv n vo ve eventIDs ies st' w')"

definition processBatchEvents ::
  "'w services \<Rightarrow> environ \<Rightarrow> UsageEvent list \<Rightarrow> string list \<Rightarrow> (string \<Rightarrow> bool) \<Rightarrow> (string \<Rightarrow> bool)
   \<Rightarrow> 'w \<Rightarrow> BatchResult option \<times> 'w" where
  "processBatchEvents sv env events eventIDs validOrgs validEUs w =
     (let bloomShards = getEnvInt env ''BLOOM_NUM_SHARDS'' 16 in
      case newInProcessBloom bloomShards of
        None \<Rightarrow> (None, w)
      | Some b \<Rightarrow>
          (let (st, w') = process_loop sv bloomShards validOrgs validEUs eventIDs
                (List.enumerate 0 events)
                \<lparr>bs_result = zero_result, bs_reserved = (\<lambda>_. False), bs_bloom = b\<rparr> w
           in (map_option bs_result st, w')))"

section \<open>HandleBatchEvent\<close>

text \<open>An event that cannot be marshalled contributes an empty message; its error is dropped.\<close>

definition raw_message :: "UsageEvent \<Rightarrow> string" where
  "raw_message e = (case marshal_event e of Some b \<Rightarrow> b | None \<Rightarrow> [])"

definition publish_batch :: "'w IngestHandler \<Rightarrow> UsageEvent list \<Rightarrow> string \<Rightarrow> 'w \<Rightarrow> 'w" where
  "publish_batch h accepted orgID w =
     (case h_PubBatch h of
        Some pub \<Rightarrow> snd (pub (map raw_message accepted) orgID w)
      | None \<Rightarrow> w)"

definition batch_response :: "BatchResult \<Rightarrow> response" where
  "batch_response res =
     json_response 202 (JObj [(''accepted'', JBool True),
       (''accepted_count'', JNum (itoa (int (length (Accepted res))))),
       (''failed_count'', JNum (itoa (int (FailedCount res)))),
       (''message'', JStr ''batch processed'')])"

definition enrich_all :: "(nat \<Rightarrow> entropy) \<Rightarrow> KeyContext \<Rightarrow> UsageEvent list \<Rightarrow> UsageEvent list" where
  "enrich_all ents kc events =
     map (\<lambda>(i, e). EnrichFromKeyContext (ents i) kc e) (List.enumerate 0 events)"

text \<open>Steps 1 to 5, once the batch is parsed and the key is known.\<close>

definition run_batch ::
  "'w services \<Rightarrow> 'w IngestHandler \<Rightarrow> environ \<Rightarrow> (nat \<Rightarrow> entropy) \<Rightarrow> KeyContext \<Rightarrow> UsageEvent list
   \<Rightarrow> 'w \<Rightarrow> BatchResult option \<times> 'w" where
  "run_batch sv h env ents kc events0 w =
     (let events = enrich_all ents kc events0;
          eventIDs = map EventID events;
          (validOrgs, w1) = batchOrgCheck sv h (collectUniqueOrgIDs events) w;
          (validEUs, w2) = batchEUCheck sv h (collectUniqueEUPairs events) w1
      in processBatchEvents sv env events eventIDs validOrgs validEUs w2)"

text \<open>Step 6: publish and answer.\<close>

definition ingest_batch ::
  "'w services \<Rightarrow> 'w IngestHandler \<Rightarrow> environ \<Rightarrow> (nat \<Rightarrow> entropy) \<Rightarrow> KeyContext \<Rightarrow> UsageEvent list
   \<Rightarrow> 'w \<Rightarrow> reply \<times> 'w" where
  "ingest_batch sv h env ents kc events0 w =
     (case run_batch sv h env ents kc events0 w of
        (None, w3) \<Rightarrow> (Panicked, w3)
      | (Some result, w3) \<Rightarrow>
          if Accepted result = [] then
            (Reply (writeError 400 ''NO_VALID_EVENTS'' ''no valid events in batch''), w3)
          else (Reply (batch_response result),
                publish_batch h (Accepted result) (kc_OrgID kc) w3))"

definition HandleBatchEvent ::
  "'w services \<Rightarrow> 'w IngestHandler \<Rightarrow> environ \<Rightarrow> (nat \<Rightarrow> entropy) \<Rightarrow> request \<Rightarrow> 'w \<Rightarrow> reply \<times> 'w" where
  "HandleBatchEvent sv h env ents r w =
     (if r_Method r \<noteq> ''POST'' then
        (Reply (writeError 405 ''METHOD_NOT_ALLOWED'' ''only POST is allowed''), w)
      else
        (case ReadAll_limited DefaultMaxBatchBodySize r of
           None \<Rightarrow>
             (Reply (writeError 413 ''PAYLOAD_TOO_LARGE'' ''request body exceeds 500MB limit''), w)
         | Some body \<Rightarrow>
             (case ParseIngestBatch body of
                Inl _ \<Rightarrow> (Reply (writeError 400 ''INVALID_JSON'' ''failed to parse batch body''), w)
              | Inr events \<Rightarrow>
                  let maxBatch = getEnvInt env ''MAX_BATCH_SIZE'' DefaultMaxBatchSize in
                  if events = [] then
                    (Reply (writeError 400 ''INVALID_JSON'' ''failed to parse batch body''), w)
                  else if maxBatch < int (length events) then
                    (Reply (writeError 413 ''BATCH_TOO_LARGE''
                       (''batch size '' @ itoa (int (length events)) @ '' exceeds max '' @ itoa maxBatch)), w)
                  else
                    (case GetKeyContext r of
                       None \<Rightarrow>
                         (Reply (writeError 401 ''UNAUTHORIZED'' ''missing authentication context''), w)
                     | Some kc \<Rightarrow> ingest_batch sv h env ents kc events w))))"

section \<open>Specifications\<close>

text \<open>
  Why an event fails the existence checks, and the error entries that a batch must report: one for
  each such event, with its index, in order.
\<close>

definition reject_code :: "(string \<Rightarrow> bool) \<Rightarrow> (string \<Rightarrow> bool) \<Rightarrow> UsageEvent \<Rightarrow> string option" where
  "reject_code vo ve e =
     (if \<not> vo (OrgID e) then Some ''UNKNOWN_ORG''
      else if EndUserID e \<noteq> [] \<and> \<not> ve (eu_pair (OrgID e) (EndUserID e)) then Some ''END_USER_NOT_IN_ORG''
      else None)"

abbreviation admissible :: "(string \<Rightarrow> bool) \<Rightarrow> (string \<Rightarrow> bool) \<Rightarrow> UsageEvent \<Rightarrow> bool" where
  "admissible vo ve e \<equiv> reject_code vo ve e = None"

fun batch_errors ::
  "(string \<Rightarrow> bool) \<Rightarrow> (string \<Rightarrow> bool) \<Rightarrow> (nat \<times> UsageEvent) list \<Rightarrow> BatchError list" where
  "batch_errors vo ve [] = []"
| "batch_errors vo ve ((i, e) # ies) =
     (case reject_code vo ve e of
        None \<Rightarrow> []
      | Some code \<Rightarrow> [\<lparr>be_Index = i, be_Code = code, be_EventID = EventID e\<rparr>])
     @ batch_errors vo ve ies"

definition batch_publisher_ok :: "'w services \<Rightarrow> 'w IngestHandler \<Rightarrow> bool" where
  "batch_publisher_ok sv h = (h_PubBatch h \<in> {None, Some (kafka_publish_batch sv)})"

definition batch_messages :: "'w IngestHandler \<Rightarrow> UsageEvent list \<Rightarrow> (string \<times> string) list" where
  "batch_messages h es =
     (case h_PubBatch h of None \<Rightarrow> [] | Some _ \<Rightarrow> map (\<lambda>e. (raw_message e, OrgID e)) es)"

text \<open>A sequence of batches: all the events that were accepted, in order, and the world afterwards.\<close>

fun serve_batches ::
  "'w services \<Rightarrow> 'w IngestHandler \<Rightarrow> environ \<Rightarrow> ((nat \<Rightarrow> entropy) \<times> KeyContext \<times> UsageEvent list) list
   \<Rightarrow> 'w \<Rightarrow> UsageEvent list \<times> 'w" where
  "serve_batches sv h env [] w = ([], w)"
| "serve_batches sv h env ((ents, kc, events) # bs) w =
     (let acc = (case fst (run_batch sv h env ents kc events w) of
                   Some res \<Rightarrow> Accepted res | None \<Rightarrow> []);
          (rep, w1) = ingest_batch sv h env ents kc events w;
          (es, w2) = serve_batches sv h env bs w1
      in (acc @ es, w2))"

definition event_ident :: "UsageEvent \<Rightarrow> string \<times> string" where
  "event_ident e = (OrgID e, EventID e)"

section \<open>Accounting\<close>

lemma process_event_cases:
  assumes "process_event sv n vo ve (i, e) eid st w = (Some st', w')"
  obtains
    (rejected) code where "reject_code vo ve e = Some code"
      "bs_result st' = (count_failure i code e (bs_result st))
         \<lparr>UnknownOrgCount := UnknownOrgCount (bs_result st) + (if code = ''UNKNOWN_ORG'' then 1 else 0),
          UserNotInOrgCount := UserNotInOrgCount (bs_result st) + (if code = ''UNKNOWN_ORG'' then 0 else 1)\<rparr>"
      "bs_bloom st' = bs_bloom st" "w' = w"
  | (duplicate) "admissible vo ve e" "bs_result st' = count_duplicate (bs_result st)"
  | (accepted) "admissible vo ve e"
      "bs_result st' = (bs_result st)\<lparr>Accepted := Accepted (bs_result st) @ [e]\<rparr>"
  using assms unfolding process_event_def dedup_event_def accept_event_def
  by (auto simp: reject_code_def count_failure_def Let_def split: if_splits prod.splits option.splits)

lemma process_loop_accounting:
  assumes "process_loop sv n vo ve ids ies st w = (Some st', w')"
  shows "\<exists>acc. subseq acc (filter (admissible vo ve) (map snd ies))
      \<and> Accepted (bs_result st') = Accepted (bs_result st) @ acc
      \<and> Errors (bs_result st') = Errors (bs_result st) @ batch_errors vo ve ies
      \<and> DuplicateCount (bs_result st') + length acc
          = DuplicateCount (bs_result st) + length (filter (admissible vo ve) (map snd ies))
      \<and> UnknownOrgCount (bs_result st') + UserNotInOrgCount (bs_result st')
          = UnknownOrgCount (bs_result st) + UserNotInOrgCount (bs_result st) + length (batch_errors vo ve ies)
      \<and> FailedCount (bs_result st') + length acc = FailedCount (bs_result st) + length ies"
  using assms
proof (induction ies arbitrary: st w)
  case (Cons ie ies)
  obtain i e where ie: "ie = (i, e)" by fastforce
  obtain st1 w1 where step: "process_event sv n vo ve (i, e) (ids ! i) st w = (Some st1, w1)"
    and rest: "process_loop sv n vo ve ids ies st1 w1 = (Some st', w')"
    using Cons.prems by (auto simp: ie split: prod.splits option.splits)
  obtain acc where acc: "subseq acc (filter (admissible vo ve) (map snd ies))"
    "Accepted (bs_result st') = Accepted (bs_result st1) @ acc"
    "Errors (bs_result st') = Errors (bs_result st1) @ batch_errors vo ve ies"
    "DuplicateCount (bs_result st') + length acc
       = DuplicateCount (bs_result st1) + length (filter (admissible vo ve) (map snd ies))"
    "UnknownOrgCount (bs_result st') + UserNotInOrgCount (bs_result st')
       = UnknownOrgCount (bs_result st1) + UserNotInOrgCount (bs_result st1) + length (batch_errors vo ve ies)"
    "FailedCount (bs_result st') + length acc = FailedCount (bs_result st1) + length ies"
    using Cons.IH [OF rest] by blast
  from step show ?case
  proof (cases rule: process_event_cases)
    case (rejected code)
    then show ?thesis using acc by (intro exI [of _ acc]) (auto simp: ie count_failure_def)
  next
    case duplicate
    then show ?thesis using acc by (intro exI [of _ acc]) (auto simp: ie count_duplicate_def)
  next
    case accepted
    then show ?thesis using acc by (intro exI [of _ "e # acc"]) (auto simp: ie)
  qed
qed simp

lemma processBatchEvents_loop:
  assumes "processBatchEvents sv env events ids vo ve w = (Some res, w')"
  obtains b st' where "newInProcessBloom (getEnvInt env ''BLOOM_NUM_SHARDS'' 16) = Some b"
    "process_loop sv (getEnvInt env ''BLOOM_NUM_SHARDS'' 16) vo ve ids (List.enumerate 0 events)
       \<lparr>bs_result = zero_result, bs_reserved = (\<lambda>_. False), bs_bloom = b\<rparr> w = (Some st', w')"
    "res = bs_result st'"
  using assms by (auto simp: processBatchEvents_def Let_def split: option.splits prod.splits)

lemma processBatchEvents_accounts:
  assumes "processBatchEvents sv env events ids vo ve w = (Some res, w')"
  shows "subseq (Accepted res) (filter (admissible vo ve) events)"
    and "Errors res = batch_errors vo ve (List.enumerate 0 events)"
    and "length (Accepted res) + FailedCount res = length events"
    and "FailedCount res = DuplicateCount res + UnknownOrgCount res + UserNotInOrgCount res"
proof -
  obtain b st' where l: "process_loop sv (getEnvInt env ''BLOOM_NUM_SHARDS'' 16) vo ve ids
      (List.enumerate 0 events)
      \<lparr>bs_result = zero_result, bs_reserved = (\<lambda>_. False), bs_bloom = b\<rparr> w = (Some st', w')"
    and r: "res = bs_result st'"
    using assms by (rule processBatchEvents_loop)
  have len: "length (batch_errors vo ve ies) + length (filter (admissible vo ve) (map snd ies)) = length ies"
    for ies by (induction ies) auto
  note acc = process_loop_accounting [OF l]
  show "subseq (Accepted res) (filter (admissible vo ve) events)"
    and "Errors res = batch_errors vo ve (List.enumerate 0 events)"
    and "length (Accepted res) + FailedCount res = length events"
    using acc by (auto simp: r zero_result_def)
  show "FailedCount res = DuplicateCount res + UnknownOrgCount res + UserNotInOrgCount res"
    using acc len [of "List.enumerate 0 events"] by (auto simp: r zero_result_def)
qed

section \<open>Duplicate elimination\<close>

text \<open>The identities that the Redis filters have on record.\<close>

definition recorded ::
  "(string \<Rightarrow> string option) \<Rightarrow> (string \<Rightarrow> string set) \<Rightarrow> int \<Rightarrow> string \<times> string \<Rightarrow> bool" where
  "recorded m f n x \<longleftrightarrow>
     m (idem_key (fst x) (snd x)) \<noteq> None \<and> snd x \<in> f (bf_key (fst x) (shard_of n (snd x)))"

definition grown ::
  "(string \<Rightarrow> string option) \<Rightarrow> (string \<Rightarrow> string set) \<Rightarrow> (string \<Rightarrow> string option) \<Rightarrow> (string \<Rightarrow> string set) \<Rightarrow> bool" where
  "grown m f m' f' \<longleftrightarrow> (\<forall>k. m k \<noteq> None \<longrightarrow> m' k \<noteq> None) \<and> (\<forall>k. f k \<subseteq> f' k)"

lemma grown_refl [simp]: "grown m f m f"
  by (simp add: grown_def)

lemma grown_trans: "grown m f m1 f1 \<Longrightarrow> grown m1 f1 m2 f2 \<Longrightarrow> grown m f m2 f2"
  by (auto simp: grown_def) blast+

lemma recorded_grown: "grown m f m' f' \<Longrightarrow> recorded m f n x \<Longrightarrow> recorded m' f' n x"
  by (auto simp: grown_def recorded_def)

context backend
begin

lemma bfadd_effect:
  assumes "w' = snd (redis_BFAdd sv k i w)"
  shows "kv w' = kv w \<and> db w' = db w \<and> sent w' = sent w \<and> (\<forall>k'. bf w k' \<subseteq> bf w' k')"
proof -
  obtain x where s: "redis_BFAdd sv k i w = (x, w')"
    using assms by (metis prod.collapse)
  show ?thesis
    using bfadd_frame [OF s] s bfadd_ok [of k i w _ w'] bfadd_err [of k i w _ w'] by (cases x) auto
qed

lemma bfreserve_effect:
  assumes "w' = (if c then w else snd (redis_BFReserve sv k p q w))"
  shows "kv w' = kv w \<and> bf w' = bf w \<and> db w' = db w \<and> sent w' = sent w"
  using assms bfreserve_frame [of k p q w "fst (redis_BFReserve sv k p q w)" w'] by (cases c) auto

lemma idem_taken_effect:
  assumes "idem_taken sv e w = (dup, w')"
  shows "grown (kv w) (bf w) (kv w') (bf w') \<and> bf w' = bf w \<and> db w' = db w \<and> sent w' = sent w"
proof -
  have "w' = snd (redis_SetNX sv (idem_key (OrgID e) (EventID e)) ''1'' DefaultIdempotencyTTL w)"
    using assms by (auto simp: idem_taken_def split: prod.splits sum.splits)
  from setnx_effect [OF this] show ?thesis by (auto simp: grown_def)
qed

lemma bloom_verdict_effect:
  assumes "bloom_verdict sv e i ex b w = (r, w')"
  shows "grown (kv w) (bf w) (kv w') (bf w') \<and> bf w' = bf w \<and> db w' = db w \<and> sent w' = sent w"
  using assms idem_taken_effect [of e w]
  by (auto simp: bloom_verdict_def Let_def split: sum.splits option.splits if_splits prod.splits)

lemma accept_event_effect:
  assumes "accept_event sv e i k ex b st w = (r, w')"
  shows "grown (kv w) (bf w) (kv w') (bf w') \<and> db w' = db w \<and> sent w' = sent w"
proof -
  define w1 where "w1 = snd (redis_BFAdd sv k i w)"
  note e1 = bfadd_effect [OF w1_def]
  note e2 = setnx_effect [OF refl, of "idem_key (OrgID e) (EventID e)" "''1''" DefaultIdempotencyTTL w1]
  show ?thesis
    using assms e1 e2 unfolding accept_event_def w1_def [symmetric] Let_def
    by (auto simp: grown_def split: option.splits if_splits)
qed

lemma dedup_event_effect:
  assumes "dedup_event sv n e i st w = (r, w')"
  shows "grown (kv w) (bf w) (kv w') (bf w') \<and> db w' = db w \<and> sent w' = sent w"
proof -
  define k where "k = bf_key (OrgID e) (shard_of n (EventID e))"
  define w1 where "w1 = (if bs_reserved st k then w else snd (redis_BFReserve sv k ''0.001'' ''10000000'' w))"
  obtain ex w2 where x: "redis_BFExists sv k i w1 = (ex, w2)" by fastforce
  obtain v w3 where v: "bloom_verdict sv e i ex (bs_bloom st) w2 = (v, w3)" by fastforce
  note fr = bfreserve_effect [OF w1_def] bfexists_frame [OF x] bloom_verdict_effect [OF v]
  have g3: "grown (kv w) (bf w) (kv w3) (bf w3) \<and> db w3 = db w \<and> sent w3 = sent w"
    using fr by auto
  consider "w' = w3" | b st1 where "accept_event sv e i k ex b st1 w3 = (r, w')"
    using assms x v unfolding dedup_event_def k_def [symmetric] Let_def w1_def [symmetric]
    by (auto split: option.splits if_splits prod.splits)
  then show ?thesis
  proof cases
    case (2 b st1)
    then show ?thesis
      using g3 accept_event_effect [OF 2] grown_trans by metis
  qed (use g3 in simp)
qed

lemma process_event_effect:
  assumes "process_event sv n vo ve ie i st w = (r, w')"
  shows "grown (kv w) (bf w) (kv w') (bf w') \<and> db w' = db w \<and> sent w' = sent w"
  using assms dedup_event_effect [of n "snd ie" i st w r w']
  by (auto simp: process_event_def Let_def split: prod.splits if_splits)

lemma process_loop_effect:
  "process_loop sv n vo ve ids ies st w = (r, w') \<Longrightarrow>
     grown (kv w) (bf w) (kv w') (bf w') \<and> db w' = db w \<and> sent w' = sent w"
proof (induction ies arbitrary: st w)
  case (Cons ie ies)
  obtain r1 w1 where st: "process_event sv n vo ve ie (ids ! fst ie) st w = (r1, w1)" by fastforce
  note e1 = process_event_effect [OF st]
  show ?case
  proof (cases r1)
    case None
    then show ?thesis using Cons.prems st e1 by simp
  next
    case (Some st1)
    then have "process_loop sv n vo ve ids ies st1 w1 = (r, w')"
      using Cons.prems st by simp
    from Cons.IH [OF this] show ?thesis
      using e1 grown_trans by metis
  qed
qed simp

lemma processBatchEvents_effect:
  assumes "processBatchEvents sv env events ids vo ve w = (r, w')"
  shows "grown (kv w) (bf w) (kv w') (bf w') \<and> db w' = db w \<and> sent w' = sent w"
  using assms process_loop_effect
  by (fastforce simp: processBatchEvents_def Let_def split: option.splits prod.splits)

end

context backend_up
begin

lemma accept_event_up:
  assumes "accept_event sv e (EventID e) k (Inr x) b st w = (Some st', w')"
    and "k = bf_key (OrgID e) (shard_of n (EventID e))"
    and "x = 0 \<or> kv w (idem_key (OrgID e) (EventID e)) \<noteq> None"
  shows "recorded (kv w') (bf w') n (event_ident e)"
proof -
  define K where "K = idem_key (OrgID e) (EventID e)"
  obtain y w1 where y: "redis_BFAdd sv k (EventID e) w = (Inr y, w1)" using bfadd_up by blast
  obtain z w2 where z: "redis_SetNX sv K ''1'' DefaultIdempotencyTTL w1 = (Inr z, w2)"
    using setnx_up by blast
  have bf1: "EventID e \<in> bf w1 k" "kv w1 = kv w"
    using bfadd_ok [OF y] bfadd_frame [OF y] by simp_all
  have w2: "kv w2 K \<noteq> None" "bf w2 = bf w1"
    using setnx_ok [OF z] setnx_frame [OF z] by (auto split: if_splits)
  have "w' = (if x = 0 then w2 else w1)"
    using assms(1) y z unfolding accept_event_def K_def
    by (auto simp: Let_def split: option.splits)
  then show ?thesis
    using bf1 w2 assms(2,3) by (auto simp: recorded_def event_ident_def K_def)
qed

lemma dedup_event_up:
  assumes "dedup_event sv n e (EventID e) st w = (Some st', w')"
    and "Accepted (bs_result st') = Accepted (bs_result st) @ [e]"
  shows "\<not> recorded (kv w) (bf w) n (event_ident e)" and "recorded (kv w') (bf w') n (event_ident e)"
proof -
  define k where "k = bf_key (OrgID e) (shard_of n (EventID e))"
  define K where "K = idem_key (OrgID e) (EventID e)"
  define w1 where "w1 = (if bs_reserved st k then w else snd (redis_BFReserve sv k ''0.001'' ''10000000'' w))"
  obtain x w2 where x: "redis_BFExists sv k (EventID e) w1 = (Inr x, w2)"
    using bfexists_up by blast
  obtain z w3 where z: "redis_SetNX sv K ''1'' DefaultIdempotencyTTL w2 = (Inr z, w3)"
    using setnx_up by blast
  have fr: "kv w2 = kv w" "bf w2 = bf w" "x = 0 \<or> x = 1" "EventID e \<in> bf w k \<longrightarrow> x = 1"
    using bfreserve_effect [OF w1_def] bfexists_frame [OF x] bfexists_ok [OF x] by auto
  have acc: "accept_event sv e (EventID e) k (Inr x) (bs_bloom st)
        (st\<lparr>bs_reserved := (bs_reserved st)(k := True)\<rparr>) (if x = 1 then w3 else w2) = (Some st', w')"
    and nd: "x = 1 \<longrightarrow> z"
    using assms x z unfolding dedup_event_def k_def [symmetric] Let_def w1_def [symmetric]
    by (auto simp: bloom_verdict_def idem_taken_def K_def count_duplicate_def split: if_splits)
  have kvz: "x = 1 \<longrightarrow> kv w K = None \<and> kv w3 K \<noteq> None"
    using nd setnx_ok [OF z] fr(1) by auto
  then show "recorded (kv w') (bf w') n (event_ident e)"
    using accept_event_up [OF acc k_def] fr(3) by (auto simp: K_def)
  show "\<not> recorded (kv w) (bf w) n (event_ident e)"
    using kvz fr(3,4) by (auto simp: recorded_def event_ident_def K_def k_def)
qed

lemma process_loop_dedup:
  assumes "process_loop sv n vo ve ids ies st w = (Some st', w')"
    and "\<forall>(i, e) \<in> set ies. ids ! i = EventID e"
  shows "\<exists>acc. Accepted (bs_result st') = Accepted (bs_result st) @ acc \<and> distinct (map event_ident acc)
    \<and> (\<forall>e \<in> set acc. \<not> recorded (kv w) (bf w) n (event_ident e) \<and> recorded (kv w') (bf w') n (event_ident e))"
  using assms
proof (induction ies arbitrary: st w)
  case (Cons ie ies)
  obtain i e where ie: "ie = (i, e)" "ids ! i = EventID e" using Cons.prems(2) by fastforce
  obtain st1 w1 where step: "process_event sv n vo ve (i, e) (EventID e) st w = (Some st1, w1)"
    and rest: "process_loop sv n vo ve ids ies st1 w1 = (Some st', w')"
    using Cons.prems by (auto simp: ie split: prod.splits option.splits)
  obtain acc where acc: "Accepted (bs_result st') = Accepted (bs_result st1) @ acc"
    "distinct (map event_ident acc)"
    "\<forall>e \<in> set acc. \<not> recorded (kv w1) (bf w1) n (event_ident e) \<and> recorded (kv w') (bf w') n (event_ident e)"
    using Cons.IH [OF rest] Cons.prems(2) by auto
  have g: "recorded (kv w) (bf w) n (event_ident y) \<Longrightarrow> recorded (kv w1) (bf w1) n (event_ident y)"
    "recorded (kv w1) (bf w1) n (event_ident y) \<Longrightarrow> recorded (kv w') (bf w') n (event_ident y)" for y
    using process_event_effect [OF step] process_loop_effect [OF rest] recorded_grown by blast+
  from step show ?case
  proof (cases rule: process_event_cases)
    case (rejected code)
    then show ?thesis using acc g by (intro exI [of _ acc]) (auto simp: count_failure_def)
  next
    case duplicate
    then show ?thesis using acc g by (intro exI [of _ acc]) (auto simp: count_duplicate_def)
  next
    case accepted
    then have "dedup_event sv n e (EventID e) st w = (Some st1, w1)"
      using step by (auto simp: process_event_def reject_code_def split: if_splits)
    note d = dedup_event_up [OF this]
    show ?thesis
      using acc g d accepted(2) by (intro exI [of _ "e # acc"]) auto
  qed
qed simp

lemma processBatchEvents_dedup:
  assumes "processBatchEvents sv env events (map EventID events) vo ve w = (Some res, w')"
  defines "n \<equiv> getEnvInt env ''BLOOM_NUM_SHARDS'' 16"
  shows "distinct (map event_ident (Accepted res))"
    and "e \<in> set (Accepted res) \<Longrightarrow>
      \<not> recorded (kv w) (bf w) n (event_ident e) \<and> recorded (kv w') (bf w') n (event_ident e)"
proof -
  obtain b st' where l: "process_loop sv n vo ve (map EventID events) (List.enumerate 0 events)
      \<lparr>bs_result = zero_result, bs_reserved = (\<lambda>_. False), bs_bloom = b\<rparr> w = (Some st', w')"
    and r: "res = bs_result st'"
    using assms(1) unfolding n_def by (rule processBatchEvents_loop)
  have "\<forall>(i, e) \<in> set (List.enumerate 0 events). map EventID events ! i = EventID e"
    by (auto simp: in_set_enumerate_eq)
  from process_loop_dedup [OF l this]
  show "distinct (map event_ident (Accepted res))"
    and "e \<in> set (Accepted res) \<Longrightarrow>
      \<not> recorded (kv w) (bf w) n (event_ident e) \<and> recorded (kv w') (bf w') n (event_ident e)"
    by (auto simp: r zero_result_def)
qed

end

section \<open>The fallback filter\<close>

text \<open>
  While every BF.EXISTS and every SETNX fails, the in-process filter alone decides: an event whose
  identity it holds is counted as a duplicate, and an accepted identity is in it.
\<close>

definition filters_down :: "'w services \<Rightarrow> bool" where
  "filters_down sv \<longleftrightarrow> (\<forall>k i w. \<exists>er w'. redis_BFExists sv k i w = (Inl er, w'))
     \<and> (\<forall>k v t w. \<exists>er w'. redis_SetNX sv k v t w = (Inl er, w'))"

lemma dedup_event_down:
  assumes "filters_down sv" and "bloom_ok (bs_bloom st)"
    and "dedup_event sv n e (EventID e) st w = (Some st', w')"
  shows "bloom_ok (bs_bloom st')"
    and "bloom_member (bs_bloom st) a c \<Longrightarrow> bloom_member (bs_bloom st') a c"
    and "Accepted (bs_result st') = Accepted (bs_result st) @ [e] \<Longrightarrow>
      \<not> bloom_member (bs_bloom st) (OrgID e) (EventID e) \<and> bloom_member (bs_bloom st') (OrgID e) (EventID e)"
proof -
  define k where "k = bf_key (OrgID e) (shard_of n (EventID e))"
  define w1 where "w1 = (if bs_reserved st k then w else snd (redis_BFReserve sv k ''0.001'' ''10000000'' w))"
  obtain er w2 where x: "redis_BFExists sv k (EventID e) w1 = (Inl er, w2)"
    using assms(1) unfolding filters_down_def by blast
  obtain w3 where t: "idem_taken sv e w2 = (True, w3)"
    using assms(1) unfolding filters_down_def idem_taken_def by (metis (no_types, lifting) case_prod_conv sum.case(1))
  obtain b1 where b1: "add (bs_bloom st) (OrgID e) (EventID e) = Some b1" "bloom_ok b1"
    by (rule add_ok [OF assms(2)])
  obtain b2 where b2: "add b1 (OrgID e) (EventID e) = Some b2" "bloom_ok b2"
    by (rule add_ok [OF b1(2)])
  note m1 = add_member [OF assms(2) b1(1)] and m2 = add_member [OF b1(2) b2(1)]
  have "bs_bloom st' = (if bloom_member (bs_bloom st) (OrgID e) (EventID e) then b1 else b2)
      \<and> (bloom_member (bs_bloom st) (OrgID e) (EventID e) \<longrightarrow> Accepted (bs_result st') = Accepted (bs_result st))"
    using assms(3) x t b1 b2 existsAndAdd_eq [OF assms(2), of "OrgID e" "EventID e"]
    unfolding dedup_event_def k_def [symmetric] Let_def w1_def [symmetric]
    by (auto simp: bloom_verdict_def accept_event_def count_duplicate_def Let_def split: if_splits)
  then show "bloom_ok (bs_bloom st')"
    and "bloom_member (bs_bloom st) a c \<Longrightarrow> bloom_member (bs_bloom st') a c"
    and "Accepted (bs_result st') = Accepted (bs_result st) @ [e] \<Longrightarrow>
      \<not> bloom_member (bs_bloom st) (OrgID e) (EventID e) \<and> bloom_member (bs_bloom st') (OrgID e) (EventID e)"
    using b1 b2 m1 m2 by auto
qed

lemma process_loop_down:
  assumes "filters_down sv" and "bloom_ok (bs_bloom st)"
    and "process_loop sv n vo ve ids ies st w = (Some st', w')"
    and "\<forall>(i, e) \<in> set ies. ids ! i = EventID e"
  shows "\<exists>acc. Accepted (bs_result st') = Accepted (bs_result st) @ acc \<and> distinct (map event_ident acc)
    \<and> (\<forall>e \<in> set acc. \<not> bloom_member (bs_bloom st) (OrgID e) (EventID e))"
  using assms(2-)
proof (induction ies arbitrary: st w)
  case (Cons ie ies)
  obtain i e where ie: "ie = (i, e)" "ids ! i = EventID e" using Cons.prems(3) by fastforce
  obtain st1 w1 where step: "process_event sv n vo ve (i, e) (EventID e) st w = (Some st1, w1)"
    and rest: "process_loop sv n vo ve ids ies st1 w1 = (Some st', w')"
    using Cons.prems by (auto simp: ie split: prod.splits option.splits)
  have IH: "\<exists>acc. Accepted (bs_result st') = Accepted (bs_result st1) @ acc \<and> distinct (map event_ident acc)
      \<and> (\<forall>e \<in> set acc. \<not> bloom_member (bs_bloom st1) (OrgID e) (EventID e))" if "bloom_ok (bs_bloom st1)"
    using Cons.IH [OF that rest] Cons.prems(3) by simp
  from step show ?case
  proof (cases rule: process_event_cases)
    case (rejected code)
    then show ?thesis using IH Cons.prems(1) by (simp add: count_failure_def)
  next
    case duplicate
    then have "dedup_event sv n e (EventID e) st w = (Some st1, w1)"
      using step by (auto simp: process_event_def reject_code_def split: if_splits)
    note d = dedup_event_down [OF assms(1) Cons.prems(1) this]
    then show ?thesis using IH duplicate(2) by (auto simp: count_duplicate_def)
  next
    case accepted
    then have "dedup_event sv n e (EventID e) st w = (Some st1, w1)"
      using step by (auto simp: process_event_def reject_code_def split: if_splits)
    note d = dedup_event_down [OF assms(1) Cons.prems(1) this]
    obtain acc where acc: "Accepted (bs_result st') = Accepted (bs_result st1) @ acc"
      "distinct (map event_ident acc)"
      "\<forall>e \<in> set acc. \<not> bloom_member (bs_bloom st1) (OrgID e) (EventID e)"
      using IH [OF d(1)] by blast
    then have "event_ident e \<notin> event_ident ` set acc"
      using d(3) [OF _] accepted(2) by (auto simp: event_ident_def)
    then show ?thesis
      using acc d accepted(2) by (intro exI [of _ "e # acc"]) auto
  qed
qed simp

section \<open>The bulk checks\<close>

lemma hits_misses:
  "list_all2 (\<lambda>x v. 0 < v \<longleftrightarrow> P x) xs vals \<Longrightarrow> hits xs vals = filter P xs \<and> misses xs vals = filter (\<lambda>x. \<not> P x) xs"
  by (induction rule: list_all2_induct) (auto simp: hits_def misses_def)

lemma batchOrgCheck_eq:
  assumes "exists_all sv (map org_key ids) w = (vals, w1)"
    and "batchOrgPostgres sv (misses ids vals) w1 = (pg, w2)"
  shows "batchOrgCheck sv h ids w =
    (if ids = [] then (\<lambda>_. False, w)
     else if misses ids vals \<noteq> [] \<and> h_PG h then
       foldl (confirm sv) (\<lambda>o'. o' \<in> set (hits ids vals), w2) (map (\<lambda>o'. (o', org_key o')) pg)
     else (\<lambda>o'. o' \<in> set (hits ids vals), w1))"
  using assms by (simp add: batchOrgCheck_def)

definition eu_entries :: "EURecord list \<Rightarrow> (string \<times> string) list" where
  "eu_entries rs = map (\<lambda>r. (eu_pair (eur_OrgID r) (eur_EndUserID r),
     eu_key (eur_OrgID r) (eur_EndUserID r))) rs"

lemma batchEUCheck_eq:
  assumes "exists_all sv (map (\<lambda>(o', e). eu_key o' e) (map splitPair pairs)) w = (vals, w1)"
    and "misses (map splitPair pairs) vals = missing"
    and "batchEUPG sv (map fst missing) (map snd missing) w1 = (pg, w2)"
  shows "batchEUCheck sv h pairs w =
    (if pairs = [] then (\<lambda>_. False, w)
     else if missing \<noteq> [] \<and> h_PG h then
       foldl (confirm sv) (\<lambda>p. p \<in> set (hits pairs vals), w2) (eu_entries pg)
     else (\<lambda>p. p \<in> set (hits pairs vals), w1))"
  using assms by (simp add: batchEUCheck_def eu_entries_def Let_def del: map_map)

lemma fst_confirm_all: "fst (foldl (confirm sv) (f, w) ks) = (\<lambda>x. f x \<or> x \<in> fst ` set ks)"
  by (induction ks arbitrary: f w) (auto simp: confirm_def fun_eq_iff)

context backend
begin

lemma confirm_all_effect:
  assumes "w' = snd (foldl (confirm sv) (f, w) ks)" and "\<forall>k \<in> snd ` set ks. prefix ''org:'' k"
  shows "bf w' = bf w \<and> db w' = db w \<and> sent w' = sent w \<and> same_uncached (kv w) (kv w')"
  using assms
proof (induction ks arbitrary: f w)
  case (Cons k ks)
  define w1 where "w1 = snd (redis_Set sv (snd k) ''1'' Hour w)"
  have "same_uncached (kv w) (kv w1)" "bf w1 = bf w \<and> db w1 = db w \<and> sent w1 = sent w"
    using set_effect [OF w1_def] Cons.prems(2) by (auto simp: same_uncached_def)
  moreover have w': "w' = snd (foldl (confirm sv) (f(fst k := True), w1) ks)"
    using Cons.prems(1) by (simp add: confirm_def [of sv "(f, w)" k] w1_def)
  have "bf w' = bf w1 \<and> db w' = db w1 \<and> sent w' = sent w1 \<and> same_uncached (kv w1) (kv w')"
    using Cons.prems(2) by (intro Cons.IH [OF w']) simp
  ultimately show ?case by (simp add: same_uncached_def)
qed (simp add: same_uncached_def)

lemma exists_all_effect:
  assumes "exists_all sv ks w = (vals, w')"
  shows "kv w' = kv w \<and> bf w' = bf w \<and> db w' = db w \<and> sent w' = sent w"
    and "list_all2 (\<lambda>k v. 0 < v \<longrightarrow> kv w k \<noteq> None) ks vals"
proof -
  have "(kv w' = kv w \<and> bf w' = bf w \<and> db w' = db w \<and> sent w' = sent w)
      \<and> list_all2 (\<lambda>k v. 0 < v \<longrightarrow> kv w k \<noteq> None) ks vals"
    using assms
  proof (induction ks arbitrary: w vals)
    case (Cons k ks)
    obtain x w1 where x: "redis_Exists sv k w = (x, w1)" by fastforce
    obtain vs where vs: "exists_all sv ks w1 = (vs, w')" "vals = (case x of Inr n \<Rightarrow> n | Inl _ \<Rightarrow> 0) # vs"
      using Cons.prems x by (auto split: prod.splits)
    then show ?case
      using Cons.IH [OF vs(1)] exists_frame [OF x] exists_ok [of k w _ w1] x
      by (auto split: sum.splits)
  qed simp
  then show "kv w' = kv w \<and> bf w' = bf w \<and> db w' = db w \<and> sent w' = sent w"
    and "list_all2 (\<lambda>k v. 0 < v \<longrightarrow> kv w k \<noteq> None) ks vals" by simp_all
qed

lemma batchOrgPostgres_effect:
  assumes "batchOrgPostgres sv ids w = (pg, w')"
  shows "kv w' = kv w \<and> bf w' = bf w \<and> db w' = db w \<and> sent w' = sent w
    \<and> (\<forall>o' \<in> set pg. o' \<in> set ids \<and> active_org (db w) o')"
  using assms orgs_ok [of w]
  by (fastforce simp: batchOrgPostgres_def active_org_def list_ex_iff split: if_splits prod.splits sum.splits)

lemma batchEUPG_effect:
  assumes "batchEUPG sv os es w = (pg, w')"
  shows "kv w' = kv w \<and> bf w' = bf w \<and> db w' = db w \<and> sent w' = sent w
    \<and> (\<forall>r \<in> set pg. eur_OrgID r \<in> set os \<and> eur_EndUserID r \<in> set es
         \<and> member_end_user (db w) (eur_OrgID r) (eur_EndUserID r))"
  using assms end_users_ok [of w]
  by (fastforce simp: batchEUPG_def member_end_user_def list_ex_iff split: if_splits prod.splits sum.splits)

lemma batchOrgCheck_effect:
  assumes "batchOrgCheck sv h ids w = (f, w')"
  shows "bf w' = bf w \<and> db w' = db w \<and> sent w' = sent w \<and> same_uncached (kv w) (kv w')"
proof -
  obtain vals w1 where v: "exists_all sv (map org_key ids) w = (vals, w1)" by fastforce
  obtain pg w2 where p: "batchOrgPostgres sv (misses ids vals) w1 = (pg, w2)" by fastforce
  note fr = exists_all_effect(1) [OF v] batchOrgPostgres_effect [OF p]
  note cf = confirm_all_effect [OF refl, of "map (\<lambda>o'. (o', org_key o')) pg" "\<lambda>o'. o' \<in> set (hits ids vals)" w2]
  show ?thesis
    using assms fr cf unfolding batchOrgCheck_eq [OF v p]
    by (auto simp: same_uncached_def split: if_splits)
qed

lemma batchEUCheck_effect:
  assumes "batchEUCheck sv h pairs w = (f, w')"
  shows "bf w' = bf w \<and> db w' = db w \<and> sent w' = sent w \<and> same_uncached (kv w) (kv w')"
proof -
  obtain vals w1 where v: "exists_all sv (map (\<lambda>(o', e). eu_key o' e) (map splitPair pairs)) w = (vals, w1)"
    by fastforce
  define missing where "missing = misses (map splitPair pairs) vals"
  obtain pg w2 where p: "batchEUPG sv (map fst missing) (map snd missing) w1 = (pg, w2)" by fastforce
  note fr = exists_all_effect(1) [OF v] batchEUPG_effect [OF p]
  note cf = confirm_all_effect [OF refl, of "eu_entries pg" "\<lambda>p. p \<in> set (hits pairs vals)" w2]
  show ?thesis
    using assms fr cf unfolding batchEUCheck_eq [OF v missing_def [symmetric] p]
    by (auto simp: same_uncached_def eu_entries_def split: if_splits)
qed

end

lemma splitPair_loop_last:
  "i \<le> length p \<Longrightarrow> \<forall>j. i \<le> j \<and> j < length p \<longrightarrow> p ! j \<noteq> CHR '':'' \<Longrightarrow> splitPair_loop p i = (o', e) \<Longrightarrow>
     CHR '':'' \<notin> set e \<and> (p = o' @ '':'' @ e \<or> CHR '':'' \<notin> set p \<and> o' = p \<and> e = [])"
proof (induction i)
  case 0
  then show ?case by (auto simp: in_set_conv_nth)
next
  case (Suc i)
  show ?case
  proof (cases "p ! i = CHR '':''")
    case True
    then have oe: "o' = take i p" "e = drop (Suc i) p" using Suc.prems(3) by auto
    moreover have "CHR '':'' \<notin> set (drop (Suc i) p)"
      using Suc.prems(2) by (auto simp: in_set_conv_nth)
    moreover have "p = take i p @ p ! i # drop (Suc i) p"
      using Suc.prems(1) by (simp add: id_take_nth_drop)
    ultimately show ?thesis using True by simp
  next
    case False
    then show ?thesis
      using Suc.IH Suc.prems by (metis Suc_leD le_antisym not_less_eq_eq splitPair_loop.simps(2))
  qed
qed

lemma splitPair_spec:
  "splitPair p = (o', e) \<Longrightarrow>
     CHR '':'' \<notin> set e \<and> (p = o' @ '':'' @ e \<or> CHR '':'' \<notin> set p \<and> o' = p \<and> e = [])"
  unfolding splitPair_def by (rule splitPair_loop_last) auto

lemma splitPair_no_colon: "CHR '':'' \<notin> set (snd (splitPair p))"
  using splitPair_spec [of p "fst (splitPair p)" "snd (splitPair p)"] by simp

text \<open>A pair splits back into its parts exactly when the end-user id has no colon.\<close>

lemma splitPair_eu_pair: "splitPair (eu_pair o' e) = (o', e) \<longleftrightarrow> CHR '':'' \<notin> set e"
proof
  assume "CHR '':'' \<notin> set e"
  obtain o1 e1 where s: "splitPair (eu_pair o' e) = (o1, e1)" by fastforce
  then have "CHR '':'' \<notin> set e1 \<and> eu_pair o' e = o1 @ '':'' @ e1"
    using splitPair_spec [OF s] by (auto simp: eu_pair_def)
  then show "splitPair (eu_pair o' e) = (o', e)"
    using s sep_append_inj_last [of "CHR '':''" e e1 o' o1] \<open>CHR '':'' \<notin> set e\<close> by (simp add: eu_pair_def)
qed (use splitPair_spec in blast)

lemma eu_pair_inj: "CHR '':'' \<notin> set e \<Longrightarrow> CHR '':'' \<notin> set e' \<Longrightarrow> eu_pair a e = eu_pair b e' \<longleftrightarrow> a = b \<and> e = e'"
  using sep_append_inj_last [of "CHR '':''" e e' a b] by (simp add: eu_pair_def)

context backend_up
begin

lemma exists_all_up:
  "exists_all sv ks w = (vals, w') \<Longrightarrow> list_all2 (\<lambda>k v. 0 < v \<longleftrightarrow> kv w k \<noteq> None) ks vals"
proof (induction ks arbitrary: w vals)
  case (Cons k ks)
  obtain n w1 where x: "redis_Exists sv k w = (Inr n, w1)" using exists_up by blast
  obtain vs where vs: "exists_all sv ks w1 = (vs, w')" "vals = n # vs"
    using Cons.prems x by (auto split: prod.splits)
  show ?case
    using Cons.IH [OF vs(1)] vs(2) exists_frame [OF x] exists_ok [OF x] by simp
qed simp

lemma batchOrgPostgres_up:
  assumes "batchOrgPostgres sv ids w = (pg, w')"
  shows "o' \<in> set pg \<longleftrightarrow> o' \<in> set ids \<and> active_org (db w) o'"
proof -
  obtain rows w1 where r: "pg_organizations sv w = (Inr rows, w1)" using orgs_up by blast
  then have "rows = organizations (db w)" using orgs_ok [OF r] by simp
  then show ?thesis
    using assms r by (auto simp: batchOrgPostgres_def active_org_def list_ex_iff split: if_splits)
qed

lemma batchEUPG_up:
  assumes "batchEUPG sv os es w = (pg, w')"
  shows "\<lparr>eur_OrgID = o', eur_EndUserID = e\<rparr> \<in> set pg \<longleftrightarrow> o' \<in> set os \<and> e \<in> set es \<and> member_end_user (db w) o' e"
proof -
  obtain rows w1 where r: "pg_end_users sv w = (Inr rows, w1)" using end_users_up by blast
  then have "rows = end_users (db w)" using end_users_ok [OF r] by simp
  then show ?thesis
    using assms r by (auto simp: batchEUPG_def member_end_user_def list_ex_iff image_iff split: if_splits)
qed

lemma batchOrgCheck_up:
  assumes "batchOrgCheck sv h ids w = (f, w')"
  shows "f o' \<longleftrightarrow> o' \<in> set ids \<and> (kv w (org_key o') \<noteq> None \<or> h_PG h \<and> active_org (db w) o')"
proof -
  obtain vals w1 where v: "exists_all sv (map org_key ids) w = (vals, w1)" by fastforce
  obtain pg w2 where p: "batchOrgPostgres sv (misses ids vals) w1 = (pg, w2)" by fastforce
  have hm: "hits ids vals = filter (\<lambda>i. kv w (org_key i) \<noteq> None) ids"
    "misses ids vals = filter (\<lambda>i. \<not> kv w (org_key i) \<noteq> None) ids"
    using exists_all_up [OF v] hits_misses [of "\<lambda>i. kv w (org_key i) \<noteq> None" ids vals]
    by (simp_all add: list_all2_map1)
  have "f = fst (batchOrgCheck sv h ids w)" using assms by simp
  then show ?thesis
    using batchOrgPostgres_up [OF p, of o'] exists_all_effect(1) [OF v]
    unfolding batchOrgCheck_eq [OF v p]
    by (auto simp: fst_confirm_all hm filter_empty_conv image_image split: if_splits)
qed

lemma batchEUCheck_up:
  assumes "batchEUCheck sv h pairs w = (f, w')" and "CHR '':'' \<notin> set e" and "eu_pair o' e \<in> set pairs"
  shows "f (eu_pair o' e) \<longleftrightarrow> kv w (eu_key o' e) \<noteq> None \<or> h_PG h \<and> member_end_user (db w) o' e"
proof -
  define P where "P = (\<lambda>(o', e). kv w (eu_key o' e) \<noteq> None)"
  obtain vals w1 where v: "exists_all sv (map (\<lambda>(o', e). eu_key o' e) (map splitPair pairs)) w = (vals, w1)"
    by fastforce
  define missing where "missing = misses (map splitPair pairs) vals"
  obtain pg w2 where p: "batchEUPG sv (map fst missing) (map snd missing) w1 = (pg, w2)" by fastforce
  have la: "list_all2 (\<lambda>x v. 0 < v \<longleftrightarrow> P x) (map splitPair pairs) vals"
    using exists_all_up [OF v] by (simp add: list_all2_map1 P_def case_prod_unfold)
  have miss: "missing = filter (\<lambda>x. \<not> P x) (map splitPair pairs)"
    using hits_misses [OF la] by (simp add: missing_def)
  have hit: "hits pairs vals = filter (\<lambda>p. P (splitPair p)) pairs"
    using hits_misses [of "\<lambda>p. P (splitPair p)" pairs vals] la by (simp add: list_all2_map1)
  have sp: "splitPair (eu_pair o' e) = (o', e)" using splitPair_eu_pair assms(2) by simp
  have "eu_pair o' e \<in> fst ` set (eu_entries pg) \<longleftrightarrow>
      o' \<in> fst ` set missing \<and> e \<in> snd ` set missing \<and> member_end_user (db w) o' e"
  proof -
    have "eu_pair (eur_OrgID r) (eur_EndUserID r) = eu_pair o' e \<longleftrightarrow> r = \<lparr>eur_OrgID = o', eur_EndUserID = e\<rparr>"
      if "r \<in> set pg" for r
    proof -
      have "eur_EndUserID r \<in> snd ` set missing" using batchEUPG_effect [OF p] that by auto
      then have "CHR '':'' \<notin> set (eur_EndUserID r)" using splitPair_no_colon by (auto simp: miss)
      then show ?thesis using eu_pair_inj assms(2) by auto
    qed
    then have "eu_pair o' e \<in> fst ` set (eu_entries pg) \<longleftrightarrow> \<lparr>eur_OrgID = o', eur_EndUserID = e\<rparr> \<in> set pg"
      by (force simp: eu_entries_def image_iff)
    then show ?thesis
      using batchEUPG_up [OF p, of o' e] exists_all_effect(1) [OF v] by simp
  qed
  moreover have "f = fst (batchEUCheck sv h pairs w)" using assms(1) by simp
  moreover have "\<not> P (o', e) \<Longrightarrow> (o', e) \<in> set missing"
    using assms(3) sp by (force simp: miss image_iff)
  then have "\<not> P (o', e) \<Longrightarrow> missing \<noteq> [] \<and> o' \<in> fst ` set missing \<and> e \<in> snd ` set missing"
    by force
  ultimately show ?thesis
    using assms(3) sp unfolding batchEUCheck_eq [OF v missing_def [symmetric] p]
    by (auto simp: fst_confirm_all hit P_def split: if_splits)
qed

end

section \<open>The whole endpoint\<close>

lemma subseq_set: "subseq xs ys \<Longrightarrow> set xs \<subseteq> set ys"
  by (induction rule: list_emb.induct) auto

lemma enrich_all_org: "e \<in> set (enrich_all ents kc events) \<Longrightarrow> OrgID e = kc_OrgID kc"
  by (auto simp: enrich_all_def)

lemma run_batch_cases:
  obtains vo w1 ve w2 where
    "batchOrgCheck sv h (collectUniqueOrgIDs (enrich_all ents kc events)) w = (vo, w1)"
    "batchEUCheck sv h (collectUniqueEUPairs (enrich_all ents kc events)) w1 = (ve, w2)"
    "run_batch sv h env ents kc events w =
       processBatchEvents sv env (enrich_all ents kc events) (map EventID (enrich_all ents kc events)) vo ve w2"
proof -
  obtain vo w1 where o1: "batchOrgCheck sv h (collectUniqueOrgIDs (enrich_all ents kc events)) w = (vo, w1)"
    by fastforce
  obtain ve w2 where e1: "batchEUCheck sv h (collectUniqueEUPairs (enrich_all ents kc events)) w1 = (ve, w2)"
    by fastforce
  show thesis using o1 e1 by (rule that) (simp add: run_batch_def o1 e1 Let_def)
qed

lemma run_batch_org:
  assumes "run_batch sv h env ents kc events w = (Some res, w')" and "e \<in> set (Accepted res)"
  shows "OrgID e = kc_OrgID kc"
proof -
  obtain vo ve w2 where "processBatchEvents sv env (enrich_all ents kc events)
      (map EventID (enrich_all ents kc events)) vo ve w2 = (Some res, w')"
    using assms(1) by (metis run_batch_cases)
  from processBatchEvents_accounts(1) [OF this] show ?thesis
    using assms(2) enrich_all_org subseq_set by fastforce
qed

lemma recorded_uncached:
  "same_uncached m m' \<Longrightarrow> recorded m f n x \<longleftrightarrow> recorded m' f n x"
  by (simp add: same_uncached_def recorded_def)

context backend
begin

lemma run_batch_effect:
  assumes "run_batch sv h env ents kc events w = (r, w')"
  shows "db w' = db w \<and> sent w' = sent w \<and> (recorded (kv w) (bf w) n x \<longrightarrow> recorded (kv w') (bf w') n x)"
proof -
  obtain vo w1 ve w2 where
    o1: "batchOrgCheck sv h (collectUniqueOrgIDs (enrich_all ents kc events)) w = (vo, w1)" and
    e1: "batchEUCheck sv h (collectUniqueEUPairs (enrich_all ents kc events)) w1 = (ve, w2)" and
    p: "processBatchEvents sv env (enrich_all ents kc events)
          (map EventID (enrich_all ents kc events)) vo ve w2 = (r, w')"
    using assms by (metis run_batch_cases)
  show ?thesis
    using batchOrgCheck_effect [OF o1] batchEUCheck_effect [OF e1] processBatchEvents_effect [OF p]
      recorded_uncached recorded_grown by metis
qed

lemma publish_batch_effect:
  assumes "batch_publisher_ok sv h" and "w' = publish_batch h es orgID w"
    and "\<forall>e \<in> set es. OrgID e = orgID"
  shows "kv w' = kv w \<and> bf w' = bf w \<and> db w' = db w \<and> sent w' = sent w @ batch_messages h es"
proof (cases "h_PubBatch h")
  case (Some p)
  then have "kafka_publish_batch sv (map raw_message es) orgID w = (fst (p (map raw_message es) orgID w), w')"
    using assms by (auto simp: batch_publisher_ok_def publish_batch_def)
  from publish_batch_frame [OF this] show ?thesis
    using assms(3) by (simp add: batch_messages_def Some)
qed (use assms in \<open>simp add: publish_batch_def batch_messages_def\<close>)

lemma ingest_batch_cases:
  assumes "batch_publisher_ok sv h" and "ingest_batch sv h env ents kc events w = (rep, w')"
  obtains
    (panicked) "rep = Panicked" "run_batch sv h env ents kc events w = (None, w')"
  | (none) res where "rep = Reply (writeError 400 ''NO_VALID_EVENTS'' ''no valid events in batch'')"
      "run_batch sv h env ents kc events w = (Some res, w')" "Accepted res = []"
  | (some) res w3 where "rep = Reply (batch_response res)" "Accepted res \<noteq> []"
      "run_batch sv h env ents kc events w = (Some res, w3)" "kv w' = kv w3" "bf w' = bf w3" "db w' = db w3"
      "sent w' = sent w3 @ batch_messages h (Accepted res)"
proof -
  obtain r w3 where r: "run_batch sv h env ents kc events w = (r, w3)" by fastforce
  show thesis
  proof (cases r)
    case None
    then show thesis using panicked assms(2) r by (simp add: ingest_batch_def)
  next
    case (Some res)
    show thesis
    proof (cases "Accepted res = []")
      case True
      then show thesis using none assms(2) r Some by (simp add: ingest_batch_def)
    next
      case False
      then have "rep = Reply (batch_response res)" "w' = publish_batch h (Accepted res) (kc_OrgID kc) w3"
        using assms(2) r Some by (simp_all add: ingest_batch_def)
      moreover have "\<forall>e \<in> set (Accepted res). OrgID e = kc_OrgID kc"
        using run_batch_org [of sv h env ents kc events w res w3] r Some by simp
      ultimately show thesis
        using some False r Some publish_batch_effect [OF assms(1)] by metis
    qed
  qed
qed

end

end
