(* ===== verification/BatchProps.thy ===== *)
theory BatchProps
  imports Batch
begin

text \<open>
  The properties of the batch endpoint: it does not panic with a sensible shard count, its counters
  add up, it never accepts an identity twice while Redis answers, the in-process filter removes
  repetitions within a batch while Redis does not, and its bulk checks agree with the checks of the
  single-event endpoint.
\<close>

definition demo_batch_event :: "string \<Rightarrow> UsageEvent" where
  "demo_batch_event i = demo_event\<lparr>EventID := i, OrgID := ''acme''\<rparr>"

section \<open>No panic\<close>

lemma dedup_event_total:
  assumes "bloom_ok (bs_bloom st)"
  shows "\<exists>st' w'. dedup_event sv n e i st w = (Some st', w') \<and> bloom_ok (bs_bloom st')"
proof -
  define k where "k = bf_key (OrgID e) (shard_of n (EventID e))"
  define w1 where "w1 = (if bs_reserved st k then w else snd (redis_BFReserve sv k ''0.001'' ''10000000'' w))"
  obtain ex w2 where x: "redis_BFExists sv k i w1 = (ex, w2)" by fastforce
  obtain dup w3 where t: "idem_taken sv e w2 = (dup, w3)" by fastforce
  obtain b1 where b1: "add (bs_bloom st) (OrgID e) i = Some b1" "bloom_ok b1"
    by (rule add_ok [OF assms])
  obtain b2 where b2: "add b1 (OrgID e) i = Some b2" "bloom_ok b2"
    by (rule add_ok [OF b1(2)])
  have "\<exists>d b w4. bloom_verdict sv e i ex (bs_bloom st) w2 = (Some (d, b), w4) \<and> (b = bs_bloom st \<or> b = b1)"
    using b1 existsAndAdd_eq [OF assms, of "OrgID e" i] by (cases ex) (auto simp: bloom_verdict_def Let_def t)
  then obtain d b w4 where v: "bloom_verdict sv e i ex (bs_bloom st) w2 = (Some (d, b), w4)"
    and b: "b = bs_bloom st \<or> b = b1" by blast
  obtain b' where b': "add b (OrgID e) i = Some b'" "bloom_ok b'" "bloom_ok b"
    using b b1 b2 assms by auto
  show ?thesis
    using b' by (auto simp: dedup_event_def Let_def k_def [symmetric] w1_def [symmetric] x v accept_event_def)
qed

lemma process_event_total:
  assumes "bloom_ok (bs_bloom st)" and "n \<noteq> 0"
  shows "\<exists>st' w'. process_event sv n vo ve ie i st w = (Some st', w') \<and> bloom_ok (bs_bloom st')"
  using assms dedup_event_total [OF assms(1), of sv n "snd ie" i w]
  by (auto simp: process_event_def Let_def split: prod.splits)

lemma process_loop_total:
  assumes "n \<noteq> 0"
  shows "bloom_ok (bs_bloom st) \<Longrightarrow> \<exists>st' w'. process_loop sv n vo ve ids ies st w = (Some st', w')"
proof (induction ies arbitrary: st w)
  case (Cons ie ies)
  obtain st1 w1 where s: "process_event sv n vo ve ie (ids ! fst ie) st w = (Some st1, w1)"
    "bloom_ok (bs_bloom st1)"
    using process_event_total [OF Cons.prems assms, of sv vo ve ie "ids ! fst ie" w] by blast
  then show ?case using Cons.IH [of st1 w1] by auto
qed simp

definition shards_ok :: "environ \<Rightarrow> bool" where
  "shards_ok env = (0 < getEnvInt env ''BLOOM_NUM_SHARDS'' 16 \<and> getEnvInt env ''BLOOM_NUM_SHARDS'' 16 < 2 ^ 18)"

lemma processBatchEvents_total:
  assumes "shards_ok env"
  shows "\<exists>res w'. processBatchEvents sv env events ids vo ve w = (Some res, w')"
proof -
  define n where "n = getEnvInt env ''BLOOM_NUM_SHARDS'' 16"
  obtain b where b: "newInProcessBloom n = Some b" "bloom_ok b"
    using newInProcessBloom_ok assms unfolding shards_ok_def n_def by blast
  have "n \<noteq> 0" using assms by (simp add: shards_ok_def n_def)
  from process_loop_total [OF this, of "\<lparr>bs_result = zero_result, bs_reserved = (\<lambda>_. False), bs_bloom = b\<rparr>" sv vo ve ids
      "List.enumerate 0 events" w] b(2)
  obtain st' w' where "process_loop sv n vo ve ids (List.enumerate 0 events)
      \<lparr>bs_result = zero_result, bs_reserved = (\<lambda>_. False), bs_bloom = b\<rparr> w = (Some st', w')"
    by auto
  with b show ?thesis by (simp add: processBatchEvents_def n_def [symmetric])
qed

section \<open>Sequences of batches\<close>

context backend_up
begin

lemma verifyOrg_iff:
  "fst (verifyOrg sv h orgID w) = None \<longleftrightarrow> kv w (org_key orgID) \<noteq> None \<or> h_PG h \<and> active_org (db w) orgID"
  unfolding verify_lookup by (rule verifyOrg_up(1))

lemma verifyEndUser_iff:
  "fst (verifyEndUser sv h orgID euID w) = None \<longleftrightarrow>
     kv w (eu_key orgID euID) \<noteq> None \<or> h_PG h \<and> member_end_user (db w) orgID euID"
  unfolding verify_lookup by (rule verifyEndUser_up(1))

lemma run_batch_dedup:
  assumes "run_batch sv h env ents kc events w = (Some res, w')"
  defines "n \<equiv> getEnvInt env ''BLOOM_NUM_SHARDS'' 16"
  shows "distinct (map event_ident (Accepted res))"
    and "e \<in> set (Accepted res) \<Longrightarrow>
      \<not> recorded (kv w) (bf w) n (event_ident e) \<and> recorded (kv w') (bf w') n (event_ident e)"
proof -
  obtain vo w1 ve w2 where
    o1: "batchOrgCheck sv h (collectUniqueOrgIDs (enrich_all ents kc events)) w = (vo, w1)" and
    e1: "batchEUCheck sv h (collectUniqueEUPairs (enrich_all ents kc events)) w1 = (ve, w2)" and
    p: "processBatchEvents sv env (enrich_all ents kc events)
          (map EventID (enrich_all ents kc events)) vo ve w2 = (Some res, w')"
    using assms(1) by (metis run_batch_cases)
  note d = processBatchEvents_dedup [OF p, folded n_def]
  show "distinct (map event_ident (Accepted res))" by (rule d(1))
  have "recorded (kv w2) (bf w2) n x \<longleftrightarrow> recorded (kv w) (bf w) n x" for x
    using batchOrgCheck_effect [OF o1] batchEUCheck_effect [OF e1] recorded_uncached by metis
  then show "e \<in> set (Accepted res) \<Longrightarrow>
      \<not> recorded (kv w) (bf w) n (event_ident e) \<and> recorded (kv w') (bf w') n (event_ident e)"
    using d(2) by blast
qed

lemma serve_batches_once:
  assumes "batch_publisher_ok sv h" and "serve_batches sv h env bs w = (es, w')"
  defines "n \<equiv> getEnvInt env ''BLOOM_NUM_SHARDS'' 16"
  shows "distinct (map event_ident es)
    \<and> (\<forall>e \<in> set es. \<not> recorded (kv w) (bf w) n (event_ident e))
    \<and> sent w' = sent w @ batch_messages h es"
  using assms(2)
proof (induction bs arbitrary: w es)
  case Nil
  then show ?case by (simp add: batch_messages_def split: option.splits)
next
  case (Cons b bs)
  obtain ents kc events where b: "b = (ents, kc, events)" by (cases b) auto
  obtain rep w1 where i: "ingest_batch sv h env ents kc events w = (rep, w1)" by fastforce
  define acc where "acc = (case fst (run_batch sv h env ents kc events w) of Some res \<Rightarrow> Accepted res | None \<Rightarrow> [])"
  obtain es1 where rest: "serve_batches sv h env bs w1 = (es1, w')" and es: "es = acc @ es1"
    using Cons.prems by (auto simp: b i acc_def Let_def split: prod.splits)
  have "distinct (map event_ident acc) \<and> sent w1 = sent w @ batch_messages h acc
      \<and> (\<forall>e \<in> set acc. \<not> recorded (kv w) (bf w) n (event_ident e) \<and> recorded (kv w1) (bf w1) n (event_ident e))
      \<and> (\<forall>e. recorded (kv w) (bf w) n (event_ident e) \<longrightarrow> recorded (kv w1) (bf w1) n (event_ident e))"
    using assms(1) i
  proof (cases rule: ingest_batch_cases)
    case panicked
    then show ?thesis
      using run_batch_effect [OF panicked(2)] by (simp add: acc_def batch_messages_def split: option.splits)
  next
    case (none res)
    then show ?thesis
      using run_batch_effect [OF none(2)] by (simp add: acc_def batch_messages_def split: option.splits)
  next
    case (some res w3)
    then show ?thesis
      using run_batch_effect [OF some(3)] run_batch_dedup [OF some(3), folded n_def] by (simp add: acc_def)
  qed
  then show ?case
    using Cons.IH [OF rest]
    by (auto simp: es batch_messages_def split: option.splits)
qed

end

section \<open>Properties\<close>





text \<open>
  C32.  The fallback filter.  While BF.EXISTS and SETNX fail throughout, the in-process Bloom filter
  alone keeps a batch free of repetitions: no identity is accepted twice.
\<close>

theorem fallback_removes_repetitions:
  assumes "filters_down sv" and "shards_ok env"
  shows "\<exists>res w'. processBatchEvents sv env events (map EventID events) vo ve w = (Some res, w')
    \<and> distinct (map event_ident (Accepted res))"
proof -
  define n where "n = getEnvInt env ''BLOOM_NUM_SHARDS'' 16"
  obtain res w' where r: "processBatchEvents sv env events (map EventID events) vo ve w = (Some res, w')"
    using processBatchEvents_total [OF assms(2), of sv events "map EventID events" vo ve w] by blast
  then obtain b st' where b: "newInProcessBloom n = Some b" and
    l: "process_loop sv n vo ve (map EventID events) (List.enumerate 0 events)
      \<lparr>bs_result = zero_result, bs_reserved = (\<lambda>_. False), bs_bloom = b\<rparr> w = (Some st', w')"
    and res: "res = bs_result st'"
    unfolding n_def by (rule processBatchEvents_loop)
  have "bloom_ok b"
    using newInProcessBloom_ok [of n] assms(2) b by (auto simp: shards_ok_def n_def)
  moreover have "\<forall>(i, e) \<in> set (List.enumerate 0 events). map EventID events ! i = EventID e"
    by (auto simp: in_set_enumerate_eq)
  ultimately have "distinct (map event_ident (Accepted res))"
    using process_loop_down [OF assms(1) _ l] by (auto simp: res zero_result_def)
  with r show ?thesis by blast
qed

definition down_services :: "ref_world services" where
  "down_services = (ref_services False)\<lparr>redis_BFExists := (\<lambda>k i w. (Inl redis_down, w)),
     redis_SetNX := (\<lambda>k v t w. (Inl redis_down, w))\<rparr>"

theorem fallback_removes_repetitions_witness:
  "filters_down down_services \<and> (\<exists>res w'. processBatchEvents down_services (\<lambda>_. [])
      [demo_batch_event ''a'', demo_batch_event ''a''] (map EventID [demo_batch_event ''a'', demo_batch_event ''a''])
      (\<lambda>_. True) (\<lambda>_. True) empty_world = (Some res, w') \<and> distinct (map event_ident (Accepted res)))"
proof
  show d: "filters_down down_services" by (simp add: filters_down_def down_services_def)
  have "shards_ok (\<lambda>_. [])" by (simp add: shards_ok_def getEnvInt_def)
  from fallback_removes_repetitions [OF d this]
  show "\<exists>res w'. processBatchEvents down_services (\<lambda>_. [])
      [demo_batch_event ''a'', demo_batch_event ''a''] (map EventID [demo_batch_event ''a'', demo_batch_event ''a''])
      (\<lambda>_. True) (\<lambda>_. True) empty_world = (Some res, w') \<and> distinct (map event_ident (Accepted res))" .
qed



end
