(* ===== verification/IngestSteps.thy ===== *)
theory IngestSteps
  imports BatchProps
begin

text \<open>
  The two ingest handlers of \<^verbatim>\<open>engine/internal/handler\<close> at the grain of single commands.  Redis and
  Postgres serve one command at a time, so a handler that runs beside others is a machine whose
  steps each send one command: the program counter says which one comes next and carries the local
  variables.  The lemmas show that a machine that runs alone computes exactly what \<open>ingest_event\<close> and
  \<open>ingest_batch\<close> compute; \<open>IngestConc\<close> interleaves the machines.
\<close>

section \<open>The single-event handler\<close>

datatype single_pc =
    TakeKey UsageEvent
  | OrgCache UsageEvent
  | OrgQuery UsageEvent
  | OrgFill UsageEvent
  | EuCache UsageEvent
  | EuQuery UsageEvent
  | EuFill UsageEvent
  | GiveBack UsageEvent response
  | Publishing UsageEvent string
  | Answered response

definition unknown_org :: "UsageEvent \<Rightarrow> response" where
  "unknown_org e = writeError 403 ''UNKNOWN_ORG'' (''organization '' @ OrgID e @ '' not found'')"

definition foreign_end_user :: "UsageEvent \<Rightarrow> response" where
  "foreign_end_user e = writeError 422 ''END_USER_NOT_IN_ORG''
     (''end_user '' @ EndUserID e @ '' does not belong to org '' @ OrgID e)"

text \<open>Where the handler goes on once the end user, and once the organisation, is confirmed.\<close>

definition after_checks :: "UsageEvent \<Rightarrow> single_pc" where
  "after_checks e =
     (case marshal_event e of
        None \<Rightarrow> GiveBack e (writeError 500 ''INTERNAL_ERROR'' ''failed to serialize event'')
      | Some msgBytes \<Rightarrow> Publishing e msgBytes)"

definition after_org :: "UsageEvent \<Rightarrow> single_pc" where
  "after_org e = (if EndUserID e \<noteq> [] then EuCache e else after_checks e)"

definition cache_hit :: "(redis_error, int) result \<Rightarrow> bool" where
  "cache_hit x = (case x of Inr n \<Rightarrow> 0 < n | Inl _ \<Rightarrow> False)"

fun single_step ::
  "'w services \<Rightarrow> 'w IngestHandler \<Rightarrow> environ \<Rightarrow> single_pc \<Rightarrow> 'w \<Rightarrow> single_pc \<times> 'w" where
  "single_step sv h env (TakeKey e) w =
     (case redis_SetNX sv (event_key e) ''1''
             (getEnvDuration env ''IDEMPOTENCY_TTL'' DefaultIdempotencyTTL) w of
        (Inl _, w') \<Rightarrow>
          (Answered (writeError 503 ''SERVICE_UNAVAILABLE'' ''idempotency service unavailable''), w')
      | (Inr ok, w') \<Rightarrow>
          (if ok then OrgCache e
           else Answered (writeError 409 ''DUPLICATE_EVENT'' (''event '' @ EventID e @ '' already processed'')),
           w'))"
| "single_step sv h env (OrgCache e) w =
     (let (exists, w') = redis_Exists sv (org_key (OrgID e)) w
      in (if cache_hit exists then after_org e
          else if h_PG h then OrgQuery e else GiveBack e (unknown_org e), w'))"
| "single_step sv h env (OrgQuery e) w =
     (let (ok, w') = OrgExists sv (OrgID e) w
      in (if ok = Inr True then OrgFill e else GiveBack e (unknown_org e), w'))"
| "single_step sv h env (OrgFill e) w =
     (after_org e, snd (redis_Set sv (org_key (OrgID e)) ''1'' Hour w))"
| "single_step sv h env (EuCache e) w =
     (let (exists, w') = redis_Exists sv (eu_key (OrgID e) (EndUserID e)) w
      in (if cache_hit exists then after_checks e
          else if h_PG h then EuQuery e else GiveBack e (foreign_end_user e), w'))"
| "single_step sv h env (EuQuery e) w =
     (let (ok, w') = EndUserInOrg sv (OrgID e) (EndUserID e) w
      in (if ok = Inr True then EuFill e else GiveBack e (foreign_end_user e), w'))"
| "single_step sv h env (EuFill e) w =
     (after_checks e, snd (redis_Set sv (eu_key (OrgID e) (EndUserID e)) ''1'' Hour w))"
| "single_step sv h env (GiveBack e resp) w =
     (Answered resp, snd (redis_Del sv (event_key e) w))"
| "single_step sv h env (Publishing e msgBytes) w =
     (Answered (accepted_response e), publish_event h msgBytes (OrgID e) w)"
| "single_step sv h env (Answered resp) w = (Answered resp, w)"

section \<open>The batch handler\<close>

text \<open>
  A batch once its bulk checks are done: their verdicts, the number of shards and the organisation
  of the key.  The loop variable \<open>eventIDs[i]\<close> is the id of \<open>events[i]\<close>.  A step of \<open>AtEvent\<close> either
  counts a failed check, or sends \<^verbatim>\<open>BF.RESERVE\<close> unless the shard is reserved.
\<close>

record batch_job =
  bj_orgs :: "string \<Rightarrow> bool"
  bj_eus :: "string \<Rightarrow> bool"
  bj_shards :: int
  bj_OrgID :: string

datatype batch_pc =
    AtEvent batch_state "(nat \<times> UsageEvent) list"
  | AskBloom batch_state UsageEvent "(nat \<times> UsageEvent) list"
  | AskIdem batch_state UsageEvent "(redis_error, int) result" "(nat \<times> UsageEvent) list"
  | AddBloom batch_state UsageEvent "(redis_error, int) result" "(nat \<times> UsageEvent) list"
  | AddIdem batch_state UsageEvent "(nat \<times> UsageEvent) list"
  | BatchPublish BatchResult
  | BatchAnswered reply

definition job_bf_key :: "batch_job \<Rightarrow> UsageEvent \<Rightarrow> string" where
  "job_bf_key j e = bf_key (OrgID e) (shard_of (bj_shards j) (EventID e))"

definition batch_start :: "batch_job \<Rightarrow> UsageEvent list \<Rightarrow> batch_pc" where
  "batch_start j events =
     (case newInProcessBloom (bj_shards j) of
        None \<Rightarrow> BatchAnswered Panicked
      | Some b \<Rightarrow>
          AtEvent \<lparr>bs_result = zero_result, bs_reserved = (\<lambda>_. False), bs_bloom = b\<rparr>
            (List.enumerate 0 events))"

definition accept_in :: "UsageEvent \<Rightarrow> batch_state \<Rightarrow> batch_state" where
  "accept_in e st =
     st\<lparr>bs_result := (bs_result st)\<lparr>Accepted := Accepted (bs_result st) @ [e]\<rparr>\<rparr>"

definition duplicate_in :: "batch_state \<Rightarrow> batch_state" where
  "duplicate_in st = st\<lparr>bs_result := count_duplicate (bs_result st)\<rparr>"

fun batch_step ::
  "'w services \<Rightarrow> 'w IngestHandler \<Rightarrow> batch_job \<Rightarrow> batch_pc \<Rightarrow> 'w \<Rightarrow> batch_pc \<times> 'w" where
  "batch_step sv h j (AtEvent st []) w =
     (if Accepted (bs_result st) = []
      then BatchAnswered (Reply (writeError 400 ''NO_VALID_EVENTS'' ''no valid events in batch''))
      else BatchPublish (bs_result st), w)"
| "batch_step sv h j (AtEvent st ((i, e) # rest)) w =
     (let res = bs_result st; bfKey = job_bf_key j e in
      if \<not> bj_orgs j (OrgID e) then
        (AtEvent (st\<lparr>bs_result := (count_failure i ''UNKNOWN_ORG'' e res)
           \<lparr>UnknownOrgCount := UnknownOrgCount res + 1\<rparr>\<rparr>) rest, w)
      else if EndUserID e \<noteq> [] \<and> \<not> bj_eus j (eu_pair (OrgID e) (EndUserID e)) then
        (AtEvent (st\<lparr>bs_result := (count_failure i ''END_USER_NOT_IN_ORG'' e res)
           \<lparr>UserNotInOrgCount := UserNotInOrgCount res + 1\<rparr>\<rparr>) rest, w)
      else if bj_shards j = 0 then (BatchAnswered Panicked, w)
      else (AskBloom (st\<lparr>bs_reserved := (bs_reserved st)(bfKey := True)\<rparr>) e rest,
            if bs_reserved st bfKey then w
            else snd (redis_BFReserve sv bfKey ''0.001'' ''10000000'' w)))"
| "batch_step sv h j (AskBloom st e rest) w =
     (let (exists, w') = redis_BFExists sv (job_bf_key j e) (EventID e) w in
      case exists of
        Inl _ \<Rightarrow>
          (case existsAndAdd (bs_bloom st) (OrgID e) (EventID e) of
             None \<Rightarrow> (BatchAnswered Panicked, w')
           | Some (seen, b) \<Rightarrow>
               (if seen then AskIdem (st\<lparr>bs_bloom := b\<rparr>) e exists rest
                else AddBloom (st\<lparr>bs_bloom := b\<rparr>) e exists rest, w'))
      | Inr n \<Rightarrow> (if n = 1 then AskIdem st e exists rest else AddBloom st e exists rest, w'))"
| "batch_step sv h j (AskIdem st e exists rest) w =
     (let (dup, w') = idem_taken sv e w
      in (if dup then AtEvent (duplicate_in st) rest else AddBloom st e exists rest, w'))"
| "batch_step sv h j (AddBloom st e exists rest) w =
     (let w' = snd (redis_BFAdd sv (job_bf_key j e) (EventID e) w) in
      case add (bs_bloom st) (OrgID e) (EventID e) of
        None \<Rightarrow> (BatchAnswered Panicked, w')
      | Some b \<Rightarrow>
          (if (case exists of Inr n \<Rightarrow> n | Inl _ \<Rightarrow> 0) = 0 then AddIdem (st\<lparr>bs_bloom := b\<rparr>) e rest
           else AtEvent (accept_in e (st\<lparr>bs_bloom := b\<rparr>)) rest, w'))"
| "batch_step sv h j (AddIdem st e rest) w =
     (AtEvent (accept_in e st) rest,
      snd (redis_SetNX sv (event_key e) ''1'' DefaultIdempotencyTTL w))"
| "batch_step sv h j (BatchPublish res) w =
     (BatchAnswered (Reply (batch_response res)),
      publish_batch h (Accepted res) (bj_OrgID j) w)"
| "batch_step sv h j (BatchAnswered rep) w = (BatchAnswered rep, w)"

section \<open>Running alone\<close>

definition alone :: "('p \<Rightarrow> 'w \<Rightarrow> 'p \<times> 'w) \<Rightarrow> nat \<Rightarrow> 'p \<times> 'w \<Rightarrow> 'p \<times> 'w" where
  "alone step n = (\<lambda>(pc, w). step pc w) ^^ n"

lemma alone_0 [simp]: "alone step 0 c = c"
  by (simp add: alone_def)

lemma alone_Suc [simp]: "alone step (Suc n) (pc, w) = alone step n (step pc w)"
  by (simp add: alone_def funpow_swap1)

lemma alone_numeral [simp]: "alone step (numeral k) (pc, w) = alone step (pred_numeral k) (step pc w)"
  by (simp add: numeral_eq_Suc)

lemma alone_add: "alone step (m + n) c = alone step n (alone step m c)"
  by (simp add: alone_def add.commute [of m] funpow_add)

lemma alone_answered [simp]: "alone (single_step sv h env) n (Answered r, w) = (Answered r, w)"
  by (induction n) auto

lemma alone_batch_answered [simp]: "alone (batch_step sv h j) n (BatchAnswered r, w) = (BatchAnswered r, w)"
  by (induction n) auto

lemma step_after_checks:
  "single_step sv h env (after_checks e) w =
     (case marshal_event e of
        None \<Rightarrow> (Answered (writeError 500 ''INTERNAL_ERROR'' ''failed to serialize event''),
                  snd (redis_Del sv (event_key e) w))
      | Some msg \<Rightarrow> (Answered (accepted_response e), publish_event h msg (OrgID e) w))"
  by (simp add: after_checks_def split: option.splits)

lemma alone_after_checks:
  "alone (single_step sv h env) (Suc n) (after_checks e, w) = single_step sv h env (after_checks e) w"
  by (simp add: step_after_checks split: option.splits)

lemma alone_eu:
  "alone (single_step sv h env) (Suc (Suc (Suc (Suc n)))) (EuCache e, w) =
     (case verifyEndUser sv h (OrgID e) (EndUserID e) w of
        (Some _, w') \<Rightarrow> (Answered (foreign_end_user e), snd (redis_Del sv (event_key e) w'))
      | (None, w') \<Rightarrow> single_step sv h env (after_checks e) w')"
  by (auto simp: verifyEndUser_def cache_hit_def step_after_checks Let_def
      split: prod.splits sum.splits option.splits)

lemma alone_after_org:
  "alone (single_step sv h env) (Suc (Suc (Suc (Suc n)))) (after_org e, w) =
     (case check_end_user sv h e w of
        (Some _, w') \<Rightarrow> (Answered (foreign_end_user e), snd (redis_Del sv (event_key e) w'))
      | (None, w') \<Rightarrow> single_step sv h env (after_checks e) w')"
  by (cases "EndUserID e = []")
     (simp_all add: after_org_def check_end_user_def alone_eu alone_after_checks del: alone_Suc)

lemmas org_steps =
  alone_Suc [of _ _ "OrgCache e" for e] alone_Suc [of _ _ "OrgQuery e" for e]
  alone_Suc [of _ _ "OrgFill e" for e] alone_Suc [of _ _ "GiveBack e r" for e r]

lemma alone_org:
  "alone (single_step sv h env) (Suc (Suc (Suc (Suc (Suc (Suc (Suc n))))))) (OrgCache e, w) =
     (case verifyOrg sv h (OrgID e) w of
        (Some _, w') \<Rightarrow> (Answered (unknown_org e), snd (redis_Del sv (event_key e) w'))
      | (None, w') \<Rightarrow> alone (single_step sv h env) (Suc (Suc (Suc (Suc n)))) (after_org e, w'))"
  by (auto simp: org_steps alone_after_org verifyOrg_def cache_hit_def Let_def simp del: alone_Suc
      split: prod.splits sum.splits)

lemma alone_admit:
  "alone (single_step sv h env) (Suc (Suc (Suc (Suc (Suc (Suc (Suc n))))))) (OrgCache e, w)
   = map_prod Answered id (admit_event sv h (event_key e) e w)"
  unfolding alone_org alone_after_org step_after_checks admit_event_def
  by (simp add: unknown_org_def foreign_end_user_def split: prod.splits option.splits)

lemma single_alone:
  "alone (single_step sv h env) 8 (TakeKey e, w) = map_prod Answered id (ingest_event sv h env e w)"
proof -
  have eight: "(8::nat) = Suc (Suc (Suc (Suc (Suc (Suc (Suc (Suc 0)))))))" by simp
  show ?thesis
    unfolding eight
    by (auto simp: alone_Suc [of _ _ "TakeKey e"] alone_admit ingest_event_def event_key_def Let_def
        simp del: alone_Suc split: prod.splits sum.splits)
qed

text \<open>Some number of steps leads from one configuration to another.\<close>

definition runs :: "('p \<Rightarrow> 'w \<Rightarrow> 'p \<times> 'w) \<Rightarrow> 'p \<times> 'w \<Rightarrow> 'p \<times> 'w \<Rightarrow> bool" where
  "runs step c c' = (\<exists>n. alone step n c = c')"

lemma runs_refl [simp]: "runs step c c"
  by (metis alone_0 runs_def)

lemma runs_step: "runs step (step pc w) c' \<Longrightarrow> runs step (pc, w) c'"
  by (metis alone_Suc runs_def)

lemma runs_trans: "runs step c c1 \<Longrightarrow> runs step c1 c2 \<Longrightarrow> runs step c c2"
  by (metis alone_add runs_def)

lemma runs_last: "step pc w = c' \<Longrightarrow> runs step (pc, w) c'"
  by (metis runs_refl runs_step)

definition event_outcome :: "(nat \<times> UsageEvent) list \<Rightarrow> batch_state option \<times> 'w \<Rightarrow> batch_pc \<times> 'w" where
  "event_outcome rest x =
     (case x of (None, w) \<Rightarrow> (BatchAnswered Panicked, w) | (Some st, w) \<Rightarrow> (AtEvent st rest, w))"

lemma runs_add:
  "runs (batch_step sv h j) (AddBloom st e exists rest, w)
     (event_outcome rest (accept_event sv e (EventID e) (job_bf_key j e) exists (bs_bloom st) st w))"
proof (cases "add (bs_bloom st) (OrgID e) (EventID e)")
  case None
  then show ?thesis by (intro runs_last) (simp add: accept_event_def event_outcome_def Let_def)
next
  case (Some b)
  show ?thesis
  proof (cases "(case exists of Inr n \<Rightarrow> n | Inl _ \<Rightarrow> 0) = 0")
    case True
    then show ?thesis
      using Some by (intro runs_step, simp, intro runs_last)
        (simp add: accept_event_def event_outcome_def accept_in_def event_key_def Let_def)
  next
    case False
    then show ?thesis
      using Some by (intro runs_last) (simp add: accept_event_def event_outcome_def accept_in_def Let_def)
  qed
qed

lemma runs_idem:
  "runs (batch_step sv h j) (AskIdem st e exists rest, w)
     (case idem_taken sv e w of
        (True, w') \<Rightarrow> (AtEvent (duplicate_in st) rest, w')
      | (False, w') \<Rightarrow>
          event_outcome rest (accept_event sv e (EventID e) (job_bf_key j e) exists (bs_bloom st) st w'))"
  using runs_add by (intro runs_step) (auto split: prod.splits)

lemma runs_ask:
  "runs (batch_step sv h j) (AskBloom st e rest, w)
     (let (exists, w1) = redis_BFExists sv (job_bf_key j e) (EventID e) w in
      case bloom_verdict sv e (EventID e) exists (bs_bloom st) w1 of
        (None, w2) \<Rightarrow> (BatchAnswered Panicked, w2)
      | (Some (dup, b), w2) \<Rightarrow>
          if dup then (AtEvent (duplicate_in (st\<lparr>bs_bloom := b\<rparr>)) rest, w2)
          else event_outcome rest (accept_event sv e (EventID e) (job_bf_key j e) exists b (st\<lparr>bs_bloom := b\<rparr>) w2))"
proof -
  obtain exists w1 where ex: "redis_BFExists sv (job_bf_key j e) (EventID e) w = (exists, w1)" by fastforce
  have id: "st\<lparr>bs_bloom := bs_bloom st\<rparr> = st" by simp
  note idem = runs_idem [of sv h j _ e exists rest w1] and ad = runs_add [of sv h j _ e exists rest w1]
  show ?thesis
    using idem [of st] idem [of "st\<lparr>bs_bloom := b\<rparr>" for b] ad [of st] ad [of "st\<lparr>bs_bloom := b\<rparr>" for b] ex
    by (intro runs_step) (auto simp: bloom_verdict_def split: prod.splits sum.splits option.splits bool.splits)
qed

lemma accept_event_bloom [simp]:
  "accept_event sv e eid k exists b (st\<lparr>bs_bloom := b'\<rparr>) w = accept_event sv e eid k exists b st w"
  by (simp add: accept_event_def Let_def split: option.splits)

lemma runs_event:
  "runs (batch_step sv h j) (AtEvent st ((i, e) # rest), w)
     (event_outcome rest (process_event sv (bj_shards j) (bj_orgs j) (bj_eus j) (i, e) (EventID e) st w))"
proof (cases "reject_code (bj_orgs j) (bj_eus j) e = None \<and> bj_shards j \<noteq> 0")
  case False
  then show ?thesis
    by (intro runs_last)
       (auto simp: process_event_def event_outcome_def reject_code_def Let_def split: if_splits)
next
  case True
  define st1 where "st1 = st\<lparr>bs_reserved := (bs_reserved st)(job_bf_key j e := True)\<rparr>"
  define w1 where "w1 = (if bs_reserved st (job_bf_key j e) then w
    else snd (redis_BFReserve sv (job_bf_key j e) ''0.001'' ''10000000'' w))"
  have "batch_step sv h j (AtEvent st ((i, e) # rest)) w = (AskBloom st1 e rest, w1)"
    using True by (auto simp: st1_def w1_def reject_code_def Let_def split: if_splits)
  moreover have "process_event sv (bj_shards j) (bj_orgs j) (bj_eus j) (i, e) (EventID e) st w
      = dedup_event sv (bj_shards j) e (EventID e) st w"
    using True by (auto simp: process_event_def reject_code_def split: if_splits)
  moreover obtain exists w2 where ex: "redis_BFExists sv (job_bf_key j e) (EventID e) w1 = (exists, w2)"
    by fastforce
  moreover obtain v w3 where v: "bloom_verdict sv e (EventID e) exists (bs_bloom st) w2 = (v, w3)"
    by fastforce
  moreover have "dedup_event sv (bj_shards j) e (EventID e) st w =
      (case v of None \<Rightarrow> (None, w3)
       | Some (dup, b) \<Rightarrow> if dup then (Some (duplicate_in (st1\<lparr>bs_bloom := b\<rparr>)), w3)
           else accept_event sv e (EventID e) (job_bf_key j e) exists b st1 w3)"
    unfolding dedup_event_def Let_def job_bf_key_def [symmetric] w1_def [symmetric]
    by (simp add: ex v st1_def duplicate_in_def split: option.splits)
  moreover have "bs_bloom st1 = bs_bloom st" by (simp add: st1_def)
  ultimately show ?thesis
    using runs_ask [of sv h j st1 e rest w1]
    by (intro runs_step) (cases v, auto simp: event_outcome_def split: if_splits)
qed

lemma runs_loop:
  assumes "\<forall>(i, e) \<in> set ies. ids ! i = EventID e"
  shows "runs (batch_step sv h j) (AtEvent st ies, w)
    (event_outcome [] (process_loop sv (bj_shards j) (bj_orgs j) (bj_eus j) ids ies st w))"
  using assms
proof (induction ies arbitrary: st w)
  case (Cons ie ies)
  obtain i e where ie: "ie = (i, e)" "ids ! i = EventID e" using Cons.prems by fastforce
  obtain x w1 where x: "process_event sv (bj_shards j) (bj_orgs j) (bj_eus j) (i, e) (EventID e) st w = (x, w1)"
    by fastforce
  note ev = runs_event [of sv h j st i e ies w, unfolded x]
  show ?case
  proof (cases x)
    case None
    then show ?thesis using ev x ie by (simp add: event_outcome_def)
  next
    case (Some st1)
    then show ?thesis
      using ev x ie Cons.IH [of st1 w1] Cons.prems by (auto simp: event_outcome_def intro: runs_trans)
  qed
qed (simp add: event_outcome_def)

text \<open>The job of a batch, from its enriched events and the verdicts of the bulk checks.\<close>

definition job_of ::
  "environ \<Rightarrow> KeyContext \<Rightarrow> (string \<Rightarrow> bool) \<Rightarrow> (string \<Rightarrow> bool) \<Rightarrow> batch_job" where
  "job_of env kc vo ve = \<lparr>bj_orgs = vo, bj_eus = ve,
     bj_shards = getEnvInt env ''BLOOM_NUM_SHARDS'' 16, bj_OrgID = kc_OrgID kc\<rparr>"

lemma batch_alone:
  assumes "batchOrgCheck sv h (collectUniqueOrgIDs (enrich_all ents kc events)) w = (vo, w1)"
    and "batchEUCheck sv h (collectUniqueEUPairs (enrich_all ents kc events)) w1 = (ve, w2)"
  shows "runs (batch_step sv h (job_of env kc vo ve))
    (batch_start (job_of env kc vo ve) (enrich_all ents kc events), w2)
    (map_prod BatchAnswered id (ingest_batch sv h env ents kc events w))"
proof -
  define j where "j = job_of env kc vo ve"
  define es where "es = enrich_all ents kc events"
  have run: "run_batch sv h env ents kc events w = processBatchEvents sv env es (map EventID es) vo ve w2"
    using assms by (simp add: run_batch_def es_def Let_def)
  have ids: "\<forall>(i, e) \<in> set (List.enumerate 0 es). map EventID es ! i = EventID e"
    by (auto simp: in_set_enumerate_eq)
  show ?thesis
  proof (cases "newInProcessBloom (bj_shards j)")
    case None
    then show ?thesis
      using run by (simp add: batch_start_def j_def [symmetric] ingest_batch_def processBatchEvents_def)
        (simp add: j_def job_of_def)
  next
    case (Some b)
    define st where "st = \<lparr>bs_result = zero_result, bs_reserved = (\<lambda>_. False), bs_bloom = b\<rparr>"
    obtain x w3 where x: "process_loop sv (bj_shards j) vo ve (map EventID es) (List.enumerate 0 es) st w2 = (x, w3)"
      by fastforce
    have loop: "runs (batch_step sv h j) (batch_start j es, w2) (event_outcome [] (x, w3))"
      using runs_loop [OF ids, of sv h j st w2] x Some by (simp add: batch_start_def st_def j_def job_of_def)
    have res: "run_batch sv h env ents kc events w = (map_option bs_result x, w3)"
      using run Some x by (simp add: processBatchEvents_def st_def j_def job_of_def)
    have "runs (batch_step sv h j) (event_outcome [] (x, w3))
        (map_prod BatchAnswered id (ingest_batch sv h env ents kc events w))"
    proof (cases x)
      case None
      then show ?thesis using res by (simp add: event_outcome_def ingest_batch_def)
    next
      case (Some st')
      show ?thesis
      proof (cases "Accepted (bs_result st') = []")
        case True
        then show ?thesis
          using res Some by (simp add: event_outcome_def ingest_batch_def) (rule runs_last, simp)
      next
        case False
        then show ?thesis
          using res Some
          by (simp add: event_outcome_def ingest_batch_def)
             (rule runs_step, simp, rule runs_last, simp add: j_def job_of_def)
      qed
    qed
    with loop show ?thesis unfolding j_def es_def by (rule runs_trans)
  qed
qed

section \<open>Property\<close>


end
