(* ===== verification/IngestConc.thy ===== *)
theory IngestConc
  imports IngestSteps
begin

text \<open>
  Any number of ingest handlers at once, in one or several processes that share Redis, Postgres and
  the topic: the command-level machines of \<open>IngestSteps\<close>, interleaved.  Besides the steps of the
  handlers, an idempotency key may expire, a handler may disappear at any moment (its process exits
  or is killed), and the rest of the system may change everything but idempotency keys and the
  messages sent.
\<close>

section \<open>The system\<close>

datatype thread = Single single_pc | Batch batch_job batch_pc

text \<open>What the publisher has been given, by which endpoint.\<close>

datatype acceptance = One UsageEvent | Many string "UsageEvent list"

record 'w system =
  sys_world :: 'w
  sys_threads :: "thread list"
  sys_log :: "acceptance list"
  sys_expired :: "string list"

definition sys_start :: "'w \<Rightarrow> 'w system" where
  "sys_start w = \<lparr>sys_world = w, sys_threads = [], sys_log = [], sys_expired = []\<rparr>"

fun thread_step ::
  "'w services \<Rightarrow> 'w IngestHandler \<Rightarrow> environ \<Rightarrow> thread \<Rightarrow> 'w \<Rightarrow> thread \<times> 'w" where
  "thread_step sv h env (Single pc) w = map_prod Single id (single_step sv h env pc w)"
| "thread_step sv h env (Batch j pc) w = map_prod (Batch j) id (batch_step sv h j pc w)"

fun accepts :: "thread \<Rightarrow> acceptance list" where
  "accepts (Single (Publishing e msg)) = [One e]"
| "accepts (Batch j (BatchPublish res)) = [Many (bj_OrgID j) (Accepted res)]"
| "accepts _ = []"

definition move :: "'w services \<Rightarrow> 'w IngestHandler \<Rightarrow> environ \<Rightarrow> nat \<Rightarrow> 'w system \<Rightarrow> 'w system" where
  "move sv h env i S =
     (let t = sys_threads S ! i; (t', w') = thread_step sv h env t (sys_world S)
      in S\<lparr>sys_world := w', sys_threads := (sys_threads S)[i := t'], sys_log := sys_log S @ accepts t\<rparr>)"

inductive system_step ::
  "'w services \<Rightarrow> 'w IngestHandler \<Rightarrow> environ \<Rightarrow> ('w \<Rightarrow> string \<Rightarrow> string option)
   \<Rightarrow> ('w \<Rightarrow> (string \<times> string) list) \<Rightarrow> 'w system \<Rightarrow> 'w system \<Rightarrow> bool"
  for sv h env kv sent where
  sy_single: "Validate e = None \<Longrightarrow>
     system_step sv h env kv sent S (S\<lparr>sys_threads := sys_threads S @ [Single (TakeKey e)]\<rparr>)"
| sy_batch:
    "system_step sv h env kv sent S (S\<lparr>sys_threads := sys_threads S @ [Batch j (batch_start j events)]\<rparr>)"
| sy_move: "i < length (sys_threads S) \<Longrightarrow> system_step sv h env kv sent S (move sv h env i S)"
| sy_cut: "i < length (sys_threads S) \<Longrightarrow>
     system_step sv h env kv sent S
       (S\<lparr>sys_threads := take i (sys_threads S) @ drop (Suc i) (sys_threads S)\<rparr>)"
| sy_expire: "kv w' = (kv (sys_world S))(k := None) \<Longrightarrow> sent w' = sent (sys_world S) \<Longrightarrow>
     system_step sv h env kv sent S (S\<lparr>sys_world := w', sys_expired := k # sys_expired S\<rparr>)"
| sy_other: "(\<And>o' i. kv w' (idem_key o' i) = kv (sys_world S) (idem_key o' i)) \<Longrightarrow>
     sent w' = sent (sys_world S) \<Longrightarrow> system_step sv h env kv sent S (S\<lparr>sys_world := w'\<rparr>)"

inductive system_reach ::
  "'w services \<Rightarrow> 'w IngestHandler \<Rightarrow> environ \<Rightarrow> ('w \<Rightarrow> string \<Rightarrow> string option)
   \<Rightarrow> ('w \<Rightarrow> (string \<times> string) list) \<Rightarrow> 'w system \<Rightarrow> 'w system \<Rightarrow> bool"
  for sv h env kv sent S0 where
  sr_init: "system_reach sv h env kv sent S0 S0"
| sr_step: "system_reach sv h env kv sent S0 S \<Longrightarrow> system_step sv h env kv sent S S' \<Longrightarrow>
     system_reach sv h env kv sent S0 S'"

text \<open>A schedule: the indices of the handlers that move, in order.\<close>

fun schedule :: "'w services \<Rightarrow> 'w IngestHandler \<Rightarrow> environ \<Rightarrow> nat list \<Rightarrow> 'w system \<Rightarrow> 'w system" where
  "schedule sv h env [] S = S"
| "schedule sv h env (i # is) S =
     schedule sv h env is (if i < length (sys_threads S) then move sv h env i S else S)"

section \<open>Counting\<close>

text \<open>
  The idempotency key that a handler has taken and has neither given back nor turned into a message;
  and how often an event was accepted under a key by the single-event endpoint.
\<close>

fun held :: "thread \<Rightarrow> string option" where
  "held (Single (TakeKey e)) = None"
| "held (Single (Answered r)) = None"
| "held (Single (OrgCache e)) = Some (event_key e)"
| "held (Single (OrgQuery e)) = Some (event_key e)"
| "held (Single (OrgFill e)) = Some (event_key e)"
| "held (Single (EuCache e)) = Some (event_key e)"
| "held (Single (EuQuery e)) = Some (event_key e)"
| "held (Single (EuFill e)) = Some (event_key e)"
| "held (Single (GiveBack e r)) = Some (event_key e)"
| "held (Single (Publishing e m)) = Some (event_key e)"
| "held (Batch j pc) = None"

definition holders :: "string \<Rightarrow> thread list \<Rightarrow> nat" where
  "holders K ts = length (filter (\<lambda>t. held t = Some K) ts)"

fun accepted_under :: "string \<Rightarrow> acceptance \<Rightarrow> bool" where
  "accepted_under K (One e) = (event_key e = K)"
| "accepted_under K (Many org es) = False"

definition accepted_count :: "string \<Rightarrow> acceptance list \<Rightarrow> nat" where
  "accepted_count K accs = length (filter (accepted_under K) accs)"

definition taken :: "(string \<Rightarrow> string option) \<Rightarrow> string \<Rightarrow> nat" where
  "taken m K = (if m K = None then 0 else 1)"

fun acceptance_messages :: "'w IngestHandler \<Rightarrow> acceptance \<Rightarrow> (string \<times> string) list" where
  "acceptance_messages h (One e) = event_messages h e"
| "acceptance_messages h (Many org es) =
     (case h_PubBatch h of None \<Rightarrow> [] | Some _ \<Rightarrow> map (\<lambda>e. (raw_message e, org)) es)"

text \<open>The events of the single-event handlers are valid, and a message to be published is the event's.\<close>

fun thread_ok :: "thread \<Rightarrow> bool" where
  "thread_ok (Single (TakeKey e)) = (Validate e = None)"
| "thread_ok (Single (OrgCache e)) = (Validate e = None)"
| "thread_ok (Single (OrgQuery e)) = (Validate e = None)"
| "thread_ok (Single (OrgFill e)) = (Validate e = None)"
| "thread_ok (Single (EuCache e)) = (Validate e = None)"
| "thread_ok (Single (EuQuery e)) = (Validate e = None)"
| "thread_ok (Single (EuFill e)) = (Validate e = None)"
| "thread_ok (Single (GiveBack e r)) = (Validate e = None)"
| "thread_ok (Single (Publishing e m)) = (Validate e = None \<and> marshal_event e = Some m)"
| "thread_ok (Single (Answered r)) = True"
| "thread_ok (Batch j pc) = True"

lemma held_after [simp]:
  "held (Single (after_checks e)) = Some (event_key e)" "held (Single (after_org e)) = Some (event_key e)"
  "thread_ok (Single (after_checks e)) \<longleftrightarrow> Validate e = None"
  "thread_ok (Single (after_org e)) \<longleftrightarrow> Validate e = None"
  by (simp_all add: after_org_def after_checks_def split: option.splits)

lemma holders_update:
  "i < length ts \<Longrightarrow> holders K (ts[i := t]) + holders K [ts ! i] = holders K ts + holders K [t]"
proof (induction ts arbitrary: i)
  case (Cons a ts)
  then show ?case by (cases i) (auto simp: holders_def split: if_splits)
qed (simp add: holders_def)

lemma holders_append [simp]: "holders K (ts @ us) = holders K ts + holders K us"
  by (simp add: holders_def)

lemma holders_new [simp]: "holders K [Single (TakeKey e)] = 0" "holders K [Batch j pc] = 0" "holders K [] = 0"
  by (simp_all add: holders_def)

text \<open>
  The invariant for one key: acceptances and holders are covered by the expiries and the key itself.
\<close>

definition system_ok ::
  "('w \<Rightarrow> string \<Rightarrow> string option) \<Rightarrow> ('w \<Rightarrow> (string \<times> string) list) \<Rightarrow> 'w IngestHandler \<Rightarrow> 'w \<Rightarrow> string
   \<Rightarrow> 'w system \<Rightarrow> bool" where
  "system_ok kv sent h w0 K S \<longleftrightarrow>
     accepted_count K (sys_log S) + holders K (sys_threads S) + taken (kv w0) K
       \<le> count_list (sys_expired S) K + taken (kv (sys_world S)) K
     \<and> (\<forall>t \<in> set (sys_threads S). thread_ok t)
     \<and> (\<forall>e. One e \<in> set (sys_log S) \<longrightarrow> Validate e = None)
     \<and> sent (sys_world S) = sent w0 @ concat (map (acceptance_messages h) (sys_log S))"

lemma holders_cut: "holders K (take i ts @ drop (Suc i) ts) \<le> holders K ts"
proof -
  have "holders K ts = holders K (take i ts) + holders K (drop i ts)"
    by (metis append_take_drop_id holders_append)
  moreover have "holders K (drop (Suc i) ts) \<le> holders K (drop i ts)"
    by (cases "i < length ts") (simp_all add: holders_def Cons_nth_drop_Suc [symmetric])
  ultimately show ?thesis by (simp add: holders_def)
qed

section \<open>The invariant\<close>

context backend
begin

lemma taken_setnx: "taken (kv w) K \<le> taken (kv (snd (redis_SetNX sv k v t w))) K"
  using setnx_effect [OF refl, of k v t w] by (auto simp: taken_def)

text \<open>
  One command of a single-event handler: the acceptances and held keys it adds are covered by the
  keys it takes.
\<close>

lemma single_balance:
  assumes "publisher_ok sv h" and "single_step sv h env pc w = (pc', w')" and "thread_ok (Single pc)"
    and "K = idem_key o' i"
  shows "accepted_count K (accepts (Single pc)) + holders K [Single pc'] + taken (kv w) K
      \<le> holders K [Single pc] + taken (kv w') K
    \<and> thread_ok (Single pc')
    \<and> sent w' = sent w @ concat (map (acceptance_messages h) (accepts (Single pc)))"
proof (cases pc)
  case (TakeKey e)
  obtain x w1 where s: "redis_SetNX sv (event_key e) ''1''
      (getEnvDuration env ''IDEMPOTENCY_TTL'' DefaultIdempotencyTTL) w = (x, w1)" by fastforce
  have ok: "x = Inr True \<Longrightarrow> kv w (event_key e) = None \<and> kv w1 = (kv w)(event_key e \<mapsto> ''1'')"
    using setnx_ok [of "event_key e" "''1''" _ w True w1] s by auto
  have "taken (kv w) K \<le> taken (kv w1) K"
    using taken_setnx [of w K] s by (metis snd_conv)
  with setnx_frame [OF s] ok show ?thesis
    using assms TakeKey s
    by (cases x) (auto simp: accepted_count_def holders_def taken_def split: if_splits)
next
  case (GiveBack e r)
  then show ?thesis
    using assms del_effect [of w' "event_key e" w]
    by (auto simp: accepted_count_def holders_def taken_def)
next
  case (Publishing e m)
  then show ?thesis
    using assms publish_effect [OF assms(1), of w' m "OrgID e" w]
    by (auto simp: accepted_count_def holders_def event_messages_def)
next
  case (OrgFill e)
  then show ?thesis
    using assms set_effect [of w' "org_key (OrgID e)" "''1''" Hour w]
    by (auto simp: accepted_count_def holders_def taken_def)
next
  case (EuFill e)
  then show ?thesis
    using assms set_effect [of w' "eu_key (OrgID e) (EndUserID e)" "''1''" Hour w]
    by (auto simp: accepted_count_def holders_def taken_def)
next
  case (OrgCache e)
  obtain x w1 where "redis_Exists sv (org_key (OrgID e)) w = (x, w1)" by fastforce
  with exists_frame [OF this] show ?thesis
    using assms OrgCache by (auto simp: accepted_count_def holders_def split: if_splits)
next
  case (EuCache e)
  obtain x w1 where "redis_Exists sv (eu_key (OrgID e) (EndUserID e)) w = (x, w1)" by fastforce
  with exists_frame [OF this] show ?thesis
    using assms EuCache by (auto simp: accepted_count_def holders_def split: if_splits)
next
  case (OrgQuery e)
  obtain x w1 where "OrgExists sv (OrgID e) w = (x, w1)" by fastforce
  with OrgExists_query [OF this] show ?thesis
    using assms OrgQuery by (auto simp: accepted_count_def holders_def split: if_splits)
next
  case (EuQuery e)
  obtain x w1 where "EndUserInOrg sv (OrgID e) (EndUserID e) w = (x, w1)" by fastforce
  with EndUserInOrg_query [OF this] show ?thesis
    using assms EuQuery by (auto simp: accepted_count_def holders_def split: if_splits)
next
  case (Answered r)
  then show ?thesis using assms by (auto simp: accepted_count_def holders_def)
qed

lemma batch_balance:
  assumes "batch_publisher_ok sv h" and "batch_step sv h j pc w = (pc', w')"
  shows "taken (kv w) K \<le> taken (kv w') K
    \<and> sent w' = sent w @ concat (map (acceptance_messages h) (accepts (Batch j pc)))"
proof (cases pc)
  case (AtEvent st ies)
  have "kv w' = kv w \<and> sent w' = sent w"
  proof (cases ies)
    case (Cons ie rest)
    moreover obtain i e where "ie = (i, e)" by fastforce
    ultimately show ?thesis
      using assms AtEvent bfreserve_effect [of w' "bs_reserved st (job_bf_key j e)" w "job_bf_key j e"
          "''0.001''" "''10000000''"]
      by (auto simp: Let_def split: if_splits)
  qed (use assms AtEvent in auto)
  then show ?thesis by (simp add: AtEvent)
next
  case (AskBloom st e rest)
  obtain x w1 where "redis_BFExists sv (job_bf_key j e) (EventID e) w = (x, w1)" by fastforce
  with bfexists_frame [OF this] show ?thesis
    using assms AskBloom by (auto split: sum.splits option.splits prod.splits)
next
  case (AskIdem st e x rest)
  obtain dup w1 where d: "idem_taken sv e w = (dup, w1)" by fastforce
  then have "w1 = snd (redis_SetNX sv (idem_key (OrgID e) (EventID e)) ''1'' DefaultIdempotencyTTL w)"
    by (auto simp: idem_taken_def split: prod.splits sum.splits)
  then show ?thesis
    using assms AskIdem d idem_taken_effect [OF d] taken_setnx by (auto split: if_splits)
next
  case (AddBloom st e x rest)
  have "w' = snd (redis_BFAdd sv (job_bf_key j e) (EventID e) w)"
    using assms AddBloom by (auto simp: Let_def split: option.splits if_splits)
  from bfadd_effect [OF this] show ?thesis by (simp add: AddBloom)
next
  case (AddIdem st e rest)
  have w': "w' = snd (redis_SetNX sv (event_key e) ''1'' DefaultIdempotencyTTL w)"
    using assms AddIdem by auto
  show ?thesis using setnx_effect [OF w'] taken_setnx w' by (simp add: AddIdem)
next
  case (BatchPublish res)
  have w': "w' = publish_batch h (Accepted res) (bj_OrgID j) w" using assms BatchPublish by auto
  show ?thesis
  proof (cases "h_PubBatch h")
    case (Some p)
    then have "kafka_publish_batch sv (map raw_message (Accepted res)) (bj_OrgID j) w
        = (fst (p (map raw_message (Accepted res)) (bj_OrgID j) w), w')"
      using assms(1) w' by (auto simp: batch_publisher_ok_def publish_batch_def)
    from publish_batch_frame [OF this] show ?thesis by (simp add: BatchPublish Some)
  qed (simp add: w' BatchPublish publish_batch_def)
next
  case (BatchAnswered r)
  then show ?thesis using assms by auto
qed

lemma thread_balance:
  assumes "publisher_ok sv h" and "batch_publisher_ok sv h"
    and "thread_step sv h env t w = (t', w')" and "thread_ok t" and "K = idem_key o' i"
  shows "accepted_count K (accepts t) + holders K [t'] + taken (kv w) K \<le> holders K [t] + taken (kv w') K
    \<and> thread_ok t' \<and> sent w' = sent w @ concat (map (acceptance_messages h) (accepts t))"
proof (cases t)
  case (Single pc)
  moreover obtain pc' where "single_step sv h env pc w = (pc', w')" "t' = Single pc'"
    using assms(3) Single by (auto simp: map_prod_def split: prod.splits)
  ultimately show ?thesis using single_balance [OF assms(1) _ _ assms(5)] assms(4) by blast
next
  case (Batch j pc)
  moreover obtain pc' where b: "batch_step sv h j pc w = (pc', w')" "t' = Batch j pc'"
    using assms(3) Batch by (auto simp: map_prod_def split: prod.splits)
  moreover have "accepted_count K (accepts (Batch j pc)) = 0"
    by (cases pc) (simp_all add: accepted_count_def)
  ultimately show ?thesis using batch_balance [OF assms(2) b(1)] by (simp add: holders_def)
qed

lemma move_ok:
  assumes "publisher_ok sv h" and "batch_publisher_ok sv h" and "K = idem_key o' x"
    and "i < length (sys_threads S)" and "system_ok kv sent h w0 K S"
  shows "system_ok kv sent h w0 K (move sv h env i S)"
proof -
  define t where "t = sys_threads S ! i"
  obtain t' w' where st: "thread_step sv h env t (sys_world S) = (t', w')" by fastforce
  have t: "thread_ok t" using assms(4,5) by (simp add: t_def system_ok_def)
  have "One e \<in> set (accepts t) \<Longrightarrow> Validate e = None" for e
    using t by (cases t rule: accepts.cases) auto
  moreover note bal = thread_balance [OF assms(1,2) st t assms(3)]
  moreover have "holders K ((sys_threads S)[i := t']) + holders K [t] = holders K (sys_threads S) + holders K [t']"
    using holders_update [OF assms(4), of K t'] by (simp add: t_def)
  moreover have "\<forall>t \<in> set ((sys_threads S)[i := t']). thread_ok t"
    using assms(5) bal set_update_subset_insert [of "sys_threads S" i t'] by (auto simp: system_ok_def)
  ultimately show ?thesis
    using assms(5) by (auto simp: system_ok_def move_def t_def [symmetric] st accepted_count_def)
qed

lemma system_ok_step:
  assumes "publisher_ok sv h" and "batch_publisher_ok sv h" and K: "K = idem_key o' x"
    and "system_step sv h env kv sent S S'" and "system_ok kv sent h w0 K S"
  shows "system_ok kv sent h w0 K S'"
  using assms(4,5)
proof (induction rule: system_step.induct)
  case (sy_move i S)
  then show ?case by (rule move_ok [OF assms(1-3)])
next
  case (sy_cut i S)
  then show ?case
    using holders_cut [of K i "sys_threads S"]
    by (auto simp: system_ok_def dest: in_set_takeD in_set_dropD)
next
  case (sy_expire w' S k)
  then show ?case by (auto simp: system_ok_def taken_def split: if_splits)
next
  case (sy_other w' S)
  then show ?case by (simp add: system_ok_def taken_def K)
qed (simp_all add: system_ok_def)

lemma system_ok_reach:
  assumes "publisher_ok sv h" and "batch_publisher_ok sv h" and "K = idem_key o' x"
    and "system_reach sv h env kv sent (sys_start w0) S"
  shows "system_ok kv sent h w0 K S"
  using assms(4)
proof (induction rule: system_reach.induct)
  case sr_init
  show ?case by (simp add: system_ok_def sys_start_def accepted_count_def)
next
  case (sr_step S S')
  then show ?case using system_ok_step [OF assms(1-3)] by blast
qed

end

lemma schedule_reach:
  "system_reach sv h env kv sent S0 S \<Longrightarrow> system_reach sv h env kv sent S0 (schedule sv h env is S)"
  by (induction "is" arbitrary: S) (auto intro: sr_step sy_move)

section \<open>Properties\<close>

text \<open>
  C2.  At most once under concurrency.  However many single-event and batch handlers run at once, in
  whichever order their commands reach Redis, whichever commands fail and whichever handlers are cut
  off, the single-event endpoint accepts events under an idempotency key at most once for each
  period in which the key does not expire (and not at all before the first expiry, when the key was
  taken at the start); only valid events are accepted; and the messages sent are exactly those of
  the acceptances, in order.
\<close>

theorem concurrent_at_most_once:
  assumes "backend sv kv bf db sent" and "publisher_ok sv h" and "batch_publisher_ok sv h"
    and "system_reach sv h env kv sent (sys_start w0) S"
  shows "accepted_count (event_key e) (sys_log S) + taken (kv w0) (event_key e)
      \<le> count_list (sys_expired S) (event_key e) + 1
    \<and> (One e \<in> set (sys_log S) \<longrightarrow> Validate e = None)
    \<and> sent (sys_world S) = sent w0 @ concat (map (acceptance_messages h) (sys_log S))"
proof -
  have "system_ok kv sent h w0 (event_key e) S"
    using backend.system_ok_reach [OF assms(1-3) _ assms(4)] by (simp add: event_key_def)
  moreover have "taken (kv (sys_world S)) (event_key e) \<le> 1" by (simp add: taken_def)
  ultimately show ?thesis unfolding system_ok_def by auto
qed

definition demo_threads :: "thread list \<Rightarrow> ref_world \<Rightarrow> ref_world system" where
  "demo_threads ts w = (sys_start w)\<lparr>sys_threads := ts\<rparr>"

lemma demo_threads_eq:
  "demo_threads [t, u] w = (let S = (sys_start w)\<lparr>sys_threads := sys_threads (sys_start w) @ [t]\<rparr>
     in S\<lparr>sys_threads := sys_threads S @ [u]\<rparr>)"
  by (simp add: demo_threads_def sys_start_def)

lemma demo_singles_reach:
  "system_reach sv h env kv sent (sys_start w)
     (demo_threads [Single (TakeKey demo_enriched), Single (TakeKey demo_enriched)] w)"
  unfolding demo_threads_eq Let_def
  by (rule sr_step [OF sr_step [OF sr_init sy_single [OF demo_validate]] sy_single [OF demo_validate]])

lemma demo_interleaving:
  "sys_log (schedule (ref_services False) (demo_handler False) (\<lambda>_. []) [0, 1, 0, 0]
     (demo_threads [Single (TakeKey demo_enriched), Single (TakeKey demo_enriched)] demo_org_world))
   = [One demo_enriched]"
  by (simp add: demo_threads_def sys_start_def move_def ref_eval demo_org_world_def event_key_def cache_hit_def
      after_org_def after_checks_def demo_marshal Let_def)

theorem concurrent_at_most_once_witness:
  "\<exists>S. system_reach (ref_services False) (demo_handler False) (\<lambda>_. []) rw_kv rw_sent (sys_start demo_org_world) S
     \<and> sys_log S = [One demo_enriched] \<and> Validate demo_enriched = None \<and> length (rw_sent (sys_world S)) = 1"
proof -
  define S where "S = schedule (ref_services False) (demo_handler False) (\<lambda>_. []) [0, 1, 0, 0]
     (demo_threads [Single (TakeKey demo_enriched), Single (TakeKey demo_enriched)] demo_org_world)"
  have r: "system_reach (ref_services False) (demo_handler False) (\<lambda>_. []) rw_kv rw_sent (sys_start demo_org_world) S"
    unfolding S_def by (rule schedule_reach [OF demo_singles_reach])
  have b: "batch_publisher_ok (ref_services False) (demo_handler False)"
    by (simp add: batch_publisher_ok_def demo_handler_def NewIngestHandler_def)
  have l: "sys_log S = [One demo_enriched]" unfolding S_def by (rule demo_interleaving)
  from concurrent_at_most_once [OF ref_up.backend_axioms demo_publisher b r, of demo_enriched]
  have "Validate demo_enriched = None" "length (rw_sent (sys_world S)) = 1"
    by (simp_all add: l event_messages_def demo_marshal published_def demo_handler_def NewIngestHandler_def
        demo_org_world_def empty_world_def)
  with r l show ?thesis by blast
qed


end
