(* ===== verification/Mux.thy ===== *)
theory Mux
  imports Http
begin

text \<open>
  \<open>http.ServeMux\<close> for patterns without a method, a host or wildcards: the path is cleaned, an exact
  pattern wins over a subtree pattern (one that ends in a slash), a longer subtree over a shorter one,
  a path that is not clean is redirected to its clean form, and so is one that lacks only the slash of
  a subtree pattern.  Paths are taken decoded; a percent-encoded slash or dot does not occur.
\<close>

section \<open>Clean paths\<close>

text \<open>\<open>path.Clean\<close> of a rooted path: the segments without empty ones and dots, two dots dropping the last.\<close>

definition clean_segment :: "string list \<Rightarrow> string \<Rightarrow> string list" where
  "clean_segment acc seg =
     (if seg = [] \<or> seg = ''.'' then acc else if seg = ''..'' then butlast acc else acc @ [seg])"

definition cleanPath :: "string \<Rightarrow> string" where
  "cleanPath p0 =
     (let p = (if p0 \<noteq> [] \<and> hd p0 = CHR ''/'' then p0 else CHR ''/'' # p0);
          np = CHR ''/'' # join_with (CHR ''/'') (foldl clean_segment [] (split_on (CHR ''/'') p))
      in if last p = CHR ''/'' \<and> np \<noteq> ''/'' then np @ ''/'' else np)"

section \<open>Routing\<close>

datatype 'h route = Handler 'h | RedirectTo string | NoRoute

definition subtree :: "string \<Rightarrow> bool" where
  "subtree pat = (pat \<noteq> [] \<and> last pat = CHR ''/'')"

text \<open>The longest subtree pattern that the path starts with.\<close>

fun best_subtree :: "string \<Rightarrow> (string \<times> 'h) list \<Rightarrow> (string \<times> 'h) option" where
  "best_subtree path [] = None"
| "best_subtree path ((pat, h) # ps) =
     (case best_subtree path ps of
        None \<Rightarrow> if subtree pat \<and> prefix pat path then Some (pat, h) else None
      | Some (pat', h') \<Rightarrow>
          if subtree pat \<and> prefix pat path \<and> length pat' < length pat then Some (pat, h) else Some (pat', h'))"

definition mux_handler :: "(string \<times> 'h) list \<Rightarrow> string \<Rightarrow> 'h route" where
  "mux_handler pats path =
     (case map_of pats path of
        Some h \<Rightarrow> Handler h
      | None \<Rightarrow>
          if \<not> subtree path \<and> map_of pats (path @ ''/'') \<noteq> None then RedirectTo (path @ ''/'')
          else (case best_subtree path pats of None \<Rightarrow> NoRoute | Some (_, h) \<Rightarrow> Handler h))"

text \<open>A \<^verbatim>\<open>CONNECT\<close> request is not cleaned.\<close>

definition mux_route :: "(string \<times> 'h) list \<Rightarrow> request \<Rightarrow> 'h route" where
  "mux_route pats r =
     (let path = (if r_Method r = ''CONNECT'' then r_Path r else cleanPath (r_Path r))
      in case mux_handler pats path of
           RedirectTo p \<Rightarrow> RedirectTo p
         | x \<Rightarrow> if path = r_Path r then x else RedirectTo path)"

text \<open>What a server sends: the reply of a handler, or a permanent redirect.\<close>

datatype served = Served reply | Redirected string

definition NotFound_response :: response where
  "NotFound_response = \<lparr>status = 404, content_type = ''text/plain; charset=utf-8'',
     resp_body = ''404 page not found'' @ [CHR 0x0A]\<rparr>"

definition serve_mux ::
  "(string \<times> (request \<Rightarrow> 'w \<Rightarrow> served \<times> 'w)) list \<Rightarrow> request \<Rightarrow> 'w \<Rightarrow> served \<times> 'w" where
  "serve_mux pats r w =
     (case mux_route pats r of
        Handler h \<Rightarrow> h r w
      | RedirectTo p \<Rightarrow> (Redirected p, w)
      | NoRoute \<Rightarrow> (Served (Reply NotFound_response), w))"

definition plain :: "(request \<Rightarrow> 'w \<Rightarrow> reply \<times> 'w) \<Rightarrow> request \<Rightarrow> 'w \<Rightarrow> served \<times> 'w" where
  "plain h r w = (let (rep, w') = h r w in (Served rep, w'))"

section \<open>Lemmas\<close>

lemma best_subtree_Some: "best_subtree path pats = Some (pat, h) \<Longrightarrow> (pat, h) \<in> set pats \<and> subtree pat \<and> prefix pat path"
  by (induction path pats arbitrary: pat h rule: best_subtree.induct) (auto split: option.splits if_splits)

text \<open>Whatever handles a request was registered for its path or for a subtree around it.\<close>

lemma mux_route_Handler:
  assumes "mux_route pats r = Handler h"
  shows "(r_Path r, h) \<in> set pats \<or> (\<exists>pat. (pat, h) \<in> set pats \<and> subtree pat \<and> prefix pat (r_Path r))"
proof -
  have "mux_handler pats (r_Path r) = Handler h"
    using assms by (auto simp: mux_route_def Let_def split: route.splits if_splits)
  then show ?thesis
    by (auto simp: mux_handler_def dest: map_of_SomeD best_subtree_Some split: option.splits if_splits)
qed

text \<open>An answer that is not a redirect is for a clean path, \<^verbatim>\<open>CONNECT\<close> apart.\<close>

lemma mux_route_clean:
  assumes "mux_route pats r = Handler h" and "r_Method r \<noteq> ''CONNECT''"
  shows "cleanPath (r_Path r) = r_Path r"
  using assms by (auto simp: mux_route_def Let_def split: route.splits if_splits)

end
