(* ===== verification/GoParse.thy ===== *)
theory GoParse
  imports GoFormat GoStruct
begin

text \<open>
  More of Go's standard library as the key management and analytics services use it:
  \<open>strconv.ParseFloat\<close> on arbitrary text, \<open>net.SplitHostPort\<close>, the first value that a
  \<open>json.Decoder\<close> reads from a body, and \<open>crypto/sha256\<close>.
\<close>

section \<open>strconv.ParseFloat\<close>

datatype parsed_float = FloatSyntaxError | FloatRangeError | FloatNaN | FloatInf bool | Finite float64

definition has_sign :: "string \<Rightarrow> bool" where
  "has_sign s = (s \<noteq> [] \<and> (hd s = CHR ''-'' \<or> hd s = CHR ''+''))"

definition is_hex_digit_any :: "char \<Rightarrow> bool" where
  "is_hex_digit_any c = (is_digit_char c \<or> CHR ''a'' \<le> lower_char c \<and> lower_char c \<le> CHR ''f'')"

text \<open>\<open>underscoreOK\<close>: an underscore stands between digits, or between a base prefix and a digit.\<close>

fun underscores_ok :: "bool \<Rightarrow> char \<Rightarrow> string \<Rightarrow> bool" where
  "underscores_ok hex saw [] = (saw \<noteq> CHR ''_'')"
| "underscores_ok hex saw (c # cs) =
     (if is_digit_char c \<or> hex \<and> is_hex_digit_any c then underscores_ok hex (CHR ''0'') cs
      else if c = CHR ''_'' then saw = CHR ''0'' \<and> underscores_ok hex (CHR ''_'') cs
      else saw \<noteq> CHR ''_'' \<and> underscores_ok hex (CHR ''!'') cs)"

definition underscoreOK :: "string \<Rightarrow> bool" where
  "underscoreOK s =
     (let t = (if has_sign s then tl s else s);
          pre = (2 \<le> length t \<and> hd t = CHR ''0'' \<and> lower_char (t ! 1) \<in> set ''box'')
      in if pre then underscores_ok (lower_char (t ! 1) = CHR ''x'') (CHR ''0'') (drop 2 t)
         else underscores_ok False (CHR ''^'') t)"

text \<open>
  The mantissa loop of \<open>readFloat\<close>: digits of the base, one point, underscores.  It returns the
  digits, how many stand after the point, and the rest of the text.
\<close>

fun read_mantissa :: "bool \<Rightarrow> string \<Rightarrow> bool \<Rightarrow> string \<Rightarrow> nat \<Rightarrow> string \<times> nat \<times> string" where
  "read_mantissa hex [] dot ds nfrac = (ds, nfrac, [])"
| "read_mantissa hex (c # cs) dot ds nfrac =
     (if c = CHR ''_'' then read_mantissa hex cs dot ds nfrac
      else if c = CHR ''.'' then (if dot then (ds, nfrac, c # cs) else read_mantissa hex cs True ds nfrac)
      else if is_digit_char c \<or> hex \<and> is_hex_digit_any c
        then read_mantissa hex cs dot (ds @ [c]) (if dot then nfrac + 1 else nfrac)
      else (ds, nfrac, c # cs))"

definition hex_digit_val :: "char \<Rightarrow> nat" where
  "hex_digit_val c = (if is_digit_char c then digit_val c else of_char (lower_char c) - 87)"

definition read_base :: "bool \<Rightarrow> string \<Rightarrow> nat" where
  "read_base hex ds = foldl (\<lambda>n c. (if hex then 16 else 10) * n + hex_digit_val c) 0 ds"

text \<open>The exponent after its letter: sign, a digit, then digits and underscores, to the end.\<close>

definition read_exponent :: "string \<Rightarrow> int option" where
  "read_exponent s =
     (let t = (if has_sign s then tl s else s);
          e = read_exp (filter is_digit_char t)
      in if t = [] \<or> \<not> is_digit_char (hd t) \<or> \<not> list_all (\<lambda>c. is_digit_char c \<or> c = CHR ''_'') t then None
         else Some (if s \<noteq> [] \<and> hd s = CHR ''-'' then - e else e))"

definition parse_number :: "string \<Rightarrow> parsed_float" where
  "parse_number s =
     (let neg = (s \<noteq> [] \<and> hd s = CHR ''-'');
          t = (if has_sign s then tl s else s);
          hex = (3 \<le> length t \<and> hd t = CHR ''0'' \<and> lower_char (t ! 1) = CHR ''x'');
          (ds, nfrac, rest) = read_mantissa hex (if hex then drop 2 t else t) False [] 0;
          ex = (if rest \<noteq> [] \<and> lower_char (hd rest) = (if hex then CHR ''p'' else CHR ''e'')
                then read_exponent (tl rest)
                else if rest = [] \<and> \<not> hex then Some 0 else None)
      in if ds = [] \<or> CHR ''_'' \<in> set s \<and> \<not> underscoreOK s then FloatSyntaxError
         else
           (case ex of
              None \<Rightarrow> FloatSyntaxError
            | Some e \<Rightarrow>
                let m = of_nat (read_base hex ds);
                    v = (if hex then m * pow2 (e - 4 * int nfrac) else m * pow10 (e - int nfrac))
                in (case to_float64 (if neg then - v else v) of
                      None \<Rightarrow> FloatRangeError
                    | Some x \<Rightarrow> Finite x)))"

definition ParseFloat :: "string \<Rightarrow> parsed_float" where
  "ParseFloat s =
     (let l = map lower_char s; t = (if has_sign l then tl l else l) in
      if l = ''nan'' then FloatNaN
      else if t = ''inf'' \<or> t = ''infinity'' then FloatInf (l \<noteq> [] \<and> hd l = CHR ''-'')
      else parse_number s)"

section \<open>net.SplitHostPort\<close>

text \<open>The text before and after the last occurrence of a byte.\<close>

fun split_last :: "char \<Rightarrow> string \<Rightarrow> (string \<times> string) option" where
  "split_last c [] = None"
| "split_last c (x # xs) =
     (case split_last c xs of
        Some (a, b) \<Rightarrow> Some (x # a, b)
      | None \<Rightarrow> if x = c then Some ([], xs) else None)"

definition SplitHostPort :: "string \<Rightarrow> (string \<times> string) option" where
  "SplitHostPort hp =
     (case split_last (CHR '':'') hp of
        None \<Rightarrow> None
      | Some (front, port) \<Rightarrow>
          if hd hp = CHR ''['' then
            (let inner = takeWhile (\<lambda>c. c \<noteq> CHR '']'') hp; after = drop (length inner) hp in
             if after = [] \<or> front \<noteq> inner @ '']'' then None
             else if CHR ''['' \<in> set (tl hp) \<or> CHR '']'' \<in> set (tl after) then None
             else Some (tl inner, port))
          else if CHR '':'' \<in> set front \<or> CHR ''['' \<in> set hp \<or> CHR '']'' \<in> set hp then None
          else Some (front, port))"

section \<open>json.Decoder\<close>

text \<open>
  \<open>Decode\<close> reads the first value and leaves what follows it unread.  An object, an array or \<open>null\<close>
  ends with its last byte, so the first value is the shortest prefix that is one.  (A number at the
  top level ends later, but no request type accepts a number.)
\<close>

definition first_value :: "string \<Rightarrow> json option" where
  "first_value s =
     (case find (\<lambda>n. json_parse (take n s) \<noteq> None) [0..<Suc (length s)] of
        None \<Rightarrow> None
      | Some n \<Rightarrow> json_parse (take n s))"

definition Decode :: "'a field_decoder \<Rightarrow> 'a \<Rightarrow> string \<Rightarrow> (json_error, 'a) result" where
  "Decode dec zero s =
     (case first_value s of
        None \<Rightarrow> Inl SyntaxError
      | Some j \<Rightarrow> (let (v, ok) = dec j zero in if ok then Inr v else Inl UnmarshalTypeError))"

section \<open>crypto/sha256\<close>

text \<open>
  The constants of the standard, by its own description of them: the first 32 bits of the fractional
  parts of the cube roots (\<open>sha_k\<close>) and square roots (\<open>sha_init\<close>) of the first primes.
\<close>

definition root_bits :: "nat \<Rightarrow> int \<Rightarrow> int" where
  "root_bits r p = foldl (\<lambda>x b. if (x + 2 ^ b) ^ r \<le> p * 2 ^ (32 * r) then x + 2 ^ b else x) 0 (rev [0..<40])"

definition small_primes :: "int list" where
  "small_primes = filter (\<lambda>p. list_all (\<lambda>d. p mod d \<noteq> 0) [2..p - 1]) [2..311]"

definition sha_k :: "32 word list" where
  "sha_k = map (\<lambda>p. word_of_int (root_bits 3 p)) small_primes"

definition sha_init :: "32 word list" where
  "sha_init = map (\<lambda>p. word_of_int (root_bits 2 p)) (take 8 small_primes)"

definition rotr :: "nat \<Rightarrow> 32 word \<Rightarrow> 32 word" where
  "rotr n x = drop_bit n x OR push_bit (32 - n) x"

text \<open>The message schedule, newest word first.\<close>

definition sha_next :: "32 word list \<Rightarrow> 32 word list" where
  "sha_next ws =
     (let w2 = ws ! 1; w15 = ws ! 14;
          s0 = rotr 7 w15 XOR rotr 18 w15 XOR drop_bit 3 w15;
          s1 = rotr 17 w2 XOR rotr 19 w2 XOR drop_bit 10 w2
      in (s1 + ws ! 6 + s0 + ws ! 15) # ws)"

definition sha_round :: "32 word list \<Rightarrow> 32 word \<times> 32 word \<Rightarrow> 32 word list" where
  "sha_round st kw =
     (case st of
        [a, b, c, d, e, f, g, h] \<Rightarrow>
          (let t1 = h + (rotr 6 e XOR rotr 11 e XOR rotr 25 e) + ((e AND f) XOR (NOT e AND g)) + fst kw + snd kw;
               t2 = (rotr 2 a XOR rotr 13 a XOR rotr 22 a) + ((a AND b) XOR (a AND c) XOR (b AND c))
           in [t1 + t2, a, b, c, d + t1, e, f, g])
      | _ \<Rightarrow> st)"

definition word_of_bytes :: "byte list \<Rightarrow> 32 word" where
  "word_of_bytes bs = foldl (\<lambda>w b. 256 * w + ucast b) 0 bs"

fun chunk :: "nat \<Rightarrow> 'a list \<Rightarrow> 'a list list" where
  "chunk n [] = []"
| "chunk n (x # xs) = take (Suc n) (x # xs) # chunk n (drop n xs)"

definition sha_block :: "32 word list \<Rightarrow> byte list \<Rightarrow> 32 word list" where
  "sha_block st block =
     (let ws = rev ((sha_next ^^ 48) (rev (map word_of_bytes (chunk 3 block))))
      in map2 (+) st (foldl sha_round st (zip sha_k ws)))"

definition sha_pad :: "byte list \<Rightarrow> byte list" where
  "sha_pad bs =
     bs @ [0x80] @ replicate ((119 - length bs mod 64) mod 64) 0
        @ map (\<lambda>i. word_of_int (8 * int (length bs) div 2 ^ (8 * (7 - i)))) [0..<8]"

definition word_bytes :: "32 word \<Rightarrow> byte list" where
  "word_bytes w = map (\<lambda>i. ucast (drop_bit (8 * (3 - i)) w)) [0..<4]"

definition string_bytes :: "string \<Rightarrow> byte list" where
  "string_bytes s = map (\<lambda>c. of_char c) s"

definition Sum256 :: "byte list \<Rightarrow> byte list" where
  "Sum256 bs = concat (map word_bytes (foldl sha_block sha_init (chunk 63 (sha_pad bs))))"

text \<open>The hash has 32 bytes.\<close>

lemma length_sha_round: "length (sha_round st kw) = length st"
  by (auto simp: sha_round_def Let_def split: list.split)

lemma length_sha_rounds: "length (foldl sha_round st kws) = length st"
  by (induction kws arbitrary: st) (auto simp: length_sha_round)

lemma length_sha_blocks: "length (foldl sha_block st bs) = length st"
  by (induction bs arbitrary: st) (auto simp: sha_block_def Let_def length_sha_rounds)

lemma length_sha_init: "length sha_init = 8"
proof -
  have "filter (\<lambda>p. list_all (\<lambda>d. p mod d \<noteq> 0) [2..p - 1]) [2..19 :: int] = [2, 3, 5, 7, 11, 13, 17, 19]"
    by code_simp
  moreover have "[2..311] = [2..19] @ [19 + 1..(311 :: int)]" by (rule upto_split2) simp_all
  ultimately obtain rest where r: "small_primes = [2, 3, 5, 7, 11, 13, 17, 19] @ rest"
    unfolding small_primes_def by (simp only: filter_append)
  have "8 \<le> length small_primes" unfolding r by simp
  then show ?thesis by (simp add: sha_init_def)
qed

lemma length_concat_word_bytes: "length (concat (map word_bytes ws)) = 4 * length ws"
  by (induction ws) (auto simp: word_bytes_def)

lemma length_Sum256 [simp]: "length (Sum256 bs) = 32"
  by (simp add: Sum256_def length_concat_word_bytes length_sha_blocks length_sha_init)

definition bytes_string :: "byte list \<Rightarrow> string" where
  "bytes_string bs = map (\<lambda>b. char_of (unat b)) bs"

lemma bytes_string_bytes [simp]: "bytes_string (string_bytes s) = s"
proof -
  have "unat (of_char c :: byte) = of_char c" for c :: char
  proof -
    have "unat (of_char c :: byte) = unat (of_nat (of_char c) :: byte)" unfolding of_nat_of_char ..
    also have "\<dots> = of_char c mod 256" by (simp add: unsigned_of_nat take_bit_eq_mod)
    finally show ?thesis by simp
  qed
  then show ?thesis by (simp add: bytes_string_def string_bytes_def comp_def)
qed

end
