(* ===== verification/GoTime.thy ===== *)
theory GoTime
  imports GoParse
begin

text \<open>
  The calendar of Go's \<^verbatim>\<open>time\<close> package as the services use it: reading a date with the layout
  \<^verbatim>\<open>2006-01-02\<close>, milliseconds since the epoch, and writing an instant with the layout \<open>time.RFC3339\<close>.
  Instants are microseconds since the epoch, the resolution of Postgres.
\<close>

section \<open>Dates\<close>

definition is_leap :: "int \<Rightarrow> bool" where
  "is_leap y = (y mod 4 = 0 \<and> (y mod 100 \<noteq> 0 \<or> y mod 400 = 0))"

definition daysIn :: "int \<Rightarrow> int \<Rightarrow> int" where
  "daysIn m y = (if m = 2 then (if is_leap y then 29 else 28) else if m \<in> {4, 6, 9, 11} then 30 else 31)"

definition valid_date :: "int \<times> int \<times> int \<Rightarrow> bool" where
  "valid_date dt = (case dt of (y, m, d) \<Rightarrow> 0 \<le> y \<and> y \<le> 9999 \<and> 1 \<le> m \<and> m \<le> 12 \<and> 1 \<le> d \<and> d \<le> daysIn m y)"

text \<open>Days from the first of January of the year 0, and from the epoch.\<close>

definition days_before_year :: "int \<Rightarrow> int" where
  "days_before_year y = 365 * y + (y + 3) div 4 - (y + 99) div 100 + (y + 399) div 400"

fun days_before_month :: "int \<Rightarrow> nat \<Rightarrow> int" where
  "days_before_month y 0 = 0"
| "days_before_month y (Suc n) = days_before_month y n + daysIn (int n + 1) y"

definition day_number :: "int \<times> int \<times> int \<Rightarrow> int" where
  "day_number dt =
     (case dt of (y, m, d) \<Rightarrow> days_before_year y + days_before_month y (nat (m - 1)) + d - 1 - 719528)"

text \<open>\<open>time.Parse("2006-01-02", s)\<close>: four digits, two digits, two digits, nothing else, a real date.\<close>

definition parse_date :: "string \<Rightarrow> (int \<times> int \<times> int) option" where
  "parse_date s =
     (if length s = 10 \<and> s ! 4 = CHR ''-'' \<and> s ! 7 = CHR ''-''
         \<and> list_all is_digit_char (take 4 s @ take 2 (drop 5 s) @ drop 8 s)
      then (let dt = (int (read_nat (take 4 s)), int (read_nat (take 2 (drop 5 s))), int (read_nat (drop 8 s)))
            in if valid_date dt then Some dt else None)
      else None)"

definition day_millis :: int where "day_millis = 86400000"

definition UnixMilli :: "int \<times> int \<times> int \<Rightarrow> int" where
  "UnixMilli dt = day_number dt * day_millis"

section \<open>time.RFC3339\<close>

text \<open>The date of a day number, in years that begin in March.\<close>

definition civil_of_days :: "int \<Rightarrow> int \<times> int \<times> int" where
  "civil_of_days n =
     (let z = n + 719468;
          era = z div 146097;
          doe = z mod 146097;
          yoe = (doe - doe div 1460 + doe div 36524 - doe div 146096) div 365;
          doy = doe - (365 * yoe + yoe div 4 - yoe div 100);
          mp = (5 * doy + 2) div 153;
          m = (if mp < 10 then mp + 3 else mp - 9)
      in (yoe + era * 400 + (if m \<le> 2 then 1 else 0), m, doy - (153 * mp + 2) div 5 + 1))"

definition pad_num :: "nat \<Rightarrow> int \<Rightarrow> string" where
  "pad_num n i =
     (let ds = show_nat (nat \<bar>i\<bar>)
      in (if i < 0 then ''-'' else []) @ replicate (n - length ds) (CHR ''0'') @ ds)"

text \<open>\<open>off\<close> is the offset of the time's location in minutes.\<close>

definition Format_RFC3339 :: "int \<Rightarrow> int \<Rightarrow> string" where
  "Format_RFC3339 off t =
     (let secs = t div 1000000 + 60 * off;
          (y, m, d) = civil_of_days (secs div 86400);
          s = secs mod 86400
      in pad_num 4 y @ ''-'' @ pad_num 2 m @ ''-'' @ pad_num 2 d @ ''T''
         @ pad_num 2 (s div 3600) @ '':'' @ pad_num 2 (s mod 3600 div 60) @ '':'' @ pad_num 2 (s mod 60)
         @ (if off = 0 then ''Z''
            else (if off < 0 then ''-'' else ''+'') @ pad_num 2 (\<bar>off\<bar> div 60) @ '':'' @ pad_num 2 (\<bar>off\<bar> mod 60)))"

section \<open>Successive days\<close>

definition next_date :: "int \<times> int \<times> int \<Rightarrow> int \<times> int \<times> int" where
  "next_date dt =
     (case dt of (y, m, d) \<Rightarrow>
        if d < daysIn m y then (y, m, d + 1) else if m < 12 then (y, m + 1, 1) else (y + 1, 1, 1))"

lemma div_step:
  assumes n: "0 < n" and k: "k = n - 1"
  shows "(y + 1 + k) div n = (y + k) div n + (if y mod n = 0 then 1 else (0 :: int))"
proof -
  define q r where "q = y div n" and "r = y mod n"
  have y: "y = n * q + r" and r: "0 \<le> r" "r < n" using n by (simp_all add: q_def r_def)
  have "(y + k) div n = q + (r + k) div n" unfolding y using n by (simp add: add.assoc)
  moreover have "(r + k) div n = (if r = 0 then 0 else 1)"
    using r n by (auto simp: k div_pos_pos_trivial int_div_pos_eq)
  ultimately show ?thesis using n by (simp add: q_def r_def k)
qed

lemma leap_cases:
  assumes "c \<Longrightarrow> b" and "b \<Longrightarrow> a"
    and "A = A' + (if a then 1 else 0)" and "B = B' + (if b then 1 else 0)" and "C = C' + (if c then 1 else 0)"
  shows "365 * (y + 1) + A - B + C = 365 * y + A' - B' + C' + (if a \<and> (\<not> b \<or> c) then 366 else (365 :: int))"
  using assms by (cases a; cases b; cases c) simp_all

lemma days_before_year_Suc: "days_before_year (y + 1) = days_before_year y + (if is_leap y then 366 else 365)"
proof -
  have c: "y mod 400 = 0 \<Longrightarrow> y mod 100 = 0" "y mod 100 = 0 \<Longrightarrow> y mod 4 = 0"
    using mod_mod_cancel [of 100 400 y] mod_mod_cancel [of 4 100 y] by simp_all
  show ?thesis
    unfolding days_before_year_def is_leap_def
    by (rule leap_cases [OF c]) (assumption | rule div_step | simp)+
qed

lemma days_in_year: "days_before_month y 12 = (if is_leap y then 366 else 365)"
  by (simp add: eval_nat_numeral daysIn_def)

lemma day_number_next:
  assumes "valid_date dt"
  shows "day_number (next_date dt) = day_number dt + 1"
proof -
  obtain y m d where dt: "dt = (y, m, d)" by (cases dt)
  have m: "1 \<le> m" "m \<le> 12" and d: "1 \<le> d" "d \<le> daysIn m y"
    using assms by (simp_all add: dt valid_date_def)
  have "days_before_month y (nat m) = days_before_month y (nat (m - 1)) + daysIn m y"
    using m days_before_month.simps(2) [of y "nat (m - 1)"] by (simp add: Suc_nat_eq_nat_zadd1)
  then show ?thesis
    using m d days_before_year_Suc [of y] days_in_year [of y]
    by (auto simp: dt next_date_def day_number_def)
qed

end
