(* ===== verification/Keys.thy ===== *)
theory Keys
  imports Auth EventCodec GoTime
begin

text \<open>
  \<^verbatim>\<open>engine/internal/keys/service.go\<close>: creating, listing and revoking API keys.  A key is stored twice:
  a row with its SHA-256 hash in Postgres, and its context under the raw key in Redis, where
  \<open>ValidateAPIKey\<close> finds it.  The random bytes are arguments, \<open>fmt.Errorf\<close> errors are their texts, and a
  panic is \<open>None\<close>.
\<close>

section \<open>Requests and responses\<close>

text \<open>
  \<open>AllowedModels\<close> is a slice: \<open>AllowedModels_rest\<close> is what its array holds beyond its length, which a
  second member of the same name would decode into.
\<close>

record KeyRequest =
  kr_OrgID :: string
  kr_Name :: string
  kr_CustomerID :: string
  kr_EndUserID :: string
  kr_SourceMode :: string
  kr_BudgetLimitUSD :: string
  kr_RateLimitRPM :: int64
  kr_AllowedModels :: "string list"
  kr_AllowedModels_rest :: "string list"

definition zero_key_request :: KeyRequest where
  "zero_key_request = \<lparr>kr_OrgID = [], kr_Name = [], kr_CustomerID = [], kr_EndUserID = [],
     kr_SourceMode = [], kr_BudgetLimitUSD = [], kr_RateLimitRPM = 0, kr_AllowedModels = [],
     kr_AllowedModels_rest = []\<rparr>"

record KeyResponse =
  kp_ID :: string
  kp_KeyPrefix :: string
  kp_RawKey :: string
  kp_OrgID :: string
  kp_CustomerID :: string
  kp_SourceMode :: string
  kp_Status :: string
  kp_BudgetLimit :: string
  kp_RateLimit :: int64
  kp_Models :: "string list"

record KeyListItem =
  ki_ID :: string
  ki_KeyPrefix :: string
  ki_Name :: string
  ki_OrgID :: string
  ki_SourceMode :: string
  ki_Status :: string
  ki_CreatedAt :: string

fun dec_strings :: "json list \<Rightarrow> string list \<Rightarrow> (string list \<times> bool) \<times> string list" where
  "dec_strings [] old = (([], True), old)"
| "dec_strings (j # js) old =
     (let (s, ok) = dec_string j (case old of [] \<Rightarrow> [] | o' # _ \<Rightarrow> o');
          ((ss, oks), rest) = dec_strings js (tl old)
      in ((s # ss, ok \<and> oks), rest))"

definition dec_models :: "json \<Rightarrow> KeyRequest \<Rightarrow> KeyRequest \<times> bool" where
  "dec_models j r =
     (case j of
        JNull \<Rightarrow> (r\<lparr>kr_AllowedModels := [], kr_AllowedModels_rest := []\<rparr>, True)
      | JArr [] \<Rightarrow> (r\<lparr>kr_AllowedModels := [], kr_AllowedModels_rest := []\<rparr>, True)
      | JArr js \<Rightarrow>
          (let ((ss, ok), rest) = dec_strings js (kr_AllowedModels r @ kr_AllowedModels_rest r)
           in (r\<lparr>kr_AllowedModels := ss, kr_AllowedModels_rest := rest\<rparr>, ok))
      | _ \<Rightarrow> (r, False))"

definition key_request_fields :: "(string \<times> KeyRequest field_decoder) list" where
  "key_request_fields =
     [(''org_id'', str_field kr_OrgID kr_OrgID_update),
      (''name'', str_field kr_Name kr_Name_update),
      (''customer_id'', str_field kr_CustomerID kr_CustomerID_update),
      (''end_user_id'', str_field kr_EndUserID kr_EndUserID_update),
      (''source_mode'', str_field kr_SourceMode kr_SourceMode_update),
      (''budget_limit_usd'', str_field kr_BudgetLimitUSD kr_BudgetLimitUSD_update),
      (''rate_limit_rpm'', \<lambda>j. on_field (dec_int64 j) kr_RateLimitRPM kr_RateLimitRPM_update),
      (''allowed_models'', dec_models)]"

definition key_response_json :: "KeyResponse \<Rightarrow> json" where
  "key_response_json p = JObj
     (str_member ''id'' (kp_ID p) @ str_member ''key_prefix'' (kp_KeyPrefix p)
      @ str_member ''raw_key'' (kp_RawKey p) @ str_member ''org_id'' (kp_OrgID p)
      @ str_member ''customer_id'' (kp_CustomerID p) @ str_member ''source_mode'' (kp_SourceMode p)
      @ str_member ''status'' (kp_Status p) @ opt_str_member ''budget_limit_usd'' (kp_BudgetLimit p)
      @ opt_int_member ''rate_limit_rpm'' (sint (kp_RateLimit p))
      @ (if kp_Models p = [] then [] else [(''allowed_models'', JArr (map JStr (kp_Models p)))]))"

definition key_list_item_json :: "KeyListItem \<Rightarrow> json" where
  "key_list_item_json i = JObj
     (str_member ''id'' (ki_ID i) @ str_member ''key_prefix'' (ki_KeyPrefix i)
      @ str_member ''name'' (ki_Name i) @ str_member ''org_id'' (ki_OrgID i)
      @ str_member ''source_mode'' (ki_SourceMode i) @ str_member ''status'' (ki_Status i)
      @ str_member ''created_at'' (ki_CreatedAt i))"

section \<open>Helpers\<close>

text \<open>
  What is read from \<open>crypto/rand\<close>: 32 bytes or the text of an error for the key; for the identifier the
  buffer after the read, whose error is ignored.
\<close>

record key_entropy =
  ke_rand32 :: "(string, byte list) result"
  ke_rand16 :: "byte list"

definition generateKey :: "key_entropy \<Rightarrow> (string, string \<times> string) result" where
  "generateKey ent =
     (case ke_rand32 ent of
        Inl err \<Rightarrow> Inl err
      | Inr b \<Rightarrow> (let rawKey = ''sk-live-'' @ hex_encode b
                   in Inr (rawKey, take (min 11 (length rawKey)) rawKey)))"

definition sha256Hex :: "string \<Rightarrow> string" where
  "sha256Hex s = hex_encode (Sum256 (string_bytes s))"

definition newUUID :: "key_entropy \<Rightarrow> string" where
  "newUUID ent = uuid_v4 (ke_rand16 ent)"

definition nullIfEmpty :: "string \<Rightarrow> string option" where
  "nullIfEmpty s = (if s = [] then None else Some s)"

definition envDefault :: "environ \<Rightarrow> string \<Rightarrow> string \<Rightarrow> string" where
  "envDefault env key def = (let v = env key in if v \<noteq> [] then v else def)"

section \<open>The service\<close>

text \<open>\<open>ks_PG\<close>: a database connection is configured.\<close>

record KeyService =
  ks_PG :: bool

definition NewService :: "bool \<Rightarrow> KeyService" where
  "NewService pg = \<lparr>ks_PG = pg\<rparr>"

text \<open>A budget is refused when \<open>ParseFloat\<close> fails or its result compares below zero; NaN does not.\<close>

definition budget_ok :: "string \<Rightarrow> bool" where
  "budget_ok b =
     (b = [] \<or> (case ParseFloat b of
                   FloatSyntaxError \<Rightarrow> False | FloatRangeError \<Rightarrow> False
                 | FloatNaN \<Rightarrow> True | FloatInf neg \<Rightarrow> \<not> neg | Finite x \<Rightarrow> 0 \<le> x))"

definition effective_mode :: "KeyRequest \<Rightarrow> string" where
  "effective_mode req = (if kr_SourceMode req = [] then ''direct_ingest'' else kr_SourceMode req)"

definition request_error :: "KeyRequest \<Rightarrow> string option" where
  "request_error req =
     (let mode = effective_mode req; name = TrimSpace (kr_Name req) in
      if mode \<noteq> ''direct_ingest'' \<and> mode \<noteq> ''virtual_key'' \<and> mode \<noteq> ''byok''
        then Some ''INVALID_SOURCE_MODE: must be direct_ingest, virtual_key, or byok''
      else if length name < 3 \<or> 100 < length name then Some ''INVALID_KEY_NAME: must be 3-100 characters''
      else if \<not> budget_ok (kr_BudgetLimitUSD req)
        then Some ''INVALID_BUDGET_LIMIT: must be a non-negative decimal string''
      else if sint (kr_RateLimitRPM req) < 0 then Some ''INVALID_RATE_LIMIT: must be non-negative''
      else None)"

text \<open>\<open>json.Marshal\<close> of the map that is cached: keys in increasing order.\<close>

definition key_context_json :: "string \<Rightarrow> string \<Rightarrow> string \<Rightarrow> string \<Rightarrow> json" where
  "key_context_json i org cust mode = JObj
     (str_member ''customer_id'' cust @ str_member ''key_id'' i @ str_member ''org_id'' org
      @ str_member ''source_mode'' mode @ str_member ''status'' ''active'')"

definition new_key_row :: "string \<Rightarrow> KeyRequest \<Rightarrow> string \<Rightarrow> string \<Rightarrow> int \<Rightarrow> api_key_row" where
  "new_key_row i req keyHash keyPrefix now =
     \<lparr>ak_id = i, ak_org_id = kr_OrgID req, ak_customer_id = nullIfEmpty (kr_CustomerID req),
      ak_end_user_id = nullIfEmpty (kr_EndUserID req), ak_name = TrimSpace (kr_Name req),
      ak_key_hash = keyHash, ak_key_prefix = keyPrefix, ak_source_mode = effective_mode req,
      ak_status = ''active'', ak_created_at = now, ak_revoked_at = None\<rparr>"

text \<open>Neither a failed insert nor a failed write to Redis is reported to the caller.\<close>

definition CreateKey ::
  "'w services \<Rightarrow> KeyService \<Rightarrow> key_entropy \<Rightarrow> KeyRequest \<Rightarrow> 'w \<Rightarrow> (string, KeyResponse) result \<times> 'w" where
  "CreateKey sv s ent req w =
     (case request_error req of
        Some err \<Rightarrow> (Inl err, w)
      | None \<Rightarrow>
          (case generateKey ent of
             Inl err \<Rightarrow> (Inl (''key generation failed: '' @ err), w)
           | Inr (rawKey, keyPrefix) \<Rightarrow>
               let keyHash = sha256Hex rawKey;
                   i = newUUID ent;
                   mode = effective_mode req;
                   w1 = (if ks_PG s
                         then snd (pg_insert_api_key sv (new_key_row i req keyHash keyPrefix) w)
                         else w);
                   kc = json_print (key_context_json i (kr_OrgID req) (kr_CustomerID req) mode);
                   w2 = snd (redis_Set sv (''apikey:'' @ rawKey) kc 0 w1)
               in (Inr \<lparr>kp_ID = i, kp_KeyPrefix = keyPrefix, kp_RawKey = rawKey,
                        kp_OrgID = kr_OrgID req, kp_CustomerID = kr_CustomerID req,
                        kp_SourceMode = mode, kp_Status = ''active'',
                        kp_BudgetLimit = kr_BudgetLimitUSD req, kp_RateLimit = kr_RateLimitRPM req,
                        kp_Models = kr_AllowedModels req\<rparr>, w2)))"

definition pg_error_text :: "pg_error \<Rightarrow> string" where
  "pg_error_text e = (case e of PgError s \<Rightarrow> s)"

text \<open>\<open>tz\<close> is the offset, in minutes, of the location that the driver gives a timestamp.\<close>

definition list_item :: "(int \<Rightarrow> int) \<Rightarrow> api_key_row \<Rightarrow> KeyListItem" where
  "list_item tz r =
     \<lparr>ki_ID = ak_id r, ki_KeyPrefix = ak_key_prefix r, ki_Name = ak_name r, ki_OrgID = ak_org_id r,
      ki_SourceMode = ak_source_mode r, ki_Status = ak_status r,
      ki_CreatedAt = Format_RFC3339 (tz (ak_created_at r)) (ak_created_at r)\<rparr>"

definition clamp_limit :: "int \<Rightarrow> int" where
  "clamp_limit limit = (let l = (if limit \<le> 0 then 100 else limit) in if 1000 < l then 1000 else l)"

text \<open>
  The rows of the organisation, newest first (rows of the same instant in the order of the table),
  without the first \<open>offset\<close>, at most \<open>limit\<close>; a negative offset is an error of the server.
\<close>

definition select_keys :: "string \<Rightarrow> int \<Rightarrow> int \<Rightarrow> api_key_row list \<Rightarrow> api_key_row list" where
  "select_keys org limit offset rows =
     take (nat limit) (drop (nat offset)
       (sort_key (\<lambda>r. - ak_created_at r) (filter (\<lambda>r. ak_org_id r = org) rows)))"

definition ListKeys ::
  "'w services \<Rightarrow> (int \<Rightarrow> int) \<Rightarrow> KeyService \<Rightarrow> string \<Rightarrow> int \<Rightarrow> int \<Rightarrow> 'w
   \<Rightarrow> (string, KeyListItem list) result \<times> 'w" where
  "ListKeys sv tz s orgID limit offset w =
     (if \<not> ks_PG s then (Inl ''postgres not available'', w)
      else
        (case pg_api_keys sv w of
           (Inl e, w') \<Rightarrow> (Inl (pg_error_text e), w')
         | (Inr rows, w') \<Rightarrow>
             if offset < 0 then (Inl ''pq: OFFSET must not be negative'', w')
             else (Inr (map (list_item tz) (select_keys orgID (clamp_limit limit) offset rows)), w')))"

definition revoke_row :: "int \<Rightarrow> api_key_row \<Rightarrow> api_key_row" where
  "revoke_row now r = r\<lparr>ak_status := ''revoked'', ak_revoked_at := Some now\<rparr>"

definition RevokeKey ::
  "'w services \<Rightarrow> KeyService \<Rightarrow> string \<Rightarrow> 'w \<Rightarrow> (string, unit) result option \<times> 'w" where
  "RevokeKey sv s keyID w =
     (if \<not> ks_PG s then (Some (Inl ''postgres not available''), w)
      else
        (case pg_update_api_keys sv (\<lambda>r. ak_id r = keyID) revoke_row w of
           (Inl e, w') \<Rightarrow> (Some (Inl (''key not found or already revoked: '' @ pg_error_text e)), w')
         | (Inr [], w') \<Rightarrow>
             (Some (Inl ''key not found or already revoked: sql: no rows in result set''), w')
         | (Inr (r # _), w') \<Rightarrow>
             if length (ak_key_hash r) < 16 then (None, w') else (Some (Inr ()), w')))"

end
