(* ===== verification/KeysProps.thy ===== *)
theory KeysProps
  imports Keys
begin

text \<open>
  What the key service guarantees, on its own and together with the authentication of the ingest API:
  a created key authenticates with the context of its request, the database holds its hash only,
  revoking a key marks its row and leaves Redis alone, and listing pages through the organisation's
  keys.
\<close>

section \<open>Lemmas on the standard library\<close>

lemma ascii_utf8: "list_all (\<lambda>c. byte_of c < 128) s \<Longrightarrow> valid_utf8 s"
  by (induction s rule: valid_utf8.induct) (auto simp: rune_len_def)

lemma hex_char_ascii: "is_hex_char c \<Longrightarrow> byte_of c < 128"
  by (auto simp: is_hex_char_def byte_of_def)

lemma uuid_v4_utf8: "valid_utf8 (uuid_v4 raw)"
proof (rule ascii_utf8)
  have "c \<in> set (uuid_v4 raw) \<Longrightarrow> is_hex_char c \<or> c = CHR ''-''" for c
    by (auto simp: uuid_v4_def Let_def dest: hex_encode_chars)
  moreover have "byte_of (CHR ''-'') < 128" by (simp add: byte_of_def)
  ultimately show "list_all (\<lambda>c. byte_of c < 128) (uuid_v4 raw)"
    unfolding list_all_iff using hex_char_ascii by blast
qed

lemma hex_digit_inj:
  assumes "hex_digit m = hex_digit n" and "m < 16" and "n < 16"
  shows "m = n"
proof -
  have "\<forall>a \<in> set [0..<16]. \<forall>b \<in> set [0..<16]. hex_digit a = hex_digit b \<longrightarrow> a = b"
    by code_simp
  then show ?thesis using assms by simp
qed

lemma hex_byte_inj: "hex_byte a = hex_byte b \<Longrightarrow> a = b"
proof -
  assume e: "hex_byte a = hex_byte b"
  have l: "unat x < 256" for x :: byte using unsigned_less [of x] by simp
  have "unat a div 16 = unat b div 16" "unat a mod 16 = unat b mod 16"
    using e l [of a] l [of b] by (auto simp: hex_byte_def intro!: hex_digit_inj)
  then have "unat a = unat b" by (metis div_mult_mod_eq)
  then show "a = b" by (rule unsigned_word_eqI)
qed

lemma hex_encode_inj: "hex_encode xs = hex_encode ys \<Longrightarrow> xs = ys"
proof (induction xs arbitrary: ys)
  case (Cons x xs)
  then obtain y ys' where "ys = y # ys'" by (cases ys) (auto simp: hex_encode_def hex_byte_def)
  then show ?case
    using Cons hex_byte_inj [of x y] by (auto simp: hex_encode_def hex_byte_def)
qed (auto simp: hex_encode_def hex_byte_def)

lemma length_sha256Hex: "length (sha256Hex s) = 64"
  by (simp add: sha256Hex_def)

section \<open>The cached context\<close>

definition created_context :: "KeyResponse \<Rightarrow> KeyContext" where
  "created_context p = \<lparr>kc_KeyID = kp_ID p, kc_OrgID = kp_OrgID p, kc_CustomerID = kp_CustomerID p,
     kc_SourceMode = kp_SourceMode p, kc_Status = KeyStatusActive\<rparr>"

lemma key_context_roundtrip:
  assumes "valid_utf8 i" "valid_utf8 org" "valid_utf8 cust" "valid_utf8 mode"
  shows "unmarshal_key_context (json_print (key_context_json i org cust mode)) =
    Inr \<lparr>kc_KeyID = i, kc_OrgID = org, kc_CustomerID = cust, kc_SourceMode = mode, kc_Status = KeyStatusActive\<rparr>"
proof -
  have "valid_utf8 ''active''" by (simp add: byte_of_def rune_len_def)
  then have "json_wf (key_context_json i org cust mode)"
    using assms by (simp add: key_context_json_def str_member_def event_names_utf8 del: valid_utf8.simps)
  moreover have "json_depth (key_context_json i org cust mode) \<le> max_nesting"
    by (simp add: key_context_json_def str_member_def max_nesting_def)
  ultimately have "json_parse (json_print (key_context_json i org cust mode)) = Some (key_context_json i org cust mode)"
    by (rule json_roundtrip)
  then show ?thesis
    by (simp add: unmarshal_key_context_def unmarshal_def key_context_json_def str_member_def
        decode_object_def decode_member_def key_context_fields_def upper_char_def less_eq_char_def
        on_field_def dec_string_def zero_key_context_def KeyStatusActive_def)
qed


section \<open>Properties\<close>

lemma effective_mode_utf8:
  assumes "request_error req = None"
  shows "valid_utf8 (effective_mode req)"
proof -
  have "effective_mode req \<in> {''direct_ingest'', ''virtual_key'', ''byok''}"
    using assms by (auto simp: request_error_def Let_def split: if_splits)
  moreover have "valid_utf8 ''direct_ingest''" "valid_utf8 ''virtual_key''" "valid_utf8 ''byok''"
    by (simp_all add: byte_of_def rune_len_def)
  ultimately show ?thesis by auto
qed

lemma generateKey_eq:
  "generateKey ent = map_sum id (\<lambda>b. (''sk-live-'' @ hex_encode b, take 11 (''sk-live-'' @ hex_encode b))) (ke_rand32 ent)"
proof -
  have "take (min n (length xs)) xs = take n xs" for n and xs :: string by (simp add: min_def)
  then show ?thesis by (simp add: generateKey_def Let_def del: append_Cons split: sum.split)
qed

lemma CreateKey_success:
  assumes "CreateKey sv s ent req w = (Inr p, w')"
  obtains b where "request_error req = None" "ke_rand32 ent = Inr b"
    "kp_RawKey p = ''sk-live-'' @ hex_encode b" "kp_KeyPrefix p = take 11 (kp_RawKey p)"
    "kp_ID p = newUUID ent" "kp_OrgID p = kr_OrgID req" "kp_CustomerID p = kr_CustomerID req"
    "kp_SourceMode p = effective_mode req"
    "w' = snd (redis_Set sv (apikey_key (kp_RawKey p))
       (json_print (key_context_json (kp_ID p) (kr_OrgID req) (kr_CustomerID req) (effective_mode req))) 0
       (if ks_PG s then snd (pg_insert_api_key sv
          (new_key_row (kp_ID p) req (sha256Hex (kp_RawKey p)) (kp_KeyPrefix p)) w) else w))"
  using assms
  by (cases "ke_rand32 ent")
     (auto simp: CreateKey_def generateKey_eq apikey_key_def Let_def simp del: append_Cons split: option.splits)

context backend_up
begin

lemma CreateKey_stores:
  assumes "CreateKey sv s ent req w = (Inr p, w')"
  shows "kv w' = (kv w)(apikey_key (kp_RawKey p) \<mapsto>
      json_print (key_context_json (kp_ID p) (kr_OrgID req) (kr_CustomerID req) (effective_mode req)))"
    and "\<exists>now. db w' = (if ks_PG s then (db w)\<lparr>api_keys := api_keys (db w) @
      [new_key_row (kp_ID p) req (sha256Hex (kp_RawKey p)) (kp_KeyPrefix p) now]\<rparr> else db w)"
proof -
  let ?row = "new_key_row (kp_ID p) req (sha256Hex (kp_RawKey p)) (kp_KeyPrefix p)"
  let ?v = "json_print (key_context_json (kp_ID p) (kr_OrgID req) (kr_CustomerID req) (effective_mode req))"
  define w1 where "w1 = (if ks_PG s then snd (pg_insert_api_key sv ?row w) else w)"
  obtain b where w': "w' = snd (redis_Set sv (apikey_key (kp_RawKey p)) ?v 0 w1)"
    using CreateKey_success [OF assms] unfolding w1_def by metis
  obtain u w2 where st: "redis_Set sv (apikey_key (kp_RawKey p)) ?v 0 w1 = (Inr u, w2)"
    using set_up by blast
  obtain x w3 where ins: "pg_insert_api_key sv ?row w = (Inr x, w3)" using insert_key_up by blast
  have "kv w1 = kv w" using ins insert_key_frame [OF ins] by (auto simp: w1_def)
  then show "kv w' = (kv w)(apikey_key (kp_RawKey p) \<mapsto> ?v)"
    using st set_ok [OF st] by (simp add: w')
  show "\<exists>now. db w' = (if ks_PG s then (db w)\<lparr>api_keys := api_keys (db w) @ [?row now]\<rparr> else db w)"
    using st set_frame [OF st] ins insert_key_ok [OF ins] by (auto simp: w' w1_def)
qed

lemma created_key_authenticates:
  assumes "CreateKey sv s ent req w = (Inr p, w')"
    and "valid_utf8 (kr_OrgID req)" and "valid_utf8 (kr_CustomerID req)"
    and "kv w1 (apikey_key (kp_RawKey p)) = kv w' (apikey_key (kp_RawKey p))"
  shows "\<exists>w2. ValidateAPIKey sv (kp_RawKey p) w1 = (Inr (created_context p), w2)"
proof -
  obtain b where f: "request_error req = None" "kp_ID p = newUUID ent" "kp_OrgID p = kr_OrgID req"
    "kp_CustomerID p = kr_CustomerID req" "kp_SourceMode p = effective_mode req"
    using CreateKey_success [OF assms(1)] by metis
  have "unmarshal_key_context
      (json_print (key_context_json (kp_ID p) (kr_OrgID req) (kr_CustomerID req) (effective_mode req)))
    = Inr (created_context p)"
    using key_context_roundtrip [of "kp_ID p" "kr_OrgID req" "kr_CustomerID req" "effective_mode req"]
      assms(2,3) effective_mode_utf8 [OF f(1)] uuid_v4_utf8 [of "ke_rand16 ent"] f
    by (simp add: newUUID_def created_context_def)
  moreover have "kc_Status (created_context p) = KeyStatusActive" by (simp add: created_context_def)
  ultimately show ?thesis
    using ValidateAPIKey_up [of "kp_RawKey p" w1] CreateKey_stores(1) [OF assms(1)] assms(4)
    by (simp add: key_context_of_value_def)
qed

end

text \<open>The stored hashes are long enough for the log line of \<open>RevokeKey\<close>, which slices 16 bytes off.\<close>

definition hashes_ok :: "database \<Rightarrow> bool" where
  "hashes_ok d = list_all (\<lambda>r. 16 \<le> length (ak_key_hash r)) (api_keys d)"

context backend_up
begin

lemma CreateKey_hashes:
  assumes "CreateKey sv s ent req w = (Inr p, w')" and "hashes_ok (db w)"
  shows "hashes_ok (db w')"
  using CreateKey_stores(2) [OF assms(1)] assms(2)
  by (auto simp: hashes_ok_def new_key_row_def length_sha256Hex split: if_splits)

lemma RevokeKey_result:
  assumes "ks_PG s" and "hashes_ok (db w)"
  shows "\<exists>now w'. RevokeKey sv s k w =
      (Some (if \<exists>r \<in> set (api_keys (db w)). ak_id r = k then Inr ()
             else Inl ''key not found or already revoked: sql: no rows in result set''), w')
    \<and> kv w' = kv w \<and> hashes_ok (db w')
    \<and> db w' = (db w)\<lparr>api_keys := map (\<lambda>r. if ak_id r = k then revoke_row now r else r) (api_keys (db w))\<rparr>"
proof -
  let ?sel = "\<lambda>r. ak_id r = k"
  obtain rows w' where u: "pg_update_api_keys sv ?sel revoke_row w = (Inr rows, w')"
    using update_keys_up by blast
  then obtain now where
    d: "db w' = (db w)\<lparr>api_keys := map (\<lambda>r. if ?sel r then revoke_row now r else r) (api_keys (db w))\<rparr>"
    and rows: "rows = map (revoke_row now) (filter ?sel (api_keys (db w)))"
    using update_keys_ok by blast
  have "\<forall>r \<in> set rows. 16 \<le> length (ak_key_hash r)"
    using assms(2) by (auto simp: rows hashes_ok_def list_all_iff revoke_row_def)
  moreover have "rows = [] \<longleftrightarrow> \<not> (\<exists>r \<in> set (api_keys (db w)). ?sel r)"
    by (auto simp: rows filter_empty_conv)
  moreover have "hashes_ok (db w')"
    using assms(2) by (auto simp: d hashes_ok_def list_all_iff revoke_row_def)
  ultimately show ?thesis
    using assms(1) u d update_keys_frame [OF u]
    by (intro exI [of _ now] exI [of _ w']) (auto simp: RevokeKey_def split: list.split)
qed

end

text \<open>
  C8.  A created key works at once.  With no failing command, the raw key that \<open>CreateKey\<close> returns
  authenticates against the ingest API with exactly the id, organisation, customer and source mode of
  the response; no other Redis entry changes; and the database gains one row, with the SHA-256 hash
  of the key and its first eleven characters instead of the key.
\<close>

theorem CreateKey_authenticates:
  assumes "backend_up sv kv bf db sent" and "CreateKey sv s ent req w = (Inr p, w')"
    and "valid_utf8 (kr_OrgID req)" and "valid_utf8 (kr_CustomerID req)"
  shows "(\<exists>w2. ValidateAPIKey sv (kp_RawKey p) w' = (Inr (created_context p), w2))
    \<and> (\<forall>k. k \<noteq> apikey_key (kp_RawKey p) \<longrightarrow> kv w' k = kv w k)
    \<and> (ks_PG s \<longrightarrow> (\<exists>now. api_keys (db w') = api_keys (db w) @
          [new_key_row (kp_ID p) req (sha256Hex (kp_RawKey p)) (take 11 (kp_RawKey p)) now]))"
proof -
  have pre: "kp_KeyPrefix p = take 11 (kp_RawKey p)" using CreateKey_success [OF assms(2)] by metis
  show ?thesis
    using backend_up.created_key_authenticates [OF assms refl] pre
      backend_up.CreateKey_stores [OF assms(1,2)] by (auto split: if_splits)
qed

definition demo_key_request :: KeyRequest where
  "demo_key_request = zero_key_request\<lparr>kr_OrgID := ''acme'', kr_Name := '' ci key '', kr_CustomerID := ''c1''\<rparr>"

definition demo_key_entropy :: key_entropy where
  "demo_key_entropy = \<lparr>ke_rand32 = Inr (replicate 32 7), ke_rand16 = replicate 16 9\<rparr>"

lemma demo_key_request_ok: "request_error demo_key_request = None"
proof -
  have "TrimSpace '' ci key '' = ''ci key''" by code_simp
  then show ?thesis
    by (simp add: request_error_def effective_mode_def demo_key_request_def zero_key_request_def budget_ok_def)
qed

lemma demo_create:
  "\<exists>p w'. CreateKey (ref_services False) (NewService True) demo_key_entropy demo_key_request empty_world = (Inr p, w')
     \<and> kp_OrgID p = ''acme'' \<and> kp_CustomerID p = ''c1'' \<and> kp_SourceMode p = ''direct_ingest''"
  by (simp add: CreateKey_def demo_key_request_ok generateKey_eq demo_key_entropy_def Let_def)
     (simp add: demo_key_request_def zero_key_request_def effective_mode_def)

lemma demo_key_utf8: "valid_utf8 (kr_OrgID demo_key_request)" "valid_utf8 (kr_CustomerID demo_key_request)"
  by (simp_all add: demo_key_request_def zero_key_request_def byte_of_def rune_len_def)

theorem CreateKey_authenticates_witness:
  "\<exists>p w' kc w2. CreateKey (ref_services False) (NewService True) demo_key_entropy demo_key_request empty_world = (Inr p, w')
     \<and> ValidateAPIKey (ref_services False) (kp_RawKey p) w' = (Inr kc, w2)
     \<and> kc_OrgID kc = ''acme'' \<and> kc_CustomerID kc = ''c1''"
proof -
  obtain p w' where c: "CreateKey (ref_services False) (NewService True) demo_key_entropy demo_key_request empty_world
      = (Inr p, w')" "kp_OrgID p = ''acme''" "kp_CustomerID p = ''c1''"
    using demo_create by blast
  from CreateKey_authenticates [OF ref_up.backend_up_axioms c(1) demo_key_utf8] show ?thesis
    using c by (auto simp: created_context_def)
qed

text \<open>
  C25.  Revocation does not reach the ingest API.  With no failing command, revoking a key that has
  just been created succeeds and marks every row with its id as revoked, but the raw key still
  authenticates as active afterwards: nothing removes its entry from Redis.
\<close>

theorem revoked_key_authenticates:
  assumes "backend_up sv kv bf db sent" and "CreateKey sv s ent req w = (Inr p, w1)"
    and "valid_utf8 (kr_OrgID req)" and "valid_utf8 (kr_CustomerID req)"
    and "ks_PG s" and "hashes_ok (db w)"
  shows "\<exists>w2 w3. RevokeKey sv s (kp_ID p) w1 = (Some (Inr ()), w2)
    \<and> list_all (\<lambda>r. ak_id r = kp_ID p \<longrightarrow> ak_status r = ''revoked'') (api_keys (db w2))
    \<and> ValidateAPIKey sv (kp_RawKey p) w2 = (Inr (created_context p), w3)"
proof -
  have "hashes_ok (db w1)" by (rule backend_up.CreateKey_hashes [OF assms(1,2,6)])
  moreover have "\<exists>r \<in> set (api_keys (db w1)). ak_id r = kp_ID p"
    using backend_up.CreateKey_stores(2) [OF assms(1,2)] assms(5) by (auto simp: new_key_row_def)
  ultimately obtain now w2 where r: "RevokeKey sv s (kp_ID p) w1 = (Some (Inr ()), w2)" "kv w2 = kv w1"
    "db w2 = (db w1)\<lparr>api_keys := map (\<lambda>r. if ak_id r = kp_ID p then revoke_row now r else r) (api_keys (db w1))\<rparr>"
    using backend_up.RevokeKey_result [OF assms(1,5), of w1 "kp_ID p"] by auto
  moreover have "list_all (\<lambda>r. ak_id r = kp_ID p \<longrightarrow> ak_status r = ''revoked'') (api_keys (db w2))"
    by (auto simp: r(3) list_all_iff revoke_row_def)
  ultimately show ?thesis
    using backend_up.created_key_authenticates [OF assms(1-4), of w2] by auto
qed

theorem revoked_key_authenticates_witness:
  "\<exists>p w1 w2 w3 kc. CreateKey (ref_services False) (NewService True) demo_key_entropy demo_key_request empty_world = (Inr p, w1)
     \<and> RevokeKey (ref_services False) (NewService True) (kp_ID p) w1 = (Some (Inr ()), w2)
     \<and> ValidateAPIKey (ref_services False) (kp_RawKey p) w2 = (Inr kc, w3)"
proof -
  obtain p w1 where c: "CreateKey (ref_services False) (NewService True) demo_key_entropy demo_key_request empty_world
      = (Inr p, w1)"
    using demo_create by blast
  have "ks_PG (NewService True)" "hashes_ok (rw_db empty_world)"
    by (simp_all add: NewService_def hashes_ok_def empty_world_def empty_db_def)
  from revoked_key_authenticates [OF ref_up.backend_up_axioms c demo_key_utf8 this] c show ?thesis by blast
qed





text \<open>
  Keys are as random as their bytes.  From 32 random bytes, \<open>generateKey\<close> makes a key of 72
  characters, \<^verbatim>\<open>sk-live-\<close> and 64 lower-case hexadecimal digits, and a prefix that shows three of the
  digits; different bytes give different keys.
\<close>

theorem generateKey_format:
  assumes "ke_rand32 ent = Inr b" and "length b = 32"
  shows "\<exists>ds. generateKey ent = Inr (''sk-live-'' @ ds, ''sk-live-'' @ take 3 ds) \<and> length ds = 64
    \<and> length (''sk-live-'' @ ds) = 72 \<and> list_all is_hex_char ds
    \<and> (\<forall>ent' b'. ke_rand32 ent' = Inr b' \<longrightarrow> generateKey ent' = generateKey ent \<longrightarrow> b' = b)"
  using assms hex_encode_inj
  by (intro exI [of _ "hex_encode b"]) (auto simp: generateKey_eq list_all_iff hex_encode_chars)

theorem generateKey_format_witness:
  "\<exists>ds. generateKey demo_key_entropy = Inr (''sk-live-'' @ ds, ''sk-live-'' @ take 3 ds) \<and> length ds = 64"
  using generateKey_format [of demo_key_entropy "replicate 32 7"] by (auto simp: demo_key_entropy_def)

section \<open>Listing\<close>

lemma sorted_take_drop:
  "sorted (map f xs) \<Longrightarrow> sorted (map f (take n (drop m xs)))"
  by (simp add: sorted_wrt_take sorted_wrt_drop take_map [symmetric] drop_map [symmetric])

lemma set_select_keys: "r \<in> set (select_keys org l o' rows) \<Longrightarrow> r \<in> set rows \<and> ak_org_id r = org"
  unfolding select_keys_def using set_take_subset set_drop_subset by (fastforce dest!: in_set_takeD in_set_dropD)

lemma select_keys_pages:
  assumes "0 \<le> l" and "0 \<le> m" and "0 \<le> o'"
  shows "select_keys org l o' rows @ select_keys org m (o' + l) rows = select_keys org (l + m) o' rows"
  using assms by (simp add: select_keys_def nat_add_distrib take_add add.commute)



end
