(* ===== verification/Daemon.thy ===== *)
theory Daemon
  imports Ingest KeysProps
begin

text \<open>
  \<^verbatim>\<open>engine/internal/daemon/cache_daemon.go\<close>: warming the existence caches of Redis from Postgres, and
  writing and removing single key contexts.  Failures of Redis are ignored by the daemon, and so is a
  row whose column is NULL where the scan wants a string.
\<close>

section \<open>The daemon\<close>

record CacheDaemon =
  cd_PG :: bool
  Interval :: duration

definition New :: "environ \<Rightarrow> bool \<Rightarrow> CacheDaemon" where
  "New env pg =
     (let s = env ''SYNC_INTERVAL'';
          interval = (if s \<noteq> [] then (case ParseDuration s of Some d \<Rightarrow> d | None \<Rightarrow> 300000000000)
                      else 300000000000)
      in \<lparr>cd_PG = pg, Interval = interval\<rparr>)"

text \<open>The keys that one row adds to the cache, in the order of the writes.\<close>

definition warm_org_row :: "org_row \<Rightarrow> string list" where
  "warm_org_row r = [''org:'' @ org_id_col r]"

definition warm_key_row :: "api_key_row \<Rightarrow> string list" where
  "warm_key_row r =
     (case (ak_customer_id r, ak_end_user_id r) of
        (Some customerID, Some endUserID) \<Rightarrow>
          (''org:'' @ ak_org_id r)
          # (if endUserID \<noteq> [] then [''org:'' @ ak_org_id r @ '':enduser:'' @ endUserID] else [])
      | _ \<Rightarrow> [])"

definition warm_eu_row :: "end_user_row \<Rightarrow> string list" where
  "warm_eu_row r = [''org:'' @ eu_org_id_col r @ '':enduser:'' @ eu_id_col r]"

definition warm_write :: "'w services \<Rightarrow> string list \<Rightarrow> 'w \<Rightarrow> 'w" where
  "warm_write sv ks w = foldl (\<lambda>w k. snd (redis_Set sv k ''1'' (1 * Hour) w)) w ks"

definition warmAll :: "'w services \<Rightarrow> CacheDaemon \<Rightarrow> 'w \<Rightarrow> 'w" where
  "warmAll sv d w =
     (if \<not> cd_PG d then w
      else
        let (orgs, w1) = pg_organizations sv w;
            w2 = (case orgs of
                    Inl _ \<Rightarrow> w1
                  | Inr rows \<Rightarrow>
                      warm_write sv (concat (map warm_org_row (filter (\<lambda>r. org_status_col r = ''ACTIVE'') rows))) w1);
            (keys, w3) = pg_api_keys sv w2;
            w4 = (case keys of
                    Inl _ \<Rightarrow> w3
                  | Inr rows \<Rightarrow>
                      warm_write sv (concat (map warm_key_row (filter (\<lambda>r. ak_status r = ''active'') rows))) w3);
            (eus, w5) = pg_end_users sv w4
        in (case eus of
              Inl _ \<Rightarrow> w5
            | Inr rows \<Rightarrow>
                warm_write sv (concat (map warm_eu_row (filter (\<lambda>r. eu_status_col r = ''active'') rows))) w5))"

text \<open>
  The goroutine of \<open>Start\<close> after \<open>n\<close> ticks; creating the ticker panics, after the first round, unless
  the interval is positive.
\<close>

fun daemon_run :: "'w services \<Rightarrow> CacheDaemon \<Rightarrow> nat \<Rightarrow> 'w \<Rightarrow> 'w option" where
  "daemon_run sv d 0 w = (if Interval d \<le> 0 then None else Some (warmAll sv d w))"
| "daemon_run sv d (Suc n) w = map_option (warmAll sv d) (daemon_run sv d n w)"

definition sync_value :: "string \<Rightarrow> string \<Rightarrow> string \<Rightarrow> string \<Rightarrow> string \<Rightarrow> string" where
  "sync_value keyID orgID customerID sourceMode st =
     (let q = [CHR 0x22] in
      [CHR 0x7B] @ q @ ''key_id'' @ q @ '':'' @ q @ keyID @ q @ '','' @ q @ ''org_id'' @ q @ '':'' @ q @ orgID @ q
      @ '','' @ q @ ''customer_id'' @ q @ '':'' @ q @ customerID @ q
      @ '','' @ q @ ''source_mode'' @ q @ '':'' @ q @ sourceMode @ q
      @ '','' @ q @ ''status'' @ q @ '':'' @ q @ st @ q @ [CHR 0x7D])"

definition SyncKey ::
  "'w services \<Rightarrow> string \<Rightarrow> string \<Rightarrow> string \<Rightarrow> string \<Rightarrow> string \<Rightarrow> string \<Rightarrow> 'w \<Rightarrow> 'w" where
  "SyncKey sv rawKey keyID orgID customerID sourceMode st w =
     snd (redis_Set sv (''apikey:'' @ rawKey) (sync_value keyID orgID customerID sourceMode st) 0 w)"

definition daemon_RevokeKey :: "'w services \<Rightarrow> string \<Rightarrow> 'w \<Rightarrow> 'w" where
  "daemon_RevokeKey sv rawKey w = snd (redis_Del sv (''apikey:'' @ rawKey) w)"

section \<open>Warming\<close>

text \<open>Everything that a round writes.\<close>

definition warm_keys :: "database \<Rightarrow> string list" where
  "warm_keys d =
     concat (map warm_org_row (filter (\<lambda>r. org_status_col r = ''ACTIVE'') (organizations d)))
     @ concat (map warm_key_row (filter (\<lambda>r. ak_status r = ''active'') (api_keys d)))
     @ concat (map warm_eu_row (filter (\<lambda>r. eu_status_col r = ''active'') (end_users d)))"

definition warmed :: "string list \<Rightarrow> (string \<Rightarrow> string option) \<Rightarrow> string \<Rightarrow> string option" where
  "warmed ks m = (\<lambda>k. if k \<in> set ks then Some ''1'' else m k)"

lemma warmed_append: "warmed ks (warmed js m) = warmed (js @ ks) m"
  by (auto simp: warmed_def fun_eq_iff)

lemma warmed_idem: "warmed ks (warmed ks m) = warmed ks m"
  by (auto simp: warmed_def fun_eq_iff)

context backend_up
begin

lemma warm_write_kv:
  "kv (warm_write sv ks w) = warmed ks (kv w) \<and> bf (warm_write sv ks w) = bf w
   \<and> db (warm_write sv ks w) = db w \<and> sent (warm_write sv ks w) = sent w"
proof (induction ks arbitrary: w)
  case Nil
  then show ?case by (simp add: warm_write_def warmed_def)
next
  case (Cons k ks)
  obtain u w1 where s: "redis_Set sv k ''1'' (1 * Hour) w = (Inr u, w1)" using set_up by blast
  then have "warm_write sv (k # ks) w = warm_write sv ks w1" by (simp add: warm_write_def)
  moreover have "warmed ks ((kv w)(k \<mapsto> ''1'')) = warmed (k # ks) (kv w)" by (auto simp: warmed_def)
  ultimately show ?case using Cons [of w1] set_ok [OF s] set_frame [OF s] by (simp del: fun_upd_apply)
qed

lemma warmAll_kv:
  assumes "cd_PG d"
  shows "kv (warmAll sv d w) = warmed (warm_keys (db w)) (kv w) \<and> db (warmAll sv d w) = db w
    \<and> sent (warmAll sv d w) = sent w"
proof -
  let ?orgs = "concat (map warm_org_row (filter (\<lambda>r. org_status_col r = ''ACTIVE'') (organizations (db w))))"
  let ?keys = "concat (map warm_key_row (filter (\<lambda>r. ak_status r = ''active'') (api_keys (db w))))"
  let ?eus = "concat (map warm_eu_row (filter (\<lambda>r. eu_status_col r = ''active'') (end_users (db w))))"
  obtain w1 where o1: "pg_organizations sv w = (Inr (organizations (db w)), w1)"
    "kv w1 = kv w" "db w1 = db w" "sent w1 = sent w"
    using orgs_up [of w] orgs_ok [of w] by metis
  define w2 where "w2 = warm_write sv ?orgs w1"
  have k2: "kv w2 = warmed ?orgs (kv w)" "db w2 = db w" "sent w2 = sent w"
    using warm_write_kv [of ?orgs w1] o1 by (simp_all add: w2_def)
  obtain w3 where o3: "pg_api_keys sv w2 = (Inr (api_keys (db w)), w3)" "kv w3 = kv w2" "db w3 = db w" "sent w3 = sent w"
    using api_keys_up [of w2] api_keys_ok [of w2] k2 by metis
  define w4 where "w4 = warm_write sv ?keys w3"
  have k4: "kv w4 = warmed ?keys (kv w2)" "db w4 = db w" "sent w4 = sent w"
    using warm_write_kv [of ?keys w3] o3 by (simp_all add: w4_def)
  obtain w5 where o5: "pg_end_users sv w4 = (Inr (end_users (db w)), w5)" "kv w5 = kv w4" "db w5 = db w" "sent w5 = sent w"
    using end_users_up [of w4] end_users_ok [of w4] k4 by metis
  have "warmAll sv d w = warm_write sv ?eus w5"
    using assms o1(1) o3(1) o5(1) by (simp add: warmAll_def w2_def w4_def)
  then show ?thesis
    using warm_write_kv [of ?eus w5] o5 k4 k2 by (simp add: warmed_append warm_keys_def)
qed

lemma daemon_run_kv:
  assumes "cd_PG d" and "0 < Interval d"
  shows "\<exists>w'. daemon_run sv d n w = Some w' \<and> kv w' = warmed (warm_keys (db w)) (kv w) \<and> db w' = db w \<and> sent w' = sent w"
proof (induction n)
  case 0
  then show ?case using assms warmAll_kv [OF assms(1), of w] by simp
next
  case (Suc n)
  then obtain w' where "daemon_run sv d n w = Some w'" "kv w' = warmed (warm_keys (db w)) (kv w)" "db w' = db w" "sent w' = sent w"
    by blast
  then show ?case using warmAll_kv [OF assms(1), of w'] by (simp add: warmed_idem)
qed

end

section \<open>Single keys\<close>

text \<open>Text that JSON writes as it is: printable ASCII without quotes, backslashes and HTML specials.\<close>

definition plain_char :: "char \<Rightarrow> bool" where
  "plain_char c = (0x20 \<le> byte_of c \<and> byte_of c < 0x80 \<and> c \<notin> {CHR 0x22, CHR 0x5C, CHR ''<'', CHR ''>'', CHR ''&''})"

lemma quote_body_plain: "list_all plain_char s \<Longrightarrow> quote_body s = s"
proof (induction s)
  case (Cons c s)
  have p: "plain_char c" using Cons.prems by simp
  then have "c \<noteq> CHR 0x08" "c \<noteq> CHR 0x0C" "c \<noteq> CHR 0x0A" "c \<noteq> CHR 0x0D" "c \<noteq> CHR 0x09"
    by (force simp: plain_char_def byte_of_def)+
  with p have "escape_ascii c = [c]" by (simp add: plain_char_def escape_ascii_def)
  then show ?case
    using Cons by (subst quote_body.simps) (simp add: plain_char_def Let_def)
qed (simp add: quote_body.simps)

lemma plain_utf8: "list_all plain_char s \<Longrightarrow> valid_utf8 s"
  by (rule ascii_utf8) (auto simp: list_all_iff plain_char_def)

lemma member_names_plain:
  "list_all plain_char ''key_id''" "list_all plain_char ''org_id''" "list_all plain_char ''customer_id''"
  "list_all plain_char ''source_mode''" "list_all plain_char ''status''"
  by (simp_all add: plain_char_def byte_of_def)

lemmas member_names_quoted = member_names_plain [THEN quote_body_plain]

lemma sync_value_json:
  assumes "list_all (list_all plain_char) [i, org, cust, mode, st]"
  shows "sync_value i org cust mode st = json_print (JObj [(''key_id'', JStr i), (''org_id'', JStr org),
    (''customer_id'', JStr cust), (''source_mode'', JStr mode), (''status'', JStr st)])"
  using assms by (simp add: sync_value_def json_quote_def quote_body_plain member_names_quoted Let_def)

lemma sync_value_context:
  assumes "list_all (list_all plain_char) [i, org, cust, mode, st]"
  shows "unmarshal_key_context (sync_value i org cust mode st) =
    Inr \<lparr>kc_KeyID = i, kc_OrgID = org, kc_CustomerID = cust, kc_SourceMode = mode, kc_Status = st\<rparr>"
proof -
  let ?j = "JObj [(''key_id'', JStr i), (''org_id'', JStr org), (''customer_id'', JStr cust),
    (''source_mode'', JStr mode), (''status'', JStr st)]"
  have "json_wf ?j" "json_depth ?j \<le> max_nesting"
    using assms plain_utf8 member_names_plain by (simp_all add: max_nesting_def del: valid_utf8.simps)
  then have "json_parse (sync_value i org cust mode st) = Some ?j"
    unfolding sync_value_json [OF assms] by (rule json_roundtrip)
  then show ?thesis
    by (simp add: unmarshal_key_context_def unmarshal_def decode_object_def decode_member_def
        key_context_fields_def upper_char_def less_eq_char_def on_field_def dec_string_def zero_key_context_def)
qed

section \<open>Properties\<close>

text \<open>
  What the daemon caches.  With no failing command and a positive interval, after the first round
  and after any number of further ones, Redis has the marker \<^verbatim>\<open>1\<close> exactly at the keys of \<open>warm_keys\<close> (the
  active organisations, the active end users, and the organisation and end user of each active API
  key that has both a customer and an end user) and its old contents elsewhere; nothing else changes.
\<close>

theorem daemon_run_exact:
  assumes "backend_up sv kv bf db sent" and "cd_PG d" and "0 < Interval d"
  shows "\<exists>w'. daemon_run sv d n w = Some w' \<and> db w' = db w \<and> sent w' = sent w
    \<and> (\<forall>k. kv w' k = (if k \<in> set (warm_keys (db w)) then Some ''1'' else kv w k))"
  using backend_up.daemon_run_kv [OF assms, of n w] by (auto simp: warmed_def)

definition demo_daemon_db :: database where
  "demo_daemon_db = empty_db\<lparr>organizations := [\<lparr>org_id_col = ''acme'', org_status_col = ''SUSPENDED''\<rparr>],
     api_keys := [\<lparr>ak_id = ''k'', ak_org_id = ''acme'', ak_customer_id = Some ''c'', ak_end_user_id = Some ''u'',
       ak_name = ''ci key'', ak_key_hash = ''0123456789abcdef'', ak_key_prefix = ''sk-live-abc'',
       ak_source_mode = ''direct_ingest'', ak_status = ''active'', ak_created_at = 0, ak_revoked_at = None\<rparr>]\<rparr>"

lemma demo_daemon: "cd_PG (New (\<lambda>_. []) True)" "0 < Interval (New (\<lambda>_. []) True)"
  by (simp_all add: New_def)

theorem daemon_run_exact_witness:
  "\<exists>w'. daemon_run (ref_services False) (New (\<lambda>_. []) True) 3 (empty_world\<lparr>rw_db := demo_daemon_db\<rparr>) = Some w'
     \<and> rw_kv w' ''org:acme:enduser:u'' = Some ''1'' \<and> rw_kv w' ''org:other'' = None"
  using daemon_run_exact [OF ref_up.backend_up_axioms demo_daemon, of 3 "empty_world\<lparr>rw_db := demo_daemon_db\<rparr>"]
  by (auto simp: warm_keys_def demo_daemon_db_def empty_db_def empty_world_def warm_org_row_def
      warm_key_row_def warm_eu_row_def)

text \<open>
  C31.  Warming and the checks of the ingest API.  After the daemon has run, the organisation and end
  user checks accept, even without a database, every active organisation and every active end user;
  and also every organisation that has an active API key with a customer and an end user, whatever
  the status of the organisation.
\<close>

theorem warmed_checks:
  assumes "backend_up sv kv bf db sent" and "cd_PG d" and "daemon_run sv d n w = Some w'"
  shows "(active_org (db w) org \<longrightarrow> fst (verifyOrg sv h org w') = None)
    \<and> (list_ex (\<lambda>r. eu_id_col r = eu \<and> eu_org_id_col r = org \<and> eu_status_col r = ''active'') (end_users (db w))
         \<longrightarrow> fst (verifyEndUser sv h org eu w') = None)
    \<and> (list_ex (\<lambda>r. ak_org_id r = org \<and> ak_status r = ''active'' \<and> ak_customer_id r \<noteq> None
            \<and> ak_end_user_id r \<noteq> None) (api_keys (db w))
         \<longrightarrow> fst (verifyOrg sv h org w') = None)"
proof -
  have "0 < Interval d" using assms(3) by (induction n arbitrary: w') (auto split: if_splits)
  then have w': "kv w' = warmed (warm_keys (db w)) (kv w)"
    using backend_up.daemon_run_kv [OF assms(1,2), of n w] assms(3) by auto
  have v: "fst (verifyOrg sv h org w') = None" if "org_key org \<in> set (warm_keys (db w))"
    using that w' by (simp add: verify_lookup backend_up.verifyOrg_up(1) [OF assms(1)] warmed_def)
  have e: "fst (verifyEndUser sv h org eu w') = None" if "eu_key org eu \<in> set (warm_keys (db w))"
    using that w' by (simp add: verify_lookup backend_up.verifyEndUser_up(1) [OF assms(1)] warmed_def)
  show ?thesis
    by (intro conjI impI v e)
       (fastforce simp: list_ex_iff active_org_def warm_keys_def warm_org_row_def warm_key_row_def warm_eu_row_def
          org_key_def eu_key_def)+
qed

theorem warmed_checks_witness:
  "\<exists>w'. daemon_run (ref_services False) (New (\<lambda>_. []) True) 0 (empty_world\<lparr>rw_db := demo_daemon_db\<rparr>) = Some w'
     \<and> fst (verifyOrg (ref_services False) (demo_handler False) ''acme'' w') = None \<and> \<not> active_org demo_daemon_db ''acme''"
proof -
  obtain w' where r: "daemon_run (ref_services False) (New (\<lambda>_. []) True) 0 (empty_world\<lparr>rw_db := demo_daemon_db\<rparr>) = Some w'"
    using demo_daemon(2) by simp
  from warmed_checks [OF ref_up.backend_up_axioms demo_daemon(1) r, of "''acme''"] r show ?thesis
    by (auto simp: demo_daemon_db_def active_org_def empty_db_def)
qed

text \<open>
  Synchronising one key.  With no failing command, and fields of printable ASCII without quotes,
  backslashes and HTML specials, a key that \<open>SyncKey\<close> has written is seen by the ingest API with exactly
  these fields, accepted when its status is \<^verbatim>\<open>active\<close> and refused otherwise; after \<open>RevokeKey\<close> of the daemon
  it is unknown.
\<close>

theorem SyncKey_validates:
  assumes "backend_up sv kv bf db sent" and "list_all (list_all plain_char) [i, org, cust, mode, st]"
  shows "(\<exists>w'. ValidateAPIKey sv raw (SyncKey sv raw i org cust mode st w) =
       (if st = ''active'' then Inr \<lparr>kc_KeyID = i, kc_OrgID = org, kc_CustomerID = cust, kc_SourceMode = mode, kc_Status = st\<rparr>
        else Inl (if st = ''revoked'' then Wrapped ErrKeyRevoked (''key_id='' @ i)
                  else if st = ''expired'' then Wrapped ErrKeyExpired (''key_id='' @ i)
                  else Wrapped ErrKeyNotFound (MaskKey raw)), w'))
    \<and> (\<exists>w'. ValidateAPIKey sv raw (daemon_RevokeKey sv raw w) = (Inl (Wrapped ErrKeyNotFound (MaskKey raw)), w'))"
proof
  let ?v = "sync_value i org cust mode st"
  note be = backend_up.axioms(1) [OF assms(1)]
  obtain u w1 where s: "redis_Set sv (apikey_key raw) ?v 0 w = (Inr u, w1)"
    using backend_up.set_up [OF assms(1)] by blast
  then have "kv w1 (apikey_key raw) = Some ?v" using backend.set_ok [OF be s] by simp
  moreover have "SyncKey sv raw i org cust mode st w = w1" using s by (simp add: SyncKey_def apikey_key_def)
  ultimately show "\<exists>w'. ValidateAPIKey sv raw (SyncKey sv raw i org cust mode st w) =
       (if st = ''active'' then Inr \<lparr>kc_KeyID = i, kc_OrgID = org, kc_CustomerID = cust, kc_SourceMode = mode, kc_Status = st\<rparr>
        else Inl (if st = ''revoked'' then Wrapped ErrKeyRevoked (''key_id='' @ i)
                  else if st = ''expired'' then Wrapped ErrKeyExpired (''key_id='' @ i)
                  else Wrapped ErrKeyNotFound (MaskKey raw)), w')"
    using backend_up.ValidateAPIKey_up [OF assms(1), of raw w1] sync_value_context [OF assms(2)]
    by (auto simp: key_context_of_value_def key_status_defs)
  obtain n w2 where d: "redis_Del sv (apikey_key raw) w = (Inr n, w2)"
    using backend_up.del_up [OF assms(1)] by blast
  then have "kv w2 (apikey_key raw) = None" using backend.del_ok [OF be d] by simp
  moreover have "daemon_RevokeKey sv raw w = w2" using d by (simp add: daemon_RevokeKey_def apikey_key_def)
  ultimately show "\<exists>w'. ValidateAPIKey sv raw (daemon_RevokeKey sv raw w) = (Inl (Wrapped ErrKeyNotFound (MaskKey raw)), w')"
    using backend_up.ValidateAPIKey_up [OF assms(1), of raw w2] by simp
qed

theorem SyncKey_validates_witness:
  "\<exists>w'. ValidateAPIKey (ref_services False) ''sk-1''
      (SyncKey (ref_services False) ''sk-1'' ''k1'' ''acme'' ''c1'' ''byok'' ''revoked'' empty_world)
     = (Inl (Wrapped ErrKeyRevoked ''key_id=k1''), w')"
proof -
  have "list_all (list_all plain_char) [''k1'', ''acme'', ''c1'', ''byok'', ''revoked'']"
    by (simp add: plain_char_def byte_of_def)
  from SyncKey_validates [OF ref_up.backend_up_axioms this, of "''sk-1''" empty_world] show ?thesis by simp
qed

end
