(* ===== verification/IngestApi.thy ===== *)
theory IngestApi
  imports BatchProps Mux Daemon
begin

text \<open>
  \<^verbatim>\<open>engine/cmd/ingest-api/main.go\<close>: the ingest server.  Health and readiness are open; everything under
  \<^verbatim>\<open>/v1/\<close> goes through \<open>AuthMiddleware\<close> to a mux with the two ingest endpoints.  Dialling a TCP
  address is an argument.
\<close>

section \<open>Handlers of the program\<close>

definition envOrDefault :: "environ \<Rightarrow> string \<Rightarrow> string \<Rightarrow> string" where
  "envOrDefault env key defaultVal = (let v = env key in if v \<noteq> [] then v else defaultVal)"

definition boolStatus :: "bool \<Rightarrow> string" where
  "boolStatus ok = (if ok then ''ok'' else ''unavailable'')"

definition checkTCP :: "(string \<Rightarrow> bool) \<Rightarrow> string \<Rightarrow> string \<Rightarrow> bool" where
  "checkTCP dial host port = dial (host @ '':'' @ port)"

definition ingest_healthHandler :: "request \<Rightarrow> 'w \<Rightarrow> reply \<times> 'w" where
  "ingest_healthHandler r w = (Reply \<lparr>status = 200, content_type = ''application/json'',
     resp_body = json_print (JObj [(''status'', JStr ''ok'')])\<rparr>, w)"

definition ingest_readyHandler :: "environ \<Rightarrow> (string \<Rightarrow> bool) \<Rightarrow> request \<Rightarrow> 'w \<Rightarrow> reply \<times> 'w" where
  "ingest_readyHandler env dial r w =
     (let pgOK = checkTCP dial (envOrDefault env ''PG_HOST'' ''localhost'') (envOrDefault env ''PG_PORT'' ''5432'');
          redisOK = checkTCP dial (envOrDefault env ''REDIS_HOST'' ''localhost'') (envOrDefault env ''REDIS_PORT'' ''6379'');
          kafkaOK = checkTCP dial (envOrDefault env ''KAFKA_HOST'' ''localhost'') (envOrDefault env ''KAFKA_PORT'' ''9092'');
          allOK = (pgOK \<and> redisOK \<and> kafkaOK)
      in (Reply \<lparr>status = (if allOK then 200 else 503), content_type = ''application/json'',
            resp_body = json_print (JObj [(''status'', JStr (boolStatus allOK)),
              (''dependencies'', JObj [(''postgres'', JStr (boolStatus pgOK)), (''redis'', JStr (boolStatus redisOK)),
                 (''kafka'', JStr (boolStatus kafkaOK))])])\<rparr>, w))"

section \<open>The server\<close>

text \<open>What the process and a request bring along: the environment, the network and random bytes.\<close>

record ingest_env =
  in_env :: environ
  in_dial :: "string \<Rightarrow> bool"
  in_ent :: entropy
  in_ents :: "nat \<Rightarrow> entropy"

definition ingest_routes ::
  "'w services \<Rightarrow> 'w IngestHandler \<Rightarrow> ingest_env \<Rightarrow> (string \<times> (request \<Rightarrow> 'w \<Rightarrow> served \<times> 'w)) list" where
  "ingest_routes sv h e =
     [(''/v1/events'', plain (\<lambda>r w. map_prod Reply id (HandleSingleEvent sv h (in_env e) (in_ent e) r w))),
      (''/v1/events/batch'', plain (HandleBatchEvent sv h (in_env e) (in_ents e)))]"

text \<open>
  The reply of the inner mux inside the middleware; the outer mux has cleaned the path, and the inner
  patterns have no subtrees, so that it never redirects.
\<close>

definition moved_response :: response where
  "moved_response = \<lparr>status = 301, content_type = ''text/html; charset=utf-8'', resp_body = []\<rparr>"

definition as_reply :: "(request \<Rightarrow> 'w \<Rightarrow> served \<times> 'w) \<Rightarrow> request \<Rightarrow> 'w \<Rightarrow> reply \<times> 'w" where
  "as_reply s r w = (case s r w of (Served rep, w') \<Rightarrow> (rep, w') | (Redirected _, w') \<Rightarrow> (Reply moved_response, w'))"

definition ingest_api ::
  "'w services \<Rightarrow> 'w IngestHandler \<Rightarrow> ingest_env \<Rightarrow> request \<Rightarrow> 'w \<Rightarrow> served \<times> 'w" where
  "ingest_api sv h e =
     serve_mux
       [(''/health'', plain ingest_healthHandler), (''/ready'', plain (ingest_readyHandler (in_env e) (in_dial e))),
        (''/v1/'', plain (AuthMiddleware sv (as_reply (serve_mux (ingest_routes sv h e)))))]"

section \<open>Lemmas\<close>

lemma inner_mux_cases:
  assumes "mux_route (ingest_routes sv h e) r = Handler f"
  shows "r_Path r = ''/v1/events'' \<and> f = plain (\<lambda>r w. map_prod Reply id (HandleSingleEvent sv h (in_env e) (in_ent e) r w))
    \<or> r_Path r = ''/v1/events/batch'' \<and> f = plain (HandleBatchEvent sv h (in_env e) (in_ents e))"
  using mux_route_Handler [OF assms] by (auto simp: ingest_routes_def subtree_def)

text \<open>A handler publishes only for an authenticated request, and only under the key's organisation.\<close>

definition publishes_for :: "('w \<Rightarrow> (string \<times> string) list) \<Rightarrow> request \<Rightarrow> 'w \<Rightarrow> 'w \<Rightarrow> bool" where
  "publishes_for sent r w w' \<longleftrightarrow>
     (\<exists>ms. sent w' = sent w @ ms \<and>
       (ms \<noteq> [] \<longrightarrow> (\<exists>kc. r_KeyContext r = Some kc \<and> (\<forall>m \<in> set ms. snd m = kc_OrgID kc))))"

context backend
begin

lemma publishes_none: "sent w' = sent w \<Longrightarrow> publishes_for sent r w w'"
  by (auto simp: publishes_for_def)

lemma single_publishes:
  assumes "publisher_ok sv h" and "HandleSingleEvent sv h env ent r w = (resp, w')"
  shows "publishes_for sent r w w'"
proof (cases "status resp = 202")
  case True
  from assms True obtain e' msg where e': "event_of_request ent r = Some e'"
    "sent w' = sent w @ published h msg (OrgID e')"
    by (rule accepted_step)
  moreover obtain kc where "r_KeyContext r = Some kc" "OrgID e' = kc_OrgID kc"
    using e'(1) by (auto simp: event_of_request_def split: sum.splits option.splits)
  ultimately show ?thesis
    by (auto simp: publishes_for_def published_def split: option.splits)
next
  case False
  then show ?thesis using refused_step(1) [OF assms] by (intro publishes_none) simp
qed

lemma batch_publishes:
  assumes "batch_publisher_ok sv h" and "HandleBatchEvent sv h env ents r w = (rep, w')"
  shows "publishes_for sent r w w'"
proof (cases "w' = w")
  case False
  then obtain kc events where kc: "r_KeyContext r = Some kc" "ingest_batch sv h env ents kc events w = (rep, w')"
    using assms(2) by (auto simp: HandleBatchEvent_def GetKeyContext_def Let_def
        split: if_splits option.splits sum.splits)
  from assms(1) kc(2) show ?thesis
  proof (cases rule: ingest_batch_cases)
    case (some res w3)
    have "\<forall>x \<in> set (Accepted res). OrgID x = kc_OrgID kc"
      using run_batch_org [of sv h env ents kc events w res w3] some by simp
    then have "\<forall>m \<in> set (batch_messages h (Accepted res)). snd m = kc_OrgID kc"
      by (auto simp: batch_messages_def split: option.splits)
    moreover have "sent w3 = sent w" using run_batch_effect [OF some(3)] by blast
    ultimately show ?thesis using some kc by (auto simp: publishes_for_def)
  qed (auto intro!: publishes_none dest: run_batch_effect)
qed (simp add: publishes_none)

lemma inner_publishes:
  assumes "publisher_ok sv h" and "batch_publisher_ok sv h"
    and "as_reply (serve_mux (ingest_routes sv h e)) r w = (rep, w')"
  shows "publishes_for sent r w w' \<and> (w' = w \<or> r_Path r \<in> {''/v1/events'', ''/v1/events/batch''})"
proof (cases "mux_route (ingest_routes sv h e) r")
  case (Handler f)
  from inner_mux_cases [OF this] show ?thesis
    using assms(3) Handler single_publishes [OF assms(1), of "in_env e" "in_ent e" r w]
      batch_publishes [OF assms(2), of "in_env e" "in_ents e" r w]
    by (auto simp: as_reply_def serve_mux_def plain_def map_prod_def split: prod.splits)
qed (use assms(3) in \<open>auto simp: as_reply_def serve_mux_def publishes_none\<close>)

end

section \<open>Property\<close>

text \<open>
  C4.  Tenants are isolated.  Whatever the request to the ingest API, and whichever commands fail, the
  messages handed to the publisher only grow, and when they do, the request was for one of the two
  ingest endpoints, its \<^verbatim>\<open>X-API-Key\<close> header authenticated as an active key at that moment, and every
  new message is under the organisation of that key, whatever the body says.
\<close>

theorem ingest_api_isolates_tenants:
  assumes "backend sv kv bf db sent" and "publisher_ok sv h" and "batch_publisher_ok sv h"
    and "ingest_api sv h e r w = (x, w')"
  shows "\<exists>ms. sent w' = sent w @ ms \<and>
    (ms \<noteq> [] \<longrightarrow> r_Path r \<in> {''/v1/events'', ''/v1/events/batch''} \<and>
      (\<exists>kc w1. ValidateAPIKey sv (r_Header r ''X-API-Key'') w = (Inr kc, w1) \<and> IsActive kc
         \<and> (\<forall>m \<in> set ms. snd m = kc_OrgID kc)))"
proof (cases "x = Served Panicked \<or> sent w' \<noteq> sent w")
  case False
  then show ?thesis by (intro exI [of _ "[]"]) simp
next
  case True
  let ?next = "as_reply (serve_mux (ingest_routes sv h e))"
  obtain rep where am: "AuthMiddleware sv ?next r w = (rep, w')"
    using assms(4) True
    by (auto simp: ingest_api_def serve_mux_def plain_def ingest_healthHandler_def ingest_readyHandler_def Let_def
        split: route.splits prod.splits dest!: mux_route_Handler)
  show ?thesis
  proof (cases "r_Header r ''X-API-Key'' = []")
    case True
    then show ?thesis using am by (intro exI [of _ "[]"]) (auto simp: AuthMiddleware_def)
  next
    case False
    obtain y w1 where v: "ValidateAPIKey sv (r_Header r ''X-API-Key'') w = (y, w1)" by fastforce
    have s1: "sent w1 = sent w" by (rule backend.ValidateAPIKey_frame(4) [OF assms(1) v])
    show ?thesis
    proof (cases y)
      case (Inl err)
      then show ?thesis using am v s1 False by (intro exI [of _ "[]"]) (auto simp: AuthMiddleware_def Let_def)
    next
      case (Inr kc)
      then have n: "?next (r\<lparr>r_KeyContext := Some kc\<rparr>) w1 = (rep, w')"
        using am v False by (simp add: AuthMiddleware_def)
      have "IsActive kc"
        using v unfolding Inr ValidateAPIKey_def key_context_of_value_def
        by (auto simp: IsActive_def split: prod.splits sum.splits option.splits if_splits)
      then show ?thesis
        using backend.inner_publishes [OF assms(1-3) n] v s1 Inr by (auto simp: publishes_for_def)
    qed
  qed
qed

definition demo_ingest_world :: ref_world where
  "demo_ingest_world = demo_org_world\<lparr>rw_kv := (rw_kv demo_org_world)(apikey_key ''sk-1'' \<mapsto> demo_key_json)\<rparr>"

definition demo_ingest_env :: ingest_env where
  "demo_ingest_env = \<lparr>in_env = (\<lambda>_. []), in_dial = (\<lambda>_. True), in_ent = demo_entropy, in_ents = (\<lambda>_. demo_entropy)\<rparr>"

lemma demo_routes:
  "mux_route [(''/health'', a), (''/ready'', b), (''/v1/'', c)] (demo_request k body) = Handler c"
  "mux_route (ingest_routes sv h e) demo_ingest_request =
     Handler (plain (\<lambda>r w. map_prod Reply id (HandleSingleEvent sv h (in_env e) (in_ent e) r w)))"
proof -
  have "cleanPath ''/v1/events'' = ''/v1/events''" by code_simp
  then show "mux_route [(''/health'', a), (''/ready'', b), (''/v1/'', c)] (demo_request k body) = Handler c"
    "mux_route (ingest_routes sv h e) demo_ingest_request =
     Handler (plain (\<lambda>r w. map_prod Reply id (HandleSingleEvent sv h (in_env e) (in_ent e) r w)))"
    by (simp_all add: mux_route_def mux_handler_def demo_ingest_request_def demo_request_def subtree_def ingest_routes_def)
qed

lemma demo_ingest_api:
  "ingest_api (ref_services False) (demo_handler False) demo_ingest_env (demo_request ''sk-1'' demo_body) demo_ingest_world
   = (Served (Reply (accepted_response demo_enriched)),
      demo_ingest_world\<lparr>rw_kv := (rw_kv demo_ingest_world)(event_key demo_enriched \<mapsto> ''1''),
        rw_sent := [(json_print (event_json ''0'' demo_enriched), ''acme'')]\<rparr>)"
proof -
  have v: "ValidateAPIKey (ref_services False) ''sk-1'' demo_ingest_world = (Inr demo_key_context, demo_ingest_world)"
    by (simp add: ValidateAPIKey_def demo_ingest_world_def demo_org_world_def ref_eval key_context_of_value_def
        unmarshal_demo_key demo_key_context_def)
  have a: "HandleSingleEvent (ref_services False) (demo_handler False) (\<lambda>_. []) demo_entropy demo_ingest_request demo_ingest_world
    = (accepted_response demo_enriched,
      demo_ingest_world\<lparr>rw_kv := (rw_kv demo_ingest_world)(event_key demo_enriched \<mapsto> ''1''),
        rw_sent := [(json_print (event_json ''0'' demo_enriched), ''acme'')]\<rparr>)"
    unfolding demo_ingest_entry
    by (simp add: ingest_event_def admit_event_def demo_ingest_world_def demo_org_world_def ref_eval verifyOrg_def
        check_end_user_def demo_marshal publish_event_def demo_handler_def NewIngestHandler_def
        event_key_def apikey_key_def org_key_def idem_key_def Let_def)
  have r: "(demo_request ''sk-1'' demo_body)\<lparr>r_KeyContext := Some demo_key_context\<rparr> = demo_ingest_request"
    by (simp add: demo_ingest_request_def)
  have k: "r_Header (demo_request ''sk-1'' demo_body) ''X-API-Key'' = ''sk-1''" by (simp add: demo_request_def)
  show ?thesis
    by (simp add: ingest_api_def serve_mux_def demo_routes plain_def AuthMiddleware_def k v r as_reply_def a
        demo_ingest_env_def)
qed

theorem ingest_api_isolates_tenants_witness:
  "\<exists>kc w1. ValidateAPIKey (ref_services False) ''sk-1'' demo_ingest_world = (Inr kc, w1)
     \<and> IsActive kc \<and> kc_OrgID kc = ''acme''"
proof -
  have "batch_publisher_ok (ref_services False) (demo_handler False)"
    by (simp add: batch_publisher_ok_def demo_handler_def NewIngestHandler_def)
  from ingest_api_isolates_tenants [OF ref_up.backend_axioms demo_publisher this demo_ingest_api]
  show ?thesis
    by (auto simp: demo_request_def demo_ingest_world_def demo_org_world_def empty_world_def)
qed

end
