(* ===== verification/ClickHouse.thy ===== *)
theory ClickHouse
  imports EventCodec
begin

text \<open>
  \<^verbatim>\<open>engine/internal/clickhouse/writer.go\<close>: the batch writer of the analytics worker, with the defaults
  it fills in and its counters.  The events of a batch are pointers that the writer updates, so
  \<open>InsertEventBatch\<close> returns them as they are afterwards.  The native connection is not wired in the
  repository: the insert itself only counts rows.
\<close>

section \<open>The writer\<close>

record WriterConfig =
  wc_Addr :: string
  wc_DB :: string
  wc_User :: string
  wc_Password :: string

record Writer =
  wr_Addr :: string
  wr_DB :: string
  wr_User :: string
  wr_Password :: string
  InsertedRows :: int64
  InsertedBytes :: int64
  InsertErrors :: int64

definition DefaultWriterConfig :: WriterConfig where
  "DefaultWriterConfig =
     \<lparr>wc_Addr = ''localhost:9000'', wc_DB = ''events'', wc_User = ''default'', wc_Password = []\<rparr>"

definition NewWriter :: "WriterConfig \<Rightarrow> Writer" where
  "NewWriter cfg =
     \<lparr>wr_Addr = wc_Addr cfg, wr_DB = wc_DB cfg, wr_User = wc_User cfg, wr_Password = wc_Password cfg,
      InsertedRows = 0, InsertedBytes = 0, InsertErrors = 0\<rparr>"

text \<open>The sum of the two counts is taken in 32 bits, before the conversion to floating point.\<close>

definition defaultEvent :: "UsageEvent \<Rightarrow> UsageEvent" where
  "defaultEvent event =
     (let e1 = (if TotalTokens event = 0
                then event\<lparr>TotalTokens := float_of_int32 (InputTokens event + OutputTokens event)\<rparr>
                else event)
      in if SourceMode e1 = [] then e1\<lparr>SourceMode := SourceModeDirectIngest\<rparr> else e1)"

datatype insert_error = InsertError string

definition InsertEventBatch ::
  "UsageEvent list \<Rightarrow> Writer \<Rightarrow> insert_error option \<times> UsageEvent list \<times> Writer" where
  "InsertEventBatch events w =
     (if events = [] then (None, events, w)
      else (None, map defaultEvent events,
            w\<lparr>InsertedRows := InsertedRows w + word_of_int (int (length events))\<rparr>))"

definition Ping :: "Writer \<Rightarrow> insert_error option" where
  "Ping w = None"

definition Metrics :: "Writer \<Rightarrow> (string \<times> int64) list" where
  "Metrics w = [(''clickhouse_inserted_rows'', InsertedRows w),
     (''clickhouse_inserted_bytes'', InsertedBytes w), (''clickhouse_insert_errors'', InsertErrors w)]"

section \<open>Configuration helpers and metadata\<close>

definition getEnv :: "environ \<Rightarrow> string \<Rightarrow> string \<Rightarrow> string" where
  "getEnv env key defaultVal = (let v = env key in if v \<noteq> [] then v else defaultVal)"

definition ch_getEnvInt :: "environ \<Rightarrow> string \<Rightarrow> int \<Rightarrow> int" where
  "ch_getEnvInt env key defaultVal =
     (let s = env key in
      if s \<noteq> [] then (case Atoi s of Some v \<Rightarrow> v | None \<Rightarrow> defaultVal) else defaultVal)"

definition ch_getEnvDuration :: "environ \<Rightarrow> string \<Rightarrow> duration \<Rightarrow> duration" where
  "ch_getEnvDuration env key defaultVal =
     (let s = env key in
      if s \<noteq> [] then (case ParseDuration s of Some d \<Rightarrow> d | None \<Rightarrow> defaultVal) else defaultVal)"

definition MarshalMetadata :: "go_map \<Rightarrow> string" where
  "MarshalMetadata m =
     (if m = [] then ''{}'' else json_print (JObj (map (\<lambda>(k, v). (k, JStr v)) m)))"

section \<open>Lemmas\<close>

lemma defaultEvent_fields [simp]:
  "EventID (defaultEvent e) = EventID e" "OrgID (defaultEvent e) = OrgID e"
  "InputTokens (defaultEvent e) = InputTokens e" "OutputTokens (defaultEvent e) = OutputTokens e"
  by (simp_all add: defaultEvent_def Let_def)

lemma defaultEvent_idem [simp]: "defaultEvent (defaultEvent e) = defaultEvent e"
  by (simp add: defaultEvent_def Let_def SourceModeDirectIngest_def)

lemma sint_plus_int32:
  fixes a b :: int32
  assumes "0 \<le> sint a" and "0 \<le> sint b"
  shows "sint (a + b) = (if sint a + sint b < 2 ^ 31 then sint a + sint b else sint a + sint b - 2 ^ 32)"
proof -
  have "sint a < 2 ^ 31" "sint b < 2 ^ 31"
    using sint_lt [of a] sint_lt [of b] by simp_all
  then have "(sint a + sint b + 2 ^ 31) mod 2 ^ 32 =
      (if sint a + sint b < 2 ^ 31 then sint a + sint b + 2 ^ 31 else sint a + sint b - 2 ^ 31)"
    using assms mod_pos_geq [of "2 ^ 32" "sint a + sint b + 2 ^ 31"] by (auto simp: mod_pos_pos_trivial)
  moreover have "sint (a + b) = (sint a + sint b + 2 ^ 31) mod 2 ^ 32 - 2 ^ 31"
    by (simp add: sint_word_ariths signed_take_bit_eq_take_bit_shift take_bit_eq_mod)
  ultimately show ?thesis by simp
qed

section \<open>Property\<close>

text \<open>
  C34.  The default for the total.  For a valid event without a total, the writer stores the sum of
  input and output tokens when it is below 2^31, and from there on the sum minus 2^32, a negative
  number that \<open>Validate\<close> would have refused; an event that has a total keeps it, and filling in the
  defaults a second time (a batch that is retried) changes nothing.
\<close>

theorem defaultEvent_total:
  assumes "Validate e = None"
  shows "TotalTokens (defaultEvent e) =
      (if TotalTokens e \<noteq> 0 then TotalTokens e
       else if sint (InputTokens e) + sint (OutputTokens e) < 2 ^ 31
         then of_int (sint (InputTokens e) + sint (OutputTokens e))
       else of_int (sint (InputTokens e) + sint (OutputTokens e) - 2 ^ 32))
    \<and> defaultEvent (defaultEvent e) = defaultEvent e"
proof -
  have "0 \<le> sint (InputTokens e)" "0 \<le> sint (OutputTokens e)"
    using assms by (auto simp: Validate_def split: if_splits)
  then show ?thesis
    using sint_plus_int32 [of "InputTokens e" "OutputTokens e"]
    by (simp add: defaultEvent_def Let_def float_of_int32_def del: of_int_add of_int_diff)
qed

definition demo_big_event :: UsageEvent where
  "demo_big_event = zero_event\<lparr>EventType := ''llm'', Model := ''m'', InputTokens := 2000000000,
     OutputTokens := 2000000000\<rparr>"

theorem defaultEvent_total_witness:
  "Validate demo_big_event = None \<and> TotalTokens (defaultEvent demo_big_event) = - 294967296"
proof -
  have v: "Validate demo_big_event = None"
    by (simp add: demo_big_event_def Validate_def zero_event_def)
  then show ?thesis
    using defaultEvent_total [OF v] by (simp add: demo_big_event_def zero_event_def)
qed

end
