(* ===== verification/Kafka.thy ===== *)
theory Kafka
  imports Ingest
begin

text \<open>
  \<^verbatim>\<open>engine/internal/kafka/producer.go\<close> and \<^verbatim>\<open>engine/internal/consumer/consumer.go\<close>: the two ends of the
  \<^verbatim>\<open>usage-events\<close> topic.  The Kafka client is not wired in the repository: the producer logs and
  reports success, and the consumer returns no messages.  Both are modelled as they are; the
  message format is the one that \<open>EventCodec\<close> writes.
\<close>

section \<open>Producer\<close>

record Producer =
  p_Brokers :: "string list"
  p_Topic :: string

record ProducerConfig =
  pc_Brokers :: "string list"
  pc_Topic :: string
  pc_BatchSize :: int
  pc_BatchTimeout :: duration

definition Second :: duration where "Second = 1000000000"

definition DefaultProducerConfig :: ProducerConfig where
  "DefaultProducerConfig = \<lparr>pc_Brokers = [''localhost:9092''], pc_Topic = ''usage-events'',
     pc_BatchSize = 1000, pc_BatchTimeout = 1 * Second\<rparr>"

definition NewProducer :: "ProducerConfig \<Rightarrow> Producer" where
  "NewProducer cfg = \<lparr>p_Brokers = pc_Brokers cfg, p_Topic = pc_Topic cfg\<rparr>"

definition PublishEvent :: "Producer \<Rightarrow> string \<Rightarrow> string \<Rightarrow> 'w \<Rightarrow> publish_error option \<times> 'w" where
  "PublishEvent p msgBytes orgID w = (None, w)"

definition PublishBatch :: "Producer \<Rightarrow> string list \<Rightarrow> string \<Rightarrow> 'w \<Rightarrow> publish_error option \<times> 'w" where
  "PublishBatch p events orgID w = (None, w)"

definition extractTraceParent :: "'c \<Rightarrow> string" where
  "extractTraceParent ctx = []"

definition WrapProducer ::
  "Producer \<Rightarrow> (string \<Rightarrow> string \<Rightarrow> 'w \<Rightarrow> publish_error option \<times> 'w)
     \<times> (string list \<Rightarrow> string \<Rightarrow> 'w \<Rightarrow> publish_error option \<times> 'w)" where
  "WrapProducer p = (PublishEvent p, PublishBatch p)"

text \<open>The verb \<open>%v\<close> writes a slice of strings between brackets, separated by blanks.\<close>

definition Producer_String :: "Producer \<Rightarrow> string" where
  "Producer_String p = ''KafkaProducer{topic='' @ p_Topic p @ '', brokers=['' @
     join_with (CHR '' '') (p_Brokers p) @ '']}''"

section \<open>Consumer\<close>

record Consumer =
  c_Brokers :: "string list"
  c_Topic :: string
  c_GroupID :: string

record ConsumerConfig =
  cc_Brokers :: "string list"
  cc_Topic :: string
  cc_GroupID :: string
  cc_MinBytes :: int
  cc_MaxBytes :: int
  cc_MaxWait :: duration

definition DefaultConsumerConfig :: ConsumerConfig where
  "DefaultConsumerConfig = \<lparr>cc_Brokers = [''localhost:9092''], cc_Topic = ''usage-events'',
     cc_GroupID = ''analytics-v1'', cc_MinBytes = 10000, cc_MaxBytes = 10000000, cc_MaxWait = 2 * Second\<rparr>"

definition NewConsumer :: "ConsumerConfig \<Rightarrow> Consumer" where
  "NewConsumer cfg = \<lparr>c_Brokers = cc_Brokers cfg, c_Topic = cc_Topic cfg, c_GroupID = cc_GroupID cfg\<rparr>"

datatype consumer_error = DeserializeError json_error

definition ConsumeBatch ::
  "Consumer \<Rightarrow> int \<Rightarrow> duration \<Rightarrow> (consumer_error, UsageEvent list) result" where
  "ConsumeBatch c batchSize timeout = Inr []"

definition CommitMessages :: "Consumer \<Rightarrow> UsageEvent list \<Rightarrow> consumer_error option" where
  "CommitMessages c events = None"

definition Lag :: "Consumer \<Rightarrow> int64" where
  "Lag c = 0"

definition DeserializeEvent :: "string \<Rightarrow> (consumer_error, UsageEvent) result" where
  "DeserializeEvent value =
     (case unmarshal_event value of Inl err \<Rightarrow> Inl (DeserializeError err) | Inr event \<Rightarrow> Inr event)"

definition ParseTraceParentFromMsg :: "string \<Rightarrow> TraceContext option" where
  "ParseTraceParentFromMsg tp = ParseTraceParent tp"

definition groupID :: "environ \<Rightarrow> string" where
  "groupID env = (let g = env ''KAFKA_GROUP_ID'' in if g \<noteq> [] then g else ''analytics-v1'')"

definition topic :: "environ \<Rightarrow> string" where
  "topic env = (let t = env ''KAFKA_TOPIC'' in if t \<noteq> [] then t else ''usage-events'')"

section \<open>Properties\<close>

text \<open>
  The message format is lossless.  What the ingest API publishes for an event whose strings are
  valid UTF-8 and whose metadata is a map, the worker decodes to exactly that event: every field,
  the floating-point total and the omitted empty fields included; and every such event has a message.
\<close>

theorem DeserializeEvent_roundtrip:
  assumes "event_wf e"
  shows "\<exists>msg. marshal_event e = Some msg \<and> DeserializeEvent msg = Inr e"
  using marshal_event_total [OF assms] unmarshal_marshal_event [OF assms]
  by (auto simp: DeserializeEvent_def)

definition demo_wf_event :: UsageEvent where
  "demo_wf_event = zero_event\<lparr>EventID := ''e1'', Model := ''m'', InputTokens := - 3,
     Metadata := [(''a'', ''1''), (''b'', [])]\<rparr>"

theorem DeserializeEvent_roundtrip_witness:
  "\<exists>msg. marshal_event demo_wf_event = Some msg \<and> DeserializeEvent msg = Inr demo_wf_event"
proof -
  have "event_wf demo_wf_event"
    by (simp add: event_wf_def event_strings_def demo_wf_event_def zero_event_def format_float_def
        byte_of_def rune_len_def)
  then show ?thesis by (rule DeserializeEvent_roundtrip)
qed

text \<open>
  The placeholder producer loses accepted events.  With the producer of the repository behind the
  ingest handler, a single event that is answered with 202 reaches nobody: the world after the
  request has the messages it had before, although the event's idempotency key is taken, so that
  the sender's retry is refused as a duplicate.
\<close>

theorem placeholder_producer_drops:
  assumes "backend sv kv bf db sent"
    and "h_Publish h = Some (fst (WrapProducer p))"
    and "HandleSingleEvent sv h env ent r w = (resp, w')" and "status resp = 202"
  shows "sent w' = sent w \<and> (\<exists>e. event_of_request ent r = Some e \<and> kv w' (event_key e) = Some ''1'')"
proof -
  define h0 where "h0 = h\<lparr>h_Publish := None\<rparr>"
  have pe: "publish_event h m o' w1 = publish_event h0 m o' w1" for m o' w1
    using assms(2) by (simp add: publish_event_def h0_def WrapProducer_def PublishEvent_def)
  have ve: "verifyOrg sv h = verifyOrg sv h0" "verifyEndUser sv h = verifyEndUser sv h0"
    by (simp_all add: fun_eq_iff verify_lookup h0_def)
  have "HandleSingleEvent sv h env ent r w = HandleSingleEvent sv h0 env ent r w"
    unfolding HandleSingleEvent_def ingest_event_def admit_event_def check_end_user_def pe ve ..
  then have run: "HandleSingleEvent sv h0 env ent r w = (resp, w')" using assms(3) by simp
  have "publisher_ok sv h0" by (simp add: publisher_ok_def h0_def)
  from backend.accepted_step [OF assms(1) this run assms(4)]
  obtain e msg where "event_of_request ent r = Some e" "kv w' (event_key e) = Some ''1''"
    "sent w' = sent w @ published h0 msg (OrgID e)" by metis
  then show ?thesis by (simp add: published_def h0_def)
qed

lemma demo_placeholder_accept:
  "HandleSingleEvent (ref_services False)
     ((demo_handler False)\<lparr>h_Publish := Some (fst (WrapProducer (NewProducer DefaultProducerConfig)))\<rparr>)
     (\<lambda>_. []) demo_entropy demo_ingest_request demo_org_world
   = (accepted_response demo_enriched,
      demo_org_world\<lparr>rw_kv := (rw_kv demo_org_world)(event_key demo_enriched \<mapsto> ''1'')\<rparr>)"
  unfolding demo_ingest_entry
  by (simp add: ingest_event_def admit_event_def demo_org_world_def ref_eval verifyOrg_def
      check_end_user_def demo_marshal publish_event_def demo_handler_def NewIngestHandler_def
      event_key_def Let_def WrapProducer_def PublishEvent_def)

theorem placeholder_producer_drops_witness:
  "rw_sent (demo_org_world\<lparr>rw_kv := (rw_kv demo_org_world)(event_key demo_enriched \<mapsto> ''1'')\<rparr>) = []
   \<and> (\<exists>e. event_of_request demo_entropy demo_ingest_request = Some e)"
  using placeholder_producer_drops [OF ref_up.backend_axioms _ demo_placeholder_accept]
  by (auto simp: demo_org_world_def empty_world_def)

end
