(* ===== verification/Orchestration.thy ===== *)
theory Orchestration
  imports ClickHouse Kafka "HOL-Library.Multiset"
begin

text \<open>
  \<^verbatim>\<open>engine/internal/orchestration/analytics_service.go\<close>: the buffer between the consumer and the
  ClickHouse writer.  The operations are functions on the service's state; where an operation
  releases the mutex half-way, its critical sections are functions of their own, and the step
  relation \<open>worker_step\<close> interleaves them the way the goroutines of the worker do: the consumer calls
  \<open>AddEvents\<close>, the loop of \<open>Start\<close> ticks and flushes, and after the shutdown signal the main
  goroutine flushes once more.  The writer is a parameter; the locale \<open>batch_writer\<close> states what
  the buffer relies on, and \<open>ClickHouse\<close> provides it.
\<close>

section \<open>The service\<close>

record AnalyticsService =
  batchSize :: int
  batchTimeout :: duration
  currentBatch :: "UsageEvent list"
  flushCh :: bool

text \<open>
  \<open>fmt.Sscanf(s, "%d", &bs)\<close>: leading blanks other than a line break, a sign, digits; the rest of
  the text is ignored, and the variable keeps its value when there is no number that fits.
\<close>

definition Sscanf_int :: "string \<Rightarrow> int option" where
  "Sscanf_int s =
     (let t = strip_seqs (filter (\<lambda>q. q \<noteq> [CHR 0x0A]) space_seqs) s;
          sg = (if t \<noteq> [] \<and> (hd t = CHR ''-'' \<or> hd t = CHR ''+'') then [hd t] else []);
          ds = takeWhile is_digit_char (drop (length sg) t)
      in if ds = [] then None else Atoi (sg @ ds))"

text \<open>\<open>make([]*T, 0, n)\<close> panics for a negative capacity and for one beyond the address space.\<close>

definition make_cap_ok :: "int \<Rightarrow> bool" where
  "make_cap_ok n = (0 \<le> n \<and> 8 * n \<le> 2 ^ 48)"

definition NewAnalyticsService :: "environ \<Rightarrow> AnalyticsService option" where
  "NewAnalyticsService env =
     (let s = env ''ANALYTICS_BATCH_SIZE'';
          bs = (if s \<noteq> [] then (case Sscanf_int s of Some n \<Rightarrow> n | None \<Rightarrow> 50000) else 50000);
          t = env ''ANALYTICS_BATCH_TIMEOUT'';
          bt = (if t \<noteq> [] then (case ParseDuration t of Some d \<Rightarrow> d | None \<Rightarrow> 10 * Second)
                else 10 * Second)
      in if make_cap_ok bs
         then Some \<lparr>batchSize = bs, batchTimeout = bt, currentBatch = [], flushCh = False\<rparr>
         else None)"

text \<open>
  The critical section of \<open>AddEvents\<close> and whether it asks for a flush; then the non-blocking send on
  the channel of capacity one.
\<close>

definition add_locked :: "UsageEvent list \<Rightarrow> AnalyticsService \<Rightarrow> bool \<times> AnalyticsService" where
  "add_locked events s =
     (let s1 = s\<lparr>currentBatch := currentBatch s @ events\<rparr>
      in (batchSize s1 \<le> int (length (currentBatch s1)), s1))"

definition signal_flush :: "AnalyticsService \<Rightarrow> AnalyticsService" where
  "signal_flush s = s\<lparr>flushCh := True\<rparr>"

definition AddEvents :: "UsageEvent list \<Rightarrow> AnalyticsService \<Rightarrow> AnalyticsService" where
  "AddEvents events s =
     (if events = [] then s
      else let (shouldFlush, s1) = add_locked events s
           in if shouldFlush then signal_flush s1 else s1)"

text \<open>\<open>Flush\<close>: swap the batch under the mutex, insert without it, and on an error put the batch back
  in front of what has arrived since.\<close>

definition flush_swap :: "AnalyticsService \<Rightarrow> UsageEvent list \<times> AnalyticsService" where
  "flush_swap s = (currentBatch s, s\<lparr>currentBatch := []\<rparr>)"

definition flush_requeue :: "UsageEvent list \<Rightarrow> AnalyticsService \<Rightarrow> AnalyticsService" where
  "flush_requeue batch s = s\<lparr>currentBatch := batch @ currentBatch s\<rparr>"

definition Flush ::
  "(UsageEvent list \<Rightarrow> 'wr \<Rightarrow> insert_error option \<times> UsageEvent list \<times> 'wr)
   \<Rightarrow> AnalyticsService \<times> 'wr \<Rightarrow> AnalyticsService \<times> 'wr" where
  "Flush ins sw =
     (let (s, wr) = sw in
      if currentBatch s = [] then (s, wr)
      else
        let (batch, s1) = flush_swap s;
            (err, batch', wr') = ins batch wr
        in case err of
             None \<Rightarrow> (s1, wr')
           | Some _ \<Rightarrow> (flush_requeue batch' s1, wr'))"

definition PendingCount :: "AnalyticsService \<Rightarrow> int" where
  "PendingCount s = int (length (currentBatch s))"

text \<open>\<open>time.NewTicker\<close> panics, in the goroutine that \<open>Start\<close> spawns, unless the period is positive.\<close>

definition Start_ok :: "AnalyticsService \<Rightarrow> bool" where
  "Start_ok s = (0 < batchTimeout s)"

section \<open>The worker as a transition system\<close>

text \<open>
  \<open>wk_adders\<close> counts the calls of \<open>AddEvents\<close> that have released the mutex and are about to signal;
  \<open>wk_tick\<close> is the loop between reading \<open>hasEvents\<close> and signalling; \<open>wk_loop\<close> and \<open>wk_final\<close> are the
  batches that the loop and the main goroutine are inserting.  \<open>wk_added\<close> and \<open>wk_stored\<close> record what was
  added and what was inserted, and \<open>wk_requeued\<close> whether a batch has come back since the last swap.
\<close>

record 'wr worker =
  wk_svc :: AnalyticsService
  wk_writer :: 'wr
  wk_adders :: nat
  wk_tick :: bool
  wk_loop :: "UsageEvent list option"
  wk_final :: "UsageEvent list option"
  wk_down :: bool
  wk_added :: "UsageEvent list"
  wk_stored :: "UsageEvent list"
  wk_requeued :: bool

definition worker_init :: "AnalyticsService \<Rightarrow> 'wr \<Rightarrow> 'wr worker" where
  "worker_init s wr = \<lparr>wk_svc = s, wk_writer = wr, wk_adders = 0, wk_tick = False, wk_loop = None,
     wk_final = None, wk_down = False, wk_added = [], wk_stored = [], wk_requeued = False\<rparr>"

inductive worker_step ::
  "(UsageEvent list \<Rightarrow> 'wr \<Rightarrow> insert_error option \<times> UsageEvent list \<times> 'wr)
   \<Rightarrow> 'wr worker \<Rightarrow> 'wr worker \<Rightarrow> bool" for ins where
  ws_add: "events \<noteq> [] \<Longrightarrow> add_locked events (wk_svc k) = (full, s') \<Longrightarrow>
     worker_step ins k (k\<lparr>wk_svc := s', wk_adders := wk_adders k + (if full then 1 else 0),
       wk_added := wk_added k @ events\<rparr>)"
| ws_add_signal: "wk_adders k = Suc n \<Longrightarrow>
     worker_step ins k (k\<lparr>wk_svc := signal_flush (wk_svc k), wk_adders := n\<rparr>)"
| ws_tick: "wk_loop k = None \<Longrightarrow> \<not> wk_tick k \<Longrightarrow> currentBatch (wk_svc k) \<noteq> [] \<Longrightarrow>
     worker_step ins k (k\<lparr>wk_tick := True\<rparr>)"
| ws_tick_signal: "wk_tick k \<Longrightarrow>
     worker_step ins k (k\<lparr>wk_svc := signal_flush (wk_svc k), wk_tick := False\<rparr>)"
| ws_flush: "wk_loop k = None \<Longrightarrow> \<not> wk_tick k \<Longrightarrow> flushCh (wk_svc k) \<Longrightarrow>
     flush_swap (wk_svc k) = (batch, s') \<Longrightarrow>
     worker_step ins k (k\<lparr>wk_svc := s'\<lparr>flushCh := False\<rparr>,
       wk_loop := (if batch = [] then None else Some batch), wk_requeued := False\<rparr>)"
| ws_loop_ok: "wk_loop k = Some batch \<Longrightarrow> ins batch (wk_writer k) = (None, batch', wr') \<Longrightarrow>
     worker_step ins k (k\<lparr>wk_writer := wr', wk_loop := None, wk_stored := wk_stored k @ batch'\<rparr>)"
| ws_loop_err: "wk_loop k = Some batch \<Longrightarrow> ins batch (wk_writer k) = (Some er, batch', wr') \<Longrightarrow>
     worker_step ins k (k\<lparr>wk_writer := wr', wk_loop := None,
       wk_svc := flush_requeue batch' (wk_svc k), wk_requeued := True\<rparr>)"
| ws_shutdown: "\<not> wk_down k \<Longrightarrow> flush_swap (wk_svc k) = (batch, s') \<Longrightarrow>
     worker_step ins k (k\<lparr>wk_down := True, wk_svc := s',
       wk_final := (if batch = [] then None else Some batch), wk_requeued := False\<rparr>)"
| ws_final_ok: "wk_final k = Some batch \<Longrightarrow> ins batch (wk_writer k) = (None, batch', wr') \<Longrightarrow>
     worker_step ins k (k\<lparr>wk_writer := wr', wk_final := None, wk_stored := wk_stored k @ batch'\<rparr>)"
| ws_final_err: "wk_final k = Some batch \<Longrightarrow> ins batch (wk_writer k) = (Some er, batch', wr') \<Longrightarrow>
     worker_step ins k (k\<lparr>wk_writer := wr', wk_final := None,
       wk_svc := flush_requeue batch' (wk_svc k), wk_requeued := True\<rparr>)"

text \<open>The states reachable from a start state.\<close>

inductive worker_reach ::
  "(UsageEvent list \<Rightarrow> 'wr \<Rightarrow> insert_error option \<times> UsageEvent list \<times> 'wr)
   \<Rightarrow> 'wr worker \<Rightarrow> 'wr worker \<Rightarrow> bool" for ins k0 where
  reach_init: "worker_reach ins k0 k0"
| reach_step: "worker_reach ins k0 k \<Longrightarrow> worker_step ins k k' \<Longrightarrow> worker_reach ins k0 k'"

inductive_cases worker_stepE: "worker_step ins k k'"

definition in_flight :: "UsageEvent list option \<Rightarrow> UsageEvent list" where
  "in_flight b = (case b of None \<Rightarrow> [] | Some es \<Rightarrow> es)"

text \<open>What is held somewhere in the worker, in the order in which it would be stored.\<close>

definition worker_contents :: "'wr worker \<Rightarrow> UsageEvent list" where
  "worker_contents k =
     wk_stored k @ in_flight (wk_loop k) @ in_flight (wk_final k) @ currentBatch (wk_svc k)"

definition final_after_shutdown :: "'wr worker \<Rightarrow> bool" where
  "final_after_shutdown k = (wk_final k = None \<or> wk_down k)"

lemmas service_defs = add_locked_def signal_flush_def flush_swap_def flush_requeue_def

lemma down_mono: "worker_step ins k k' \<Longrightarrow> wk_down k \<Longrightarrow> wk_down k'"
  by (induction rule: worker_step.induct) auto

lemma final_step: "worker_step ins k k' \<Longrightarrow> final_after_shutdown k \<Longrightarrow> final_after_shutdown k'"
  by (induction rule: worker_step.induct) (auto simp: final_after_shutdown_def)

text \<open>
  No lost wake-up: a full buffer has a flush on the way, unless a failed batch has just been put
  back, and then the next tick asks for one.
\<close>

definition wakeup :: "'wr worker \<Rightarrow> bool" where
  "wakeup k \<longleftrightarrow>
     (batchSize (wk_svc k) \<le> int (length (currentBatch (wk_svc k))) \<longrightarrow> currentBatch (wk_svc k) \<noteq> [] \<longrightarrow>
      flushCh (wk_svc k) \<or> 0 < wk_adders k \<or> wk_requeued k)"

lemma wakeup_step: "worker_step ins k k' \<Longrightarrow> wakeup k \<Longrightarrow> wakeup k'"
  by (induction rule: worker_step.induct) (auto simp: wakeup_def service_defs Let_def)

section \<open>The contract of a writer\<close>

text \<open>
  A writer stores or refuses a batch as a whole; the events it gives back are the batch up to a
  normalisation that may be repeated without further effect, and it counts the rows it stored.
\<close>

locale batch_writer =
  fixes ins :: "UsageEvent list \<Rightarrow> 'wr \<Rightarrow> insert_error option \<times> UsageEvent list \<times> 'wr"
    and nrm :: "UsageEvent \<Rightarrow> UsageEvent"
    and rows :: "'wr \<Rightarrow> int64"
  assumes norm_idem: "nrm (nrm e) = nrm e"
    and insert_norm: "ins b w = (r, b', w') \<Longrightarrow> map nrm b' = map nrm b"
    and insert_rows: "ins b w = (r, b', w') \<Longrightarrow>
      rows w' = (case r of None \<Rightarrow> rows w + word_of_int (int (length b)) | Some _ \<Rightarrow> rows w)"
begin

lemma insert_count:
  "ins b w = (r, b', w') \<Longrightarrow> length b' = length b
     \<and> rows w' = (case r of None \<Rightarrow> rows w + word_of_int (int (length b)) | Some _ \<Rightarrow> rows w)"
  using insert_norm [of b w r b' w'] insert_rows map_eq_imp_length_eq by blast

text \<open>Nothing is lost and nothing is duplicated, whatever the interleaving and the failures.\<close>

lemma contents_step:
  "worker_step ins k k' \<Longrightarrow> final_after_shutdown k \<Longrightarrow>
     mset (map nrm (worker_contents k')) + mset (map nrm (wk_added k))
     = mset (map nrm (worker_contents k)) + mset (map nrm (wk_added k'))"
  by (induction rule: worker_step.induct)
     (auto simp: worker_contents_def in_flight_def service_defs final_after_shutdown_def
       dest!: insert_norm simp flip: mset_map split: if_splits)

lemma contents_reach:
  assumes "worker_reach ins (worker_init s w) k" and "currentBatch s = []"
  shows "final_after_shutdown k \<and> mset (map nrm (worker_contents k)) = mset (map nrm (wk_added k))"
  using assms(1)
proof (induction rule: worker_reach.induct)
  case reach_init
  then show ?case
    using assms(2) by (simp add: worker_init_def worker_contents_def in_flight_def final_after_shutdown_def)
next
  case (reach_step k k')
  then show ?case using contents_step [OF reach_step(2)] final_step [OF reach_step(2)] by simp
qed

text \<open>Before the shutdown there is one flush at a time, and the order of arrival is kept.\<close>

lemma order_step:
  assumes "worker_step ins k k'" and "\<not> wk_down k'"
    and "map nrm (worker_contents k) = map nrm (wk_added k) \<and> wk_final k = None"
  shows "map nrm (worker_contents k') = map nrm (wk_added k') \<and> wk_final k' = None"
  using assms
  by (induction rule: worker_step.induct)
     (auto simp: worker_contents_def in_flight_def service_defs dest!: insert_norm split: if_splits)

lemma order_reach:
  assumes "worker_reach ins (worker_init s w) k" and "currentBatch s = []" and "\<not> wk_down k"
  shows "map nrm (worker_contents k) = map nrm (wk_added k) \<and> wk_final k = None"
  using assms(1,3)
proof (induction rule: worker_reach.induct)
  case reach_init
  then show ?case using assms(2) by (simp add: worker_init_def worker_contents_def in_flight_def)
next
  case (reach_step k k')
  then show ?case using order_step down_mono by blast
qed

lemma rows_reach:
  assumes "worker_reach ins (worker_init s w) k"
  shows "rows (wk_writer k) = rows w + word_of_int (int (length (wk_stored k)))"
  using assms
proof (induction rule: worker_reach.induct)
  case (reach_step k k')
  from reach_step(2,3) show ?case
    by (induction rule: worker_step.induct) (auto dest!: insert_count)
qed (simp add: worker_init_def)

lemma Flush_keeps:
  assumes "Flush ins (s, w) = (s', w')"
  shows "rows w' = rows w + word_of_int (int (length (currentBatch s))) \<and> currentBatch s' = []
    \<or> rows w' = rows w \<and> map nrm (currentBatch s') = map nrm (currentBatch s)"
proof (cases "currentBatch s = []")
  case False
  obtain r b' w1 where i: "ins (currentBatch s) w = (r, b', w1)" by (cases "ins (currentBatch s) w") auto
  show ?thesis
    using assms False i insert_norm [OF i] insert_count [OF i]
    by (cases r) (auto simp: Flush_def service_defs)
qed (use assms in \<open>simp add: Flush_def\<close>)

end

interpretation ch: batch_writer InsertEventBatch defaultEvent InsertedRows
  by unfold_locales (auto simp: InsertEventBatch_def split: if_splits)

section \<open>Properties\<close>

lemma NewAnalyticsService_empty: "NewAnalyticsService env = Some s \<Longrightarrow> currentBatch s = []"
  by (auto simp: NewAnalyticsService_def Let_def split: if_splits)

text \<open>
  C9.  Conservation.  In every state that the worker can reach, under any interleaving of additions,
  ticks, flushes, failed inserts and the shutdown flush, the events added are exactly those stored,
  being inserted or waiting, each as often as it was added (up to the defaults the writer fills in);
  until the shutdown they are also stored in the order in which they were added; and the row counter
  of the writer has grown by the number of events stored.
\<close>

theorem worker_conserves:
  assumes "batch_writer ins nrm rows" and "NewAnalyticsService env = Some s"
    and "worker_reach ins (worker_init s w) k"
  shows "mset (map nrm (worker_contents k)) = mset (map nrm (wk_added k))
    \<and> (wk_down k \<or> map nrm (worker_contents k) = map nrm (wk_added k))
    \<and> rows (wk_writer k) = rows w + word_of_int (int (length (wk_stored k)))"
  using batch_writer.contents_reach [OF assms(1,3)] batch_writer.order_reach [OF assms(1,3)]
    batch_writer.rows_reach [OF assms(1,3)] NewAnalyticsService_empty [OF assms(2)] by blast

text \<open>A run for the witnesses: a buffer of size one, one event added, signalled, swapped and stored.\<close>

definition demo_env :: environ where
  "demo_env = (\<lambda>_. [])(''ANALYTICS_BATCH_SIZE'' := ''1'')"

definition demo_service :: AnalyticsService where
  "demo_service = \<lparr>batchSize = 1, batchTimeout = 10 * Second, currentBatch = [], flushCh = False\<rparr>"

definition demo_writer :: Writer where
  "demo_writer = NewWriter DefaultWriterConfig"

definition demo_stored :: "Writer worker" where
  "demo_stored = (worker_init demo_service demo_writer)
     \<lparr>wk_writer := demo_writer\<lparr>InsertedRows := 1\<rparr>, wk_added := [demo_event],
      wk_stored := [defaultEvent demo_event]\<rparr>"

lemma demo_new_service: "NewAnalyticsService demo_env = Some demo_service"
proof -
  have "Sscanf_int ''1'' = Some 1" by code_simp
  then show ?thesis
    by (simp add: NewAnalyticsService_def demo_env_def demo_service_def make_cap_ok_def)
qed

lemma demo_run: "worker_reach InsertEventBatch (worker_init demo_service demo_writer) demo_stored"
proof -
  define k0 where "k0 = worker_init demo_service demo_writer"
  define k1 where "k1 = k0\<lparr>wk_svc := demo_service\<lparr>currentBatch := [demo_event]\<rparr>, wk_adders := 1,
    wk_added := [demo_event]\<rparr>"
  define k2 where "k2 = k1\<lparr>wk_svc := signal_flush (wk_svc k1), wk_adders := 0\<rparr>"
  define k3 where "k3 = k2\<lparr>wk_svc := demo_service, wk_loop := Some [demo_event]\<rparr>"
  have s1: "worker_step InsertEventBatch k0 k1"
    using ws_add [of "[demo_event]" k0 True "demo_service\<lparr>currentBatch := [demo_event]\<rparr>" InsertEventBatch]
    by (simp add: k1_def k0_def worker_init_def add_locked_def demo_service_def)
  have s2: "worker_step InsertEventBatch k1 k2"
    using ws_add_signal [of k1 0] by (simp add: k2_def k1_def)
  have s3: "worker_step InsertEventBatch k2 k3"
    using ws_flush [of k2 "[demo_event]" "demo_service\<lparr>flushCh := True\<rparr>"]
    by (simp add: k3_def k2_def k1_def k0_def worker_init_def demo_service_def service_defs)
  have s4: "worker_step InsertEventBatch k3 demo_stored"
    using ws_loop_ok [of k3 "[demo_event]" InsertEventBatch "[defaultEvent demo_event]"
        "demo_writer\<lparr>InsertedRows := 1\<rparr>"]
    by (simp add: k3_def k2_def k1_def k0_def worker_init_def InsertEventBatch_def demo_stored_def
        demo_writer_def NewWriter_def signal_flush_def)
  show ?thesis
    unfolding k0_def [symmetric]
    by (rule reach_step [OF reach_step [OF reach_step [OF reach_step [OF reach_init s1] s2] s3] s4])
qed

theorem worker_conserves_witness:
  "mset (map defaultEvent (worker_contents demo_stored)) = {#defaultEvent demo_event#}
   \<and> InsertedRows (wk_writer demo_stored) = 1"
  using worker_conserves [OF ch.batch_writer_axioms demo_new_service demo_run]
  by (simp add: demo_stored_def worker_init_def demo_writer_def NewWriter_def)



text \<open>
  C24.  A flush is all or nothing.  \<open>Flush\<close> either hands the whole buffer to the writer, which counts
  its rows, and leaves the buffer empty, or leaves the buffer's events as they were, up to the
  defaults, for the next attempt.
\<close>

theorem Flush_all_or_nothing:
  assumes "batch_writer ins nrm rows" and "Flush ins (s, w) = (s', w')"
  shows "rows w' = rows w + word_of_int (int (length (currentBatch s))) \<and> currentBatch s' = []
    \<or> rows w' = rows w \<and> map nrm (currentBatch s') = map nrm (currentBatch s)"
  using batch_writer.Flush_keeps [OF assms] .

theorem Flush_all_or_nothing_witness:
  "\<exists>s' w'. Flush InsertEventBatch (demo_service\<lparr>currentBatch := [demo_event, demo_event]\<rparr>, demo_writer) = (s', w')
     \<and> InsertedRows w' = 2 \<and> currentBatch s' = []"
proof -
  obtain s' w' where f: "Flush InsertEventBatch (demo_service\<lparr>currentBatch := [demo_event, demo_event]\<rparr>, demo_writer)
      = (s', w')" by fastforce
  moreover have "InsertedRows w' \<noteq> InsertedRows demo_writer"
    using f by (auto simp: Flush_def InsertEventBatch_def service_defs demo_writer_def NewWriter_def)
  ultimately show ?thesis
    using Flush_all_or_nothing [OF ch.batch_writer_axioms f] by (auto simp: demo_writer_def NewWriter_def)
qed

end
