(* ===== verification/WorkerApi.thy ===== *)
theory WorkerApi
  imports Orchestration Mux
begin

text \<open>
  \<^verbatim>\<open>engine/cmd/analytics-worker/main.go\<close>: the HTTP endpoints of the analytics worker, and one round of its
  consumer loop.  The consumer's result is an argument of the round, so that it also describes the
  loop with a consumer that delivers messages.
\<close>

section \<open>Configuration\<close>

definition worker_envOrDefault :: "environ \<Rightarrow> string \<Rightarrow> string \<Rightarrow> string" where
  "worker_envOrDefault env key defaultVal = (let v = env key in if v \<noteq> [] then v else defaultVal)"

definition worker_boolStatus :: "bool \<Rightarrow> string" where
  "worker_boolStatus ok = (if ok then ''ok'' else ''error'')"

text \<open>\<open>main\<close> up to the server: the consumer, the writer and the service; \<open>None\<close> is an exit or a panic.\<close>

definition worker_start :: "environ \<Rightarrow> (Consumer \<times> Writer \<times> AnalyticsService) option" where
  "worker_start env =
     (let kafkaConsumer = NewConsumer (DefaultConsumerConfig
            \<lparr>cc_Brokers := [worker_envOrDefault env ''KAFKA_BROKERS'' ''localhost:9092'']\<rparr>);
          chWriter = NewWriter (DefaultWriterConfig
            \<lparr>wc_Addr := worker_envOrDefault env ''CLICKHOUSE_ADDR'' ''localhost:9000''\<rparr>)
      in if Ping chWriter \<noteq> None then None
         else
           (case NewAnalyticsService env of
              None \<Rightarrow> None
            | Some svc \<Rightarrow> if Start_ok svc then Some (kafkaConsumer, chWriter, svc) else None))"

section \<open>Endpoints\<close>

definition worker_health :: "request \<Rightarrow> reply" where
  "worker_health r = Reply \<lparr>status = 200, content_type = ''application/json'',
     resp_body = json_print (JObj [(''status'', JStr ''ok'')])\<rparr>"

text \<open>The reply has no explicit content type; the server detects plain text.\<close>

definition worker_ready :: "Writer \<Rightarrow> request \<Rightarrow> reply" where
  "worker_ready chWriter r =
     (let kafkaOK = True; chOK = (Ping chWriter = None);
          checks = JObj [(''kafka'', JStr (worker_boolStatus kafkaOK)), (''clickhouse'', JStr (worker_boolStatus chOK))]
      in Reply \<lparr>status = (if kafkaOK \<and> chOK then 200 else 503), content_type = ''text/plain; charset=utf-8'',
           resp_body = json_print (JObj [(''status'', JStr (if kafkaOK \<and> chOK then ''ready'' else ''not_ready'')),
             (''checks'', checks)])\<rparr>)"

definition metric_lines :: "string \<Rightarrow> string \<Rightarrow> string \<Rightarrow> int \<Rightarrow> string" where
  "metric_lines name help kind v =
     (let nl = [CHR 0x0A] in
      ''# HELP '' @ name @ '' '' @ help @ nl @ ''# TYPE '' @ name @ '' '' @ kind @ nl @ name @ '' '' @ itoa v @ nl)"

definition metric :: "(string \<times> int64) list \<Rightarrow> string \<Rightarrow> int" where
  "metric ms k = (case map_of ms k of Some v \<Rightarrow> sint v | None \<Rightarrow> 0)"

definition worker_metrics :: "Consumer \<Rightarrow> Writer \<Rightarrow> AnalyticsService \<Rightarrow> request \<Rightarrow> reply" where
  "worker_metrics kafkaConsumer chWriter svc r =
     (let chMetrics = Metrics chWriter in
      Reply \<lparr>status = 200, content_type = ''text/plain; version=0.0.4'',
        resp_body =
          metric_lines ''quantumbilling_clickhouse_inserted_rows'' ''Total rows inserted into ClickHouse'' ''counter''
            (metric chMetrics ''clickhouse_inserted_rows'')
          @ metric_lines ''quantumbilling_clickhouse_insert_errors'' ''Total insert errors'' ''counter''
            (metric chMetrics ''clickhouse_insert_errors'')
          @ metric_lines ''quantumbilling_consumer_lag'' ''Consumer group lag (unread messages)'' ''gauge''
            (sint (Lag kafkaConsumer))
          @ metric_lines ''quantumbilling_batch_pending'' ''Events pending in flush buffer'' ''gauge''
            (PendingCount svc)\<rparr>)"

section \<open>The consumer loop\<close>

text \<open>One round: an error is logged and the loop goes on; no events, no call.\<close>

definition consume_round ::
  "(consumer_error, UsageEvent list) result \<Rightarrow> AnalyticsService \<Rightarrow> AnalyticsService" where
  "consume_round res svc =
     (case res of
        Inl _ \<Rightarrow> svc
      | Inr events \<Rightarrow> if 0 < length events then AddEvents events svc else svc)"

section \<open>Lemmas\<close>

text \<open>A round of the loop is a sequence of steps of the worker's transition system.\<close>

lemma consume_round_steps:
  assumes "consume_round res (wk_svc k) = svc'"
  shows "\<exists>k'. worker_reach ins k k' \<and> wk_svc k' = svc' \<and> wk_stored k' = wk_stored k \<and> wk_writer k' = wk_writer k
    \<and> wk_added k' = wk_added k @ (case res of Inl _ \<Rightarrow> [] | Inr es \<Rightarrow> es)"
proof (cases "\<exists>es. res = Inr es \<and> es \<noteq> []")
  case False
  then show ?thesis
    using assms by (intro exI [of _ k]) (auto simp: consume_round_def reach_init split: sum.splits)
next
  case True
  then obtain es where es: "res = Inr es" "es \<noteq> []" by blast
  obtain full s1 where a: "add_locked es (wk_svc k) = (full, s1)" by fastforce
  define k1 where "k1 = k\<lparr>wk_svc := s1, wk_adders := wk_adders k + (if full then 1 else 0), wk_added := wk_added k @ es\<rparr>"
  have s1: "worker_step ins k k1" unfolding k1_def by (rule ws_add [OF es(2) a])
  show ?thesis
  proof (cases full)
    case True
    have "wk_adders k1 = Suc (wk_adders k)" by (simp add: k1_def True)
    from reach_step [OF reach_step [OF reach_init s1] ws_add_signal [OF this]] show ?thesis
      using assms es a True by (intro exI conjI) (assumption, auto simp: consume_round_def AddEvents_def k1_def)
  next
    case False
    from reach_step [OF reach_init s1] show ?thesis
      using assms es a False by (intro exI conjI) (assumption, auto simp: consume_round_def AddEvents_def k1_def)
  qed
qed

end
