(* ===== verification/AesGcm.thy ===== *)
theory AesGcm
  imports Prelude
begin

text \<open>
  \<^verbatim>\<open>crypto/aes\<close> and \<^verbatim>\<open>crypto/cipher\<close>'s GCM with the standard nonce of 12 bytes, as the BYOK service uses
  them: \<open>Seal\<close> and \<open>Open\<close> without additional data.  The block cipher is the one of FIPS 197, over blocks
  as lists of 16 bytes, column by column; GCM is the one of SP 800-38D.
\<close>

section \<open>AES\<close>

definition xtime :: "byte \<Rightarrow> byte" where
  "xtime a = push_bit 1 a XOR (if bit a 7 then 0x1b else 0)"

definition gmul :: "byte \<Rightarrow> byte \<Rightarrow> byte" where
  "gmul a b = foldl (\<lambda>acc i. if bit b i then acc XOR (xtime ^^ i) a else acc) 0 [0..<8]"

definition rotl8 :: "nat \<Rightarrow> byte \<Rightarrow> byte" where
  "rotl8 n b = push_bit n b OR drop_bit (8 - n) b"

text \<open>The inverse in the field is the 254th power.\<close>

definition sub_byte :: "byte \<Rightarrow> byte" where
  "sub_byte b =
     (let i = (gmul b ^^ 253) b
      in i XOR rotl8 1 i XOR rotl8 2 i XOR rotl8 3 i XOR rotl8 4 i XOR 0x63)"

definition sbox :: "byte list" where
  "sbox = map (\<lambda>n. sub_byte (word_of_nat n)) [0..<256]"

definition SubWord :: "byte list \<Rightarrow> byte list" where
  "SubWord w = map (\<lambda>b. sbox ! unat b) w"

text \<open>The next word of the key schedule, from the words so far, newest first.\<close>

definition next_key_word :: "nat \<Rightarrow> byte list list \<Rightarrow> byte list list" where
  "next_key_word nk ws =
     (let i = length ws; t = hd ws;
          t' = (if i mod nk = 0 then map2 (XOR) (SubWord (rotate1 t)) [(xtime ^^ (i div nk - 1)) 1, 0, 0, 0]
                else if 6 < nk \<and> i mod nk = 4 then SubWord t else t)
      in map2 (XOR) (ws ! (nk - 1)) t' # ws)"

fun blocks_of :: "nat \<Rightarrow> 'a list \<Rightarrow> 'a list list" where
  "blocks_of n [] = []"
| "blocks_of n (x # xs) = take (Suc n) (x # xs) # blocks_of n (drop n xs)"

definition round_keys :: "byte list \<Rightarrow> byte list list" where
  "round_keys key =
     (let nk = length key div 4;
          ws = rev ((next_key_word nk ^^ (4 * (nk + 7) - nk)) (rev (blocks_of 3 key)))
      in map concat (blocks_of 3 ws))"

definition shift_rows :: "byte list \<Rightarrow> byte list" where
  "shift_rows s = map (\<lambda>i. s ! ((i div 4 + i mod 4) mod 4 * 4 + i mod 4)) [0..<16]"

definition mix_column :: "byte list \<Rightarrow> byte list" where
  "mix_column c =
     map (\<lambda>i. gmul 2 (c ! i) XOR gmul 3 (c ! ((i + 1) mod 4)) XOR c ! ((i + 2) mod 4) XOR c ! ((i + 3) mod 4))
       [0..<4]"

definition aes_round :: "byte list \<Rightarrow> byte list \<Rightarrow> byte list" where
  "aes_round s k = map2 (XOR) (concat (map mix_column (blocks_of 3 (shift_rows (SubWord s))))) k"

definition aes_encrypt :: "byte list \<Rightarrow> byte list \<Rightarrow> byte list" where
  "aes_encrypt key blk =
     (case round_keys key of
        [] \<Rightarrow> blk
      | k0 # ks \<Rightarrow>
          map2 (XOR) (shift_rows (SubWord (foldl aes_round (map2 (XOR) blk k0) (butlast ks)))) (last ks))"

section \<open>GCM\<close>

definition be_word :: "byte list \<Rightarrow> 128 word" where
  "be_word bs = foldl (\<lambda>w b. push_bit 8 w OR ucast b) 0 bs"

definition be_bytes :: "nat \<Rightarrow> int \<Rightarrow> byte list" where
  "be_bytes n i = map (\<lambda>k. word_of_int (i div 2 ^ (8 * (n - 1 - k)))) [0..<n]"

definition gf_step :: "128 word \<Rightarrow> 128 word \<times> 128 word \<Rightarrow> nat \<Rightarrow> 128 word \<times> 128 word" where
  "gf_step x zv i =
     (let (z, v) = zv
      in (if bit x (127 - i) then z XOR v else z,
          if bit v 0 then drop_bit 1 v XOR push_bit 120 0xe1 else drop_bit 1 v))"

definition gf_mul :: "128 word \<Rightarrow> 128 word \<Rightarrow> 128 word" where
  "gf_mul x y = fst (foldl (gf_step x) (0, y) [0..<128])"

definition pad16 :: "byte list \<Rightarrow> byte list" where
  "pad16 bs = bs @ replicate ((16 - length bs mod 16) mod 16) 0"

definition ghash :: "128 word \<Rightarrow> byte list \<Rightarrow> 128 word" where
  "ghash h bs = foldl (\<lambda>y b. gf_mul (y XOR be_word b) h) 0 (blocks_of 15 bs)"

definition ctr_block :: "byte list \<Rightarrow> nat \<Rightarrow> byte list" where
  "ctr_block iv n = iv @ be_bytes 4 (int n)"

text \<open>The key stream: the counter starts at 2 for the text; 1 is kept for the tag.\<close>

definition keystream :: "byte list \<Rightarrow> byte list \<Rightarrow> nat \<Rightarrow> byte list" where
  "keystream key iv n =
     take n (concat (map (\<lambda>i. aes_encrypt key (ctr_block iv (i + 2))) [0..<(n + 15) div 16]))"

definition gcm_tag :: "byte list \<Rightarrow> byte list \<Rightarrow> byte list \<Rightarrow> byte list" where
  "gcm_tag key iv ct =
     (let h = be_word (aes_encrypt key (replicate 16 0));
          s = ghash h (pad16 ct @ be_bytes 8 0 @ be_bytes 8 (8 * int (length ct)))
      in map2 (XOR) (be_bytes 16 (uint s)) (aes_encrypt key (ctr_block iv 1)))"

definition gcm_xor :: "byte list \<Rightarrow> byte list \<Rightarrow> byte list \<Rightarrow> byte list" where
  "gcm_xor key iv bs = map2 (XOR) bs (keystream key iv (length bs))"

definition Seal :: "byte list \<Rightarrow> byte list \<Rightarrow> byte list \<Rightarrow> byte list" where
  "Seal key iv plaintext = (let ct = gcm_xor key iv plaintext in ct @ gcm_tag key iv ct)"

text \<open>\<open>None\<close> is \<^verbatim>\<open>message authentication failed\<close>.\<close>

definition Open :: "byte list \<Rightarrow> byte list \<Rightarrow> byte list \<Rightarrow> byte list option" where
  "Open key iv sealed =
     (if length sealed < 16 then None
      else
        (let ct = take (length sealed - 16) sealed; tag = drop (length sealed - 16) sealed
         in if tag = gcm_tag key iv ct then Some (gcm_xor key iv ct) else None))"

section \<open>Lengths\<close>

lemma blocks_of_full:
  "length xs = Suc n * k \<Longrightarrow> length (blocks_of n xs) = k \<and> (\<forall>b \<in> set (blocks_of n xs). length b = Suc n \<and> set b \<subseteq> set xs)"
proof (induction n xs arbitrary: k rule: blocks_of.induct)
  case (2 n x xs)
  from 2(2) obtain k' where k: "k = Suc k'" by (cases k) auto
  from 2(2) have l: "length (drop n xs) = Suc n * k'" and n: "n \<le> length xs"
    unfolding k by simp_all
  have ih: "length (blocks_of n (drop n xs)) = k'"
    "\<And>b. b \<in> set (blocks_of n (drop n xs)) \<Longrightarrow> length b = Suc n \<and> set b \<subseteq> set (drop n xs)"
    using 2(1) [OF l] by blast+
  have "set (drop n xs) \<subseteq> set (x # xs)" by (rule subset_trans [OF set_drop_subset set_subset_Cons])
  then have "\<forall>b \<in> set (blocks_of n (drop n xs)). length b = Suc n \<and> set b \<subseteq> set (x # xs)"
    using ih(2) subset_trans by metis
  moreover have "set (take (Suc n) (x # xs)) \<subseteq> set (x # xs)" by (rule set_take_subset)
  moreover have "length (take (Suc n) (x # xs)) = Suc n" using n by simp
  moreover have "length (blocks_of n (x # xs)) = k" by (simp add: ih(1) k)
  ultimately show ?case unfolding blocks_of.simps(2) list.set(2) by blast
qed simp

lemma length_concat_const: "\<forall>b \<in> set bs. length b = n \<Longrightarrow> length (concat bs) = n * length bs"
  by (induction bs) auto

lemma length_SubWord [simp]: "length (SubWord w) = length w"
  by (simp add: SubWord_def)

lemma length_shift_rows [simp]: "length (shift_rows s) = 16"
  by (simp add: shift_rows_def)

text \<open>A key schedule in progress: words of four bytes, at least as many as the key has.\<close>

definition schedule_ok :: "nat \<Rightarrow> byte list list \<Rightarrow> bool" where
  "schedule_ok nk ws = (0 < nk \<and> nk \<le> length ws \<and> (\<forall>w \<in> set ws. length w = 4))"

lemma next_key_word_ok:
  assumes "schedule_ok nk ws"
  shows "schedule_ok nk (next_key_word nk ws) \<and> length (next_key_word nk ws) = Suc (length ws)"
proof -
  from assms have "ws \<noteq> []" "0 < nk" "nk \<le> length ws" by (auto simp: schedule_ok_def)
  with assms have "length (hd ws) = 4" "length (ws ! (nk - 1)) = 4" by (auto simp: schedule_ok_def)
  with assms show ?thesis by (auto simp: schedule_ok_def next_key_word_def Let_def)
qed

lemma schedule_run:
  "schedule_ok nk ws \<Longrightarrow>
     schedule_ok nk ((next_key_word nk ^^ n) ws) \<and> length ((next_key_word nk ^^ n) ws) = length ws + n"
  using next_key_word_ok by (induction n) auto

lemma round_keys_length:
  assumes "length key = 32"
  shows "length (round_keys key) = 15 \<and> (\<forall>k \<in> set (round_keys key). length k = 16)"
proof -
  define ws where "ws = rev ((next_key_word 8 ^^ 52) (rev (blocks_of 3 key)))"
  have "length (blocks_of 3 key) = 8" "\<forall>b \<in> set (blocks_of 3 key). length b = 4"
    using assms blocks_of_full [of key 3 8] by auto
  then have "schedule_ok 8 (rev (blocks_of 3 key))" by (simp add: schedule_ok_def)
  from schedule_run [OF this, of 52] have ws: "length ws = 60" "\<forall>w \<in> set ws. length w = 4"
    using \<open>length (blocks_of 3 key) = 8\<close> by (auto simp: ws_def schedule_ok_def)
  have four: "length (concat b) = 16" if "length b = 4" "set b \<subseteq> set ws" for b
    using that ws(2) length_concat_const [of b 4] by auto
  have "length (blocks_of 3 ws) = 15" "\<forall>b \<in> set (blocks_of 3 ws). length b = 4 \<and> set b \<subseteq> set ws"
    using blocks_of_full [of ws 3 15] ws(1) by auto
  moreover have "round_keys key = map concat (blocks_of 3 ws)"
    using assms by (simp add: round_keys_def ws_def)
  ultimately show ?thesis using four by auto
qed

lemma length_aes_encrypt:
  assumes "length key = 32"
  shows "length (aes_encrypt key blk) = 16"
proof -
  have len: "length (round_keys key) = 15" using round_keys_length [OF assms] by simp
  then obtain k0 ks where r: "round_keys key = k0 # ks" by (cases "round_keys key") auto
  with len have "ks \<noteq> []" by auto
  then have "length (last ks) = 16" using round_keys_length [OF assms] r by auto
  then show ?thesis using r by (simp add: aes_encrypt_def)
qed

lemma length_keystream:
  assumes "length key = 32"
  shows "length (keystream key iv n) = n"
proof -
  define bs where "bs = map (\<lambda>i. aes_encrypt key (ctr_block iv (i + 2))) [0..<(n + 15) div 16]"
  have "length (concat bs) = 16 * length bs"
    by (rule length_concat_const) (auto simp: bs_def length_aes_encrypt [OF assms])
  moreover have "n \<le> 16 * ((n + 15) div 16)" by presburger
  ultimately show ?thesis by (simp add: keystream_def bs_def)
qed

lemma length_gcm_tag: "length key = 32 \<Longrightarrow> length (gcm_tag key iv ct) = 16"
  by (simp add: gcm_tag_def Let_def length_aes_encrypt be_bytes_def)

lemma map2_xor_cancel:
  fixes bs :: "byte list"
  shows "length ks = length bs \<Longrightarrow> map2 (XOR) (map2 (XOR) bs ks) ks = bs"
  by (induction bs arbitrary: ks) (auto simp: length_Suc_conv xor.assoc)

lemma gcm_xor_inverse: "length key = 32 \<Longrightarrow> gcm_xor key iv (gcm_xor key iv bs) = bs"
  by (simp add: gcm_xor_def length_keystream map2_xor_cancel)

text \<open>What was sealed opens again.\<close>

lemma Open_Seal:
  assumes "length key = 32"
  shows "Open key iv (Seal key iv pt) = Some pt"
  using length_gcm_tag [OF assms] by (simp add: Open_def Seal_def Let_def gcm_xor_inverse [OF assms])

text \<open>What opens was sealed: the decoder accepts nothing else.\<close>

lemma Open_iff:
  assumes "length key = 32"
  shows "Open key iv s = Some pt \<longleftrightarrow> s = Seal key iv pt"
proof
  assume "Open key iv s = Some pt"
  then have "drop (length s - 16) s = gcm_tag key iv (take (length s - 16) s)"
    "pt = gcm_xor key iv (take (length s - 16) s)"
    by (auto simp: Open_def Let_def split: if_splits)
  then show "s = Seal key iv pt"
    by (simp add: Seal_def Let_def gcm_xor_inverse [OF assms])
       (metis append_take_drop_id)
qed (simp add: Open_Seal assms)

end
