(* ===== verification/Byok.thy ===== *)
theory Byok
  imports Keys AesGcm
begin

text \<open>
  \<^verbatim>\<open>engine/internal/byok/service.go\<close>: a tenant's provider keys, encrypted with AES-256-GCM under a master
  key derived from the environment.  The nonce is an argument, \<open>ulow\<close> is \<open>strings.ToLower\<close> outside
  ASCII, errors are their texts and a panic is \<open>None\<close>.
\<close>

section \<open>Encryption\<close>

definition key_size_ok :: "byte list \<Rightarrow> bool" where
  "key_size_ok key = (length key = 16 \<or> length key = 24 \<or> length key = 32)"

definition key_size_error :: "byte list \<Rightarrow> string" where
  "key_size_error key = ''crypto/aes: invalid key size '' @ show_nat (length key)"

definition encrypt ::
  "(string, byte list) result \<Rightarrow> byte list \<Rightarrow> byte list \<Rightarrow> (string, byte list \<times> byte list) result" where
  "encrypt rnd key plaintext =
     (if \<not> key_size_ok key then Inl (key_size_error key)
      else case rnd of Inl err \<Rightarrow> Inl err | Inr iv \<Rightarrow> Inr (Seal key iv plaintext, iv))"

text \<open>\<open>gcm.Open\<close> panics for a nonce that does not have 12 bytes.\<close>

definition decrypt :: "byte list \<Rightarrow> byte list \<Rightarrow> byte list \<Rightarrow> (string, byte list) result option" where
  "decrypt key ciphertext iv =
     (if \<not> key_size_ok key then Some (Inl (key_size_error key))
      else if length iv \<noteq> 12 then None
      else
        (case Open key iv ciphertext of
           None \<Rightarrow> Some (Inl ''GCM authentication failed: cipher: message authentication failed'')
         | Some plaintext \<Rightarrow> Some (Inr plaintext)))"

section \<open>The service\<close>

record ByokService =
  bs_PG :: bool
  masterKey :: "byte list"

definition resolveMasterKey :: "environ \<Rightarrow> byte list" where
  "resolveMasterKey env =
     (let raw = env ''BYOK_MASTER_KEY'';
          raw' = (if raw = [] then ''default-byok-master-key-fallback-32b'' else raw)
      in Sum256 (string_bytes raw'))"

definition NewByokService :: "environ \<Rightarrow> bool \<Rightarrow> ByokService" where
  "NewByokService env pg = \<lparr>bs_PG = pg, masterKey = resolveMasterKey env\<rparr>"

definition valid_providers :: "string list" where
  "valid_providers = [''openai'', ''anthropic'', ''google'', ''azure'', ''cohere'']"

definition byok_new_row :: "string \<Rightarrow> string \<Rightarrow> byte list \<Rightarrow> byte list \<Rightarrow> int \<Rightarrow> byok_row" where
  "byok_new_row org provider enc iv now =
     \<lparr>bk_org_id = org, bk_provider = provider, bk_encrypted_key = enc, bk_key_iv = iv,
      bk_created_at = now, bk_updated_at = now\<rparr>"

definition byok_set_row :: "byte list \<Rightarrow> byte list \<Rightarrow> int \<Rightarrow> byok_row \<Rightarrow> byok_row" where
  "byok_set_row enc iv now r = r\<lparr>bk_encrypted_key := enc, bk_key_iv := iv, bk_updated_at := now\<rparr>"

definition RegisterProviderKey ::
  "'w services \<Rightarrow> (string \<Rightarrow> string) \<Rightarrow> (string, byte list) result \<Rightarrow> ByokService
   \<Rightarrow> string \<Rightarrow> string \<Rightarrow> string \<Rightarrow> 'w \<Rightarrow> (string, unit) result \<times> 'w" where
  "RegisterProviderKey sv ulow rnd s orgID provider0 apiKey w =
     (let provider = ToLower ulow provider0 in
      if provider \<notin> set valid_providers then (Inl (''UNSUPPORTED_PROVIDER: '' @ provider), w)
      else
        (case encrypt rnd (masterKey s) (string_bytes apiKey) of
           Inl err \<Rightarrow> (Inl (''encryption failed: '' @ err), w)
         | Inr (enc, iv) \<Rightarrow>
             if bs_PG s then
               (case pg_upsert_byok sv (byok_new_row orgID provider enc iv) (byok_set_row enc iv) w of
                  (Inl e, w') \<Rightarrow> (Inl (''postgres insert failed: '' @ pg_error_text e), w')
                | (Inr _, w') \<Rightarrow> (Inr (), w'))
             else (Inr (), w)))"

text \<open>The dash of the last error is the three bytes of U+2014.\<close>

definition GetProviderKey ::
  "'w services \<Rightarrow> ByokService \<Rightarrow> string \<Rightarrow> string \<Rightarrow> 'w \<Rightarrow> (string, string) result option \<times> 'w" where
  "GetProviderKey sv s orgID provider w =
     (if \<not> bs_PG s then (Some (Inl ''postgres not available''), w)
      else
        (case pg_byok sv w of
           (Inl e, w') \<Rightarrow> (Some (Inl (''BYOK lookup failed: '' @ pg_error_text e)), w')
         | (Inr rows, w') \<Rightarrow>
             (case find (\<lambda>r. bk_org_id r = orgID \<and> bk_provider r = provider) rows of
                None \<Rightarrow> (Some (Inl (''BYOK key not found for org='' @ orgID @ '' provider='' @ provider)), w')
              | Some r \<Rightarrow>
                  (case decrypt (masterKey s) (bk_encrypted_key r) (bk_key_iv r) of
                     None \<Rightarrow> (None, w')
                   | Some (Inl err) \<Rightarrow>
                       (Some (Inl (''decryption failed '' @ [CHR 0xE2, CHR 0x80, CHR 0x94]
                          @ '' key may be corrupted or master key changed: '' @ err)), w')
                   | Some (Inr raw) \<Rightarrow> (Some (Inr (bytes_string raw)), w')))))"

definition hexBytes :: "byte list \<Rightarrow> string" where
  "hexBytes b = hex_encode b"

section \<open>The table\<close>

text \<open>
  The table as the service keeps it: at most one row for an organisation and a provider, only
  supported providers, and nonces of 12 bytes.
\<close>

definition byok_ok :: "database \<Rightarrow> bool" where
  "byok_ok d =
     (distinct (map (\<lambda>r. (bk_org_id r, bk_provider r)) (byok_provider_keys d))
      \<and> list_all (\<lambda>r. bk_provider r \<in> set valid_providers \<and> length (bk_key_iv r) = 12) (byok_provider_keys d))"

definition find_byok :: "string \<Rightarrow> string \<Rightarrow> byok_row list \<Rightarrow> byok_row option" where
  "find_byok org provider rows = find (\<lambda>r. bk_org_id r = org \<and> bk_provider r = provider) rows"

lemma byok_row_simps [simp]:
  "bk_org_id (byok_new_row o' p enc iv t) = o'" "bk_provider (byok_new_row o' p enc iv t) = p"
  "bk_encrypted_key (byok_new_row o' p enc iv t) = enc" "bk_key_iv (byok_new_row o' p enc iv t) = iv"
  "bk_org_id (byok_set_row enc iv t r) = bk_org_id r" "bk_provider (byok_set_row enc iv t r) = bk_provider r"
  "bk_encrypted_key (byok_set_row enc iv t r) = enc" "bk_key_iv (byok_set_row enc iv t r) = iv"
  by (simp_all add: byok_new_row_def byok_set_row_def)

text \<open>What a lookup finds after an upsert.\<close>

lemma find_map_update:
  "find_byok o' q (map (\<lambda>r. if same_byok_key new r then byok_set_row enc iv t r else r) rows) =
     (if bk_org_id new = o' \<and> bk_provider new = q
      then map_option (byok_set_row enc iv t) (find_byok o' q rows) else find_byok o' q rows)"
  by (induction rows) (auto simp: find_byok_def same_byok_key_def)

lemma find_byok_append:
  "find_byok o' q (rows @ rows') = (case find_byok o' q rows of None \<Rightarrow> find_byok o' q rows' | Some r \<Rightarrow> Some r)"
  by (induction rows) (auto simp: find_byok_def)

lemma list_ex_same: "list_ex (same_byok_key new) rows \<longleftrightarrow> find_byok (bk_org_id new) (bk_provider new) rows \<noteq> None"
  by (induction rows) (auto simp: find_byok_def same_byok_key_def)

lemma find_upsert:
  "(case find_byok o' q (upsert_byok (byok_new_row a b enc iv t) (byok_set_row enc iv t) rows) of
      None \<Rightarrow> find_byok o' q rows = None \<and> (o', q) \<noteq> (a, b)
    | Some r \<Rightarrow> if (o', q) = (a, b) then bk_encrypted_key r = enc \<and> bk_key_iv r = iv
                 else find_byok o' q rows = Some r)"
  by (auto simp: upsert_byok_def list_ex_same find_map_update find_byok_append split: option.splits)
     (auto simp: find_byok_def)

lemma upsert_keys:
  "map (\<lambda>r. (bk_org_id r, bk_provider r)) (upsert_byok (byok_new_row a b enc iv t) (byok_set_row enc iv t) rows) =
     map (\<lambda>r. (bk_org_id r, bk_provider r)) rows @
     (if find_byok a b rows = None then [(a, b)] else [])"
  by (auto simp: upsert_byok_def list_ex_same)

lemma byok_ok_upsert:
  assumes "byok_ok d" and "b \<in> set valid_providers" and "length iv = 12"
  shows "byok_ok (d\<lparr>byok_provider_keys :=
    upsert_byok (byok_new_row a b enc iv t) (byok_set_row enc iv t) (byok_provider_keys d)\<rparr>)"
proof -
  have "find_byok a b (byok_provider_keys d) = None \<Longrightarrow>
      (a, b) \<notin> set (map (\<lambda>r. (bk_org_id r, bk_provider r)) (byok_provider_keys d))"
    by (auto simp: find_byok_def find_None_iff)
  then show ?thesis
    using assms unfolding byok_ok_def by (auto simp: upsert_keys) (auto simp: upsert_byok_def list_all_iff)
qed

section \<open>The table as a map\<close>

text \<open>The abstract view: what each organisation has registered with each provider, in clear.\<close>

definition open_row :: "ByokService \<Rightarrow> byok_row \<Rightarrow> string option" where
  "open_row s r =
     (case decrypt (masterKey s) (bk_encrypted_key r) (bk_key_iv r) of
        Some (Inr raw) \<Rightarrow> Some (bytes_string raw) | _ \<Rightarrow> None)"

definition provider_keys :: "ByokService \<Rightarrow> database \<Rightarrow> string \<times> string \<Rightarrow> string option" where
  "provider_keys s d k = Option.bind (find_byok (fst k) (snd k) (byok_provider_keys d)) (open_row s)"

lemma masterKey_length [simp]: "length (masterKey (NewByokService env pg)) = 32"
  by (simp add: NewByokService_def resolveMasterKey_def Let_def)

lemma open_sealed:
  assumes "length (masterKey s) = 32" and "length iv = 12" and "bk_key_iv r = iv"
    and "bk_encrypted_key r = Seal (masterKey s) iv (string_bytes k)"
  shows "open_row s r = Some k"
  using assms by (simp add: open_row_def decrypt_def key_size_ok_def Open_Seal)

lemma provider_keys_upsert:
  assumes "length (masterKey s) = 32" and "length iv = 12"
    and "enc = Seal (masterKey s) iv (string_bytes k)"
  shows "provider_keys s (d\<lparr>byok_provider_keys :=
      upsert_byok (byok_new_row a b enc iv t) (byok_set_row enc iv t) (byok_provider_keys d)\<rparr>)
    = (provider_keys s d)((a, b) \<mapsto> k)"
proof
  fix x :: "string \<times> string"
  obtain o' q where x: "x = (o', q)" by (cases x)
  let ?rows = "upsert_byok (byok_new_row a b enc iv t) (byok_set_row enc iv t) (byok_provider_keys d)"
  have f: "case find_byok o' q ?rows of
      None \<Rightarrow> find_byok o' q (byok_provider_keys d) = None \<and> (o', q) \<noteq> (a, b)
    | Some r \<Rightarrow> if (o', q) = (a, b) then bk_encrypted_key r = enc \<and> bk_key_iv r = iv
                 else find_byok o' q (byok_provider_keys d) = Some r"
    by (rule find_upsert)
  have "open_row s r = Some k" if "bk_encrypted_key r = enc" "bk_key_iv r = iv" for r
    using that assms by (intro open_sealed) auto
  with f show "provider_keys s (d\<lparr>byok_provider_keys := ?rows\<rparr>) x = ((provider_keys s d)((a, b) \<mapsto> k)) x"
    by (auto simp: x provider_keys_def split: option.splits if_splits)
qed



text \<open>
  Lookups are by the exact name.  With no failing command, on a well-formed table a lookup never
  panics, and for a provider that is not one of the five lower-case names, such as \<^verbatim>\<open>OpenAI\<close>, which
  registration accepts, it reports that there is no key.
\<close>

theorem GetProviderKey_exact_name:
  assumes "backend_up sv kv bf db sent" and "s = NewByokService env True" and "byok_ok (db w)"
  shows "\<exists>x w'. GetProviderKey sv s org prov w = (Some x, w') \<and> db w' = db w
    \<and> (prov \<notin> set valid_providers \<longrightarrow>
         x = Inl (''BYOK key not found for org='' @ org @ '' provider='' @ prov))"
proof -
  have pg: "bs_PG s" using assms(2) by (simp add: NewByokService_def)
  note be = backend_up.axioms(1) [OF assms(1)]
  obtain w' where q: "pg_byok sv w = (Inr (byok_provider_keys (db w)), w')" "db w' = db w"
    using backend_up.byok_up [OF assms(1), of w] backend.byok_ok [OF be] by metis
  show ?thesis
  proof (cases "find_byok org prov (byok_provider_keys (db w))")
    case None
    then show ?thesis using pg q by (simp add: GetProviderKey_def find_byok_def)
  next
    case (Some r)
    then have r: "r \<in> set (byok_provider_keys (db w))" "bk_provider r = prov"
      by (auto simp: find_byok_def find_Some_iff)
    then have "length (bk_key_iv r) = 12" "prov \<in> set valid_providers"
      using assms(3) by (auto simp: byok_ok_def list_all_iff)
    then show ?thesis
      using pg q Some by (auto simp: GetProviderKey_def find_byok_def decrypt_def split: option.split)
  qed
qed

theorem GetProviderKey_exact_name_witness:
  "\<exists>w'. GetProviderKey (ref_services False) (NewByokService (\<lambda>_. []) True) ''acme'' ''OpenAI'' empty_world
     = (Some (Inl ''BYOK key not found for org=acme provider=OpenAI''), w')"
proof -
  have "byok_ok (rw_db empty_world)" by (simp add: byok_ok_def empty_world_def empty_db_def)
  from GetProviderKey_exact_name [OF ref_up.backend_up_axioms refl this, of "\<lambda>_. []" "''acme''" "''OpenAI''"]
  show ?thesis by (auto simp: valid_providers_def)
qed

end
