(* ===== verification/SecurityAudit.thy ===== *)
theory SecurityAudit
  imports Http Ref_Backend GoParse
begin

text \<open>
  \<^verbatim>\<open>engine/internal/security/audit_logger.go\<close>: the log of security violations.  A failed insert is only
  logged, so \<open>LogViolation\<close> returns the next world and nothing else.
\<close>

section \<open>Violations\<close>

definition ViolationInvalidKey :: string where "ViolationInvalidKey = ''invalid_key''"
definition ViolationBudgetExhausted :: string where "ViolationBudgetExhausted = ''budget_exhausted''"
definition ViolationRateLimit :: string where "ViolationRateLimit = ''rate_limit''"
definition ViolationGuardrailBlock :: string where "ViolationGuardrailBlock = ''guardrail_blocked''"

definition ValidViolationTypes :: "string list" where
  "ValidViolationTypes =
     [ViolationInvalidKey, ViolationBudgetExhausted, ViolationRateLimit, ViolationGuardrailBlock]"

fun IsValid_loop :: "string \<Rightarrow> string list \<Rightarrow> bool" where
  "IsValid_loop t [] = False"
| "IsValid_loop t (v # vs) = (if v = t then True else IsValid_loop t vs)"

definition IsValidViolationType :: "string \<Rightarrow> bool" where
  "IsValidViolationType t = IsValid_loop t ValidViolationTypes"

section \<open>The logger\<close>

text \<open>The client's address: the first element of \<^verbatim>\<open>X-Forwarded-For\<close>, or the host of the peer's address.\<close>

definition extractIP :: "request \<Rightarrow> string" where
  "extractIP r =
     (let xff = r_Header r ''X-Forwarded-For'';
          parts = split_on (CHR '','') xff
      in if xff \<noteq> [] \<and> 0 < length parts then TrimSpace (parts ! 0)
         else
           (case SplitHostPort (r_RemoteAddr r) of
              None \<Rightarrow> r_RemoteAddr r
            | Some (host, _) \<Rightarrow> host))"

text \<open>\<open>truncate\<close>: the slice has \<open>maxLen - 15\<close> bytes; every caller passes 1000.\<close>

definition truncate_text :: "string \<Rightarrow> nat \<Rightarrow> string" where
  "truncate_text s maxLen =
     (if length s \<le> maxLen then s else take (maxLen - 15) s @ ''... (truncated)'')"

record AuditLogger =
  al_PG :: bool

definition NewAuditLogger :: "bool \<Rightarrow> AuditLogger" where
  "NewAuditLogger pg = \<lparr>al_PG = pg\<rparr>"

definition violation_row :: "string \<Rightarrow> string \<Rightarrow> string \<Rightarrow> string \<Rightarrow> string \<Rightarrow> int \<Rightarrow> audit_row" where
  "violation_row violationType orgID ip detail keyPrefix now =
     \<lparr>au_org_id = (if orgID \<noteq> [] then Some orgID else None), au_violation_type = violationType,
      au_ip_address = ip, au_details = detail, au_triggered_by = keyPrefix, au_created_at = now\<rparr>"

definition LogViolation ::
  "'w services \<Rightarrow> AuditLogger \<Rightarrow> string \<Rightarrow> string \<Rightarrow> string \<Rightarrow> string \<Rightarrow> request \<Rightarrow> 'w \<Rightarrow> 'w" where
  "LogViolation sv al violationType orgID keyPrefix detail0 r w =
     (if \<not> al_PG al then w
      else
        (let ip = extractIP r; detail = truncate_text detail0 1000
         in snd (pg_insert_audit sv (violation_row violationType orgID ip detail keyPrefix) w)))"

section \<open>Lemmas and properties\<close>

lemma IsValid_loop_iff: "IsValid_loop t vs \<longleftrightarrow> t \<in> set vs"
  by (induction vs) auto

lemma length_truncate: "15 \<le> n \<Longrightarrow> length (truncate_text s n) = min (length s) n"
  by (simp add: truncate_text_def) arith

lemma truncate_short: "length s \<le> n \<Longrightarrow> truncate_text s n = s"
  by (simp add: truncate_text_def)

text \<open>
  One bounded row for each violation.  With no failing command, \<open>LogViolation\<close> adds exactly one row
  to the audit log and touches nothing else; its details have at most 1000 bytes, are the given text
  when that is short enough and otherwise start with its first 985 bytes; an empty organisation is
  stored as NULL.  Without a database nothing happens.
\<close>

theorem LogViolation_row:
  assumes "backend_up sv kv bf db sent"
  shows "let w' = LogViolation sv al vt org pre detail r w in
    kv w' = kv w \<and> sent w' = sent w \<and>
    (if al_PG al then
       \<exists>row. db w' = (db w)\<lparr>security_audit_logs := security_audit_logs (db w) @ [row]\<rparr>
         \<and> au_violation_type row = vt \<and> au_triggered_by row = pre \<and> au_ip_address row = extractIP r
         \<and> (au_org_id row = None \<longleftrightarrow> org = []) \<and> length (au_details row) = min (length detail) 1000
         \<and> take 985 (au_details row) = take 985 detail
         \<and> (length detail \<le> 1000 \<longrightarrow> au_details row = detail)
     else w' = w)"
proof (cases "al_PG al")
  case True
  let ?row = "violation_row vt org (extractIP r) (truncate_text detail 1000) pre"
  note be = backend_up.axioms(1) [OF assms]
  obtain u w' where i: "pg_insert_audit sv ?row w = (Inr u, w')"
    using backend_up.insert_audit_up [OF assms] by blast
  then have w': "LogViolation sv al vt org pre detail r w = w'"
    using True by (simp add: LogViolation_def)
  obtain now where d: "db w' = (db w)\<lparr>security_audit_logs := security_audit_logs (db w) @ [?row now]\<rparr>"
    using backend.insert_audit_ok [OF be i] by blast
  have "take 985 (truncate_text detail 1000) = take 985 detail"
    by (auto simp: truncate_text_def)
  then show ?thesis
    using True d backend.insert_audit_frame [OF be i]
    by (auto simp: w' Let_def violation_row_def length_truncate truncate_short)
qed (simp add: LogViolation_def)

definition demo_peer :: request where
  "demo_peer = \<lparr>r_Method = ''POST'', r_Path = ''/v1/keys'', r_Query = (\<lambda>_. []), r_Header = (\<lambda>_. []),
     r_RemoteAddr = ''10.0.0.7:4711'', r_Body = [], r_BodyErr = False, r_KeyContext = None, r_TraceContext = None\<rparr>"

theorem LogViolation_row_witness:
  "\<exists>row. rw_db (LogViolation (ref_services False) (NewAuditLogger True) ViolationInvalidKey [] ''sk-live-abc''
       (replicate 2000 (CHR ''x'')) demo_peer empty_world)
     = empty_db\<lparr>security_audit_logs := [row]\<rparr> \<and> length (au_details row) = 1000 \<and> au_org_id row = None"
  using LogViolation_row [OF ref_up.backend_up_axioms, of "NewAuditLogger True" ViolationInvalidKey "[]"
      "''sk-live-abc''" "replicate 2000 (CHR ''x'')" demo_peer empty_world]
  by (auto simp: Let_def NewAuditLogger_def empty_world_def empty_db_def)

end
