(* ===== verification/KeysApi.thy ===== *)
theory KeysApi
  imports KeysProps Byok SecurityAudit Mux
begin

text \<open>
  \<^verbatim>\<open>engine/cmd/keys-api/main.go\<close>: the HTTP front of the key, BYOK and audit services.  The global services
  of the program are arguments of the handlers; a request brings the random bytes it consumes.
\<close>

section \<open>Helpers\<close>

definition writeJSON :: "nat \<Rightarrow> json \<Rightarrow> reply" where
  "writeJSON st v = Reply (json_response st v)"

definition api_error :: "nat \<Rightarrow> string \<Rightarrow> string \<Rightarrow> reply" where
  "api_error st code message = writeJSON st (error_json code message)"

text \<open>The loops run \<open>i\<close> from 0 to \<open>len(s)-len(sub)\<close>; \<open>rest\<close> is \<open>s[i:]\<close>.\<close>

fun findSub_loop :: "string \<Rightarrow> string \<Rightarrow> bool" where
  "findSub_loop rest sub =
     (if length rest < length sub then False
      else if take (length sub) rest = sub then True
      else case rest of [] \<Rightarrow> False | _ # rest' \<Rightarrow> findSub_loop rest' sub)"

definition findSub :: "string \<Rightarrow> string \<Rightarrow> bool" where
  "findSub s sub = findSub_loop s sub"

definition contains :: "string \<Rightarrow> string \<Rightarrow> bool" where
  "contains s substr =
     (length substr \<le> length s \<and>
      (s = substr \<or> length substr < length s \<and>
        (take (length substr) s = substr \<or> drop (length s - length substr) s = substr \<or> findSub s substr)))"

fun findIndex_loop :: "int \<Rightarrow> string \<Rightarrow> string \<Rightarrow> int" where
  "findIndex_loop i rest sub =
     (if length rest < length sub then - 1
      else if take (length sub) rest = sub then i
      else case rest of [] \<Rightarrow> - 1 | _ # rest' \<Rightarrow> findIndex_loop (i + 1) rest' sub)"

definition findIndex :: "string \<Rightarrow> string \<Rightarrow> int" where
  "findIndex s sub = findIndex_loop 0 s sub"

definition extractCode :: "string \<Rightarrow> string" where
  "extractCode msg =
     (let idx = findIndex msg '':'' in if 0 < idx then take (nat idx) msg else ''BAD_REQUEST'')"

declare findSub_loop.simps [simp del] findIndex_loop.simps [simp del]

section \<open>Handlers\<close>

definition healthHandler :: "request \<Rightarrow> 'w \<Rightarrow> reply \<times> 'w" where
  "healthHandler r w = (Reply \<lparr>status = 200, content_type = ''application/json'',
     resp_body = json_print (JObj [(''status'', JStr ''ok'')])\<rparr>, w)"

definition readyHandler :: "request \<Rightarrow> 'w \<Rightarrow> reply \<times> 'w" where
  "readyHandler r w = (Reply \<lparr>status = 200, content_type = ''application/json'',
     resp_body = json_print (JObj [(''status'', JStr ''ready'')])\<rparr>, w)"

definition handleKeys ::
  "'w services \<Rightarrow> (int \<Rightarrow> int) \<Rightarrow> KeyService \<Rightarrow> key_entropy \<Rightarrow> request \<Rightarrow> 'w \<Rightarrow> reply \<times> 'w" where
  "handleKeys sv tz ks ent r w =
     (if r_Method r = ''POST'' then
        (case Decode (decode_object key_request_fields) zero_key_request (r_Body r) of
           Inl _ \<Rightarrow> (api_error 400 ''INVALID_JSON'' ''failed to parse body'', w)
         | Inr req \<Rightarrow>
             (case CreateKey sv ks ent req w of
                (Inl err, w') \<Rightarrow>
                  (api_error 400 (if contains err ''INVALID_'' then extractCode err else ''BAD_REQUEST'') err, w')
              | (Inr resp, w') \<Rightarrow> (writeJSON 201 (key_response_json resp), w')))
      else if r_Method r = ''GET'' then
        (let orgID = r_Query r ''org_id'' in
         if orgID = [] then (api_error 400 ''MISSING_ORG_ID'' ''org_id query param required'', w)
         else
           (case ListKeys sv tz ks orgID 100 0 w of
              (Inl err, w') \<Rightarrow> (api_error 500 ''INTERNAL_ERROR'' err, w')
            | (Inr items, w') \<Rightarrow>
                (writeJSON 200 (if items = [] then JNull else JArr (map key_list_item_json items)), w')))
      else (api_error 405 ''METHOD_NOT_ALLOWED'' ''only GET/POST'', w))"

text \<open>Slicing a path that is shorter than the prefix would panic; the mux sends only longer ones.\<close>

definition handleKeyByID :: "'w services \<Rightarrow> KeyService \<Rightarrow> request \<Rightarrow> 'w \<Rightarrow> reply \<times> 'w" where
  "handleKeyByID sv ks r w =
     (if r_Method r \<noteq> ''DELETE'' then (api_error 405 ''METHOD_NOT_ALLOWED'' ''only DELETE'', w)
      else if length (r_Path r) < length ''/v1/keys/'' then (Panicked, w)
      else
        (let keyID = drop (length ''/v1/keys/'') (r_Path r) in
         if keyID = [] then (api_error 400 ''MISSING_KEY_ID'' ''key ID required'', w)
         else
           (case RevokeKey sv ks keyID w of
              (None, w') \<Rightarrow> (Panicked, w')
            | (Some (Inl err), w') \<Rightarrow> (api_error 404 ''NOT_FOUND'' err, w')
            | (Some (Inr _), w') \<Rightarrow> (writeJSON 200 (JObj [(''status'', JStr ''revoked'')]), w'))))"

record byok_request =
  br_OrgID :: string
  br_Provider :: string
  br_APIKey :: string

definition byok_request_fields :: "(string \<times> byok_request field_decoder) list" where
  "byok_request_fields =
     [(''org_id'', str_field br_OrgID br_OrgID_update),
      (''provider'', str_field br_Provider br_Provider_update),
      (''api_key'', str_field br_APIKey br_APIKey_update)]"

definition handleBYOK ::
  "'w services \<Rightarrow> (string \<Rightarrow> string) \<Rightarrow> ByokService \<Rightarrow> (string, byte list) result \<Rightarrow> request \<Rightarrow> 'w \<Rightarrow> reply \<times> 'w" where
  "handleBYOK sv ulow bs rnd r w =
     (if r_Method r \<noteq> ''POST'' then (api_error 405 ''METHOD_NOT_ALLOWED'' ''only POST'', w)
      else
        (case Decode (decode_object byok_request_fields)
                \<lparr>br_OrgID = [], br_Provider = [], br_APIKey = []\<rparr> (r_Body r) of
           Inl _ \<Rightarrow> (api_error 400 ''INVALID_JSON'' ''failed to parse body'', w)
         | Inr req \<Rightarrow>
             (case RegisterProviderKey sv ulow rnd bs (br_OrgID req) (br_Provider req) (br_APIKey req) w of
                (Inl err, w') \<Rightarrow> (api_error 400 (extractCode err) err, w')
              | (Inr _, w') \<Rightarrow> (writeJSON 201 (JObj [(''status'', JStr ''registered'')]), w'))))"

definition handleSecurityAuditLogs :: "request \<Rightarrow> 'w \<Rightarrow> reply \<times> 'w" where
  "handleSecurityAuditLogs r w =
     (if r_Method r \<noteq> ''GET'' then (api_error 405 ''METHOD_NOT_ALLOWED'' ''only GET'', w)
      else (writeJSON 200 (JArr []), w))"

section \<open>The server\<close>

record keys_env =
  kn_tz :: "int \<Rightarrow> int"
  kn_ulow :: "string \<Rightarrow> string"
  kn_ent :: key_entropy
  kn_iv :: "(string, byte list) result"

definition keys_routes ::
  "'w services \<Rightarrow> KeyService \<Rightarrow> ByokService \<Rightarrow> keys_env
   \<Rightarrow> (string \<times> (request \<Rightarrow> 'w \<Rightarrow> served \<times> 'w)) list" where
  "keys_routes sv ks bs e =
     [(''/health'', plain healthHandler), (''/ready'', plain readyHandler),
      (''/v1/keys'', plain (handleKeys sv (kn_tz e) ks (kn_ent e))),
      (''/v1/keys/'', plain (handleKeyByID sv ks)),
      (''/v1/byok/config'', plain (handleBYOK sv (kn_ulow e) bs (kn_iv e))),
      (''/v1/security-audit-logs'', plain handleSecurityAuditLogs)]"

definition keys_api ::
  "'w services \<Rightarrow> KeyService \<Rightarrow> ByokService \<Rightarrow> keys_env \<Rightarrow> request \<Rightarrow> 'w \<Rightarrow> served \<times> 'w" where
  "keys_api sv ks bs e r w = serve_mux (keys_routes sv ks bs e) r w"

section \<open>Lemmas\<close>

lemma findSub_loop_iff: "findSub_loop rest sub \<longleftrightarrow> sublist sub rest"
proof (induction rest)
  case Nil
  then show ?case by (subst findSub_loop.simps) auto
next
  case (Cons c rest)
  have p: "take (length sub) (c # rest) = sub \<longleftrightarrow> prefix sub (c # rest)"
    by (metis append_eq_conv_conj prefix_def append_take_drop_id)
  show ?case
    by (subst findSub_loop.simps) (auto simp: Cons p sublist_Cons_right dest: sublist_length_le prefix_length_le)
qed

text \<open>The shortcuts of \<open>contains\<close> change nothing: it is \<open>strings.Contains\<close>.\<close>

lemma contains_sublist: "contains s sub \<longleftrightarrow> sublist sub s"
proof
  have "take (length sub) s = sub \<Longrightarrow> sublist sub s" by (metis sublist_take)
  moreover have "drop (length s - length sub) s = sub \<Longrightarrow> sublist sub s" by (metis sublist_drop)
  moreover assume "contains s sub"
  ultimately show "sublist sub s" by (auto simp: contains_def findSub_def findSub_loop_iff)
next
  assume s: "sublist sub s"
  then obtain p q where "s = p @ sub @ q" by (auto simp: sublist_def)
  then have "length sub \<le> length s \<and> (s = sub \<or> length sub < length s)" by (cases p; cases q) auto
  then show "contains s sub"
    using s by (auto simp: contains_def findSub_def findSub_loop_iff)
qed

lemma findIndex_colon:
  "findIndex_loop i s '':'' = (if CHR '':'' \<in> set s then i + int (length (takeWhile (\<lambda>c. c \<noteq> CHR '':'') s)) else - 1)"
proof (induction s arbitrary: i)
  case Nil
  then show ?case by (subst findIndex_loop.simps) simp
next
  case (Cons c s)
  then show ?case by (subst findIndex_loop.simps) auto
qed

text \<open>\<open>extractCode\<close> is the text before the first colon, if there is any.\<close>

lemma extractCode_eq:
  "extractCode msg = (let c = takeWhile (\<lambda>c. c \<noteq> CHR '':'') msg in
     if CHR '':'' \<in> set msg \<and> c \<noteq> [] then c else ''BAD_REQUEST'')"
proof -
  have "take (length (takeWhile P msg)) msg = takeWhile P msg" for P
    by (metis takeWhile_eq_take)
  then show ?thesis by (simp add: extractCode_def findIndex_def findIndex_colon Let_def)
qed

definition create_codes :: "string list" where
  "create_codes = [''INVALID_JSON'', ''INVALID_SOURCE_MODE'', ''INVALID_KEY_NAME'', ''INVALID_BUDGET_LIMIT'',
     ''INVALID_RATE_LIMIT'']"

definition create_code :: "string \<Rightarrow> string" where
  "create_code err = (if contains err ''INVALID_'' then extractCode err else ''BAD_REQUEST'')"

lemma request_error_code:
  assumes "request_error req = Some err"
  shows "create_code err \<in> set create_codes"
proof -
  have "err \<in> {''INVALID_SOURCE_MODE: must be direct_ingest, virtual_key, or byok'',
      ''INVALID_KEY_NAME: must be 3-100 characters'',
      ''INVALID_BUDGET_LIMIT: must be a non-negative decimal string'', ''INVALID_RATE_LIMIT: must be non-negative''}"
    using assms by (auto simp: request_error_def Let_def split: if_splits)
  moreover have "create_code ''INVALID_SOURCE_MODE: must be direct_ingest, virtual_key, or byok'' = ''INVALID_SOURCE_MODE''"
    "create_code ''INVALID_KEY_NAME: must be 3-100 characters'' = ''INVALID_KEY_NAME''"
    "create_code ''INVALID_BUDGET_LIMIT: must be a non-negative decimal string'' = ''INVALID_BUDGET_LIMIT''"
    "create_code ''INVALID_RATE_LIMIT: must be non-negative'' = ''INVALID_RATE_LIMIT''"
    by (simp_all add: create_code_def contains_def extractCode_eq Let_def)
  ultimately show ?thesis by (auto simp: create_codes_def)
qed

section \<open>Properties\<close>

text \<open>
  The outcomes of \<^verbatim>\<open>POST /v1/keys\<close>.  While the random source works, the answer is either 201 with the
  response of \<open>CreateKey\<close> for the decoded request, or 400 with one of five codes, the one that heads the
  error of \<open>CreateKey\<close> or \<^verbatim>\<open>INVALID_JSON\<close> for a body that does not decode, and then nothing has changed.
\<close>

theorem handleKeys_create:
  assumes "r_Method r = ''POST''" and "ke_rand32 ent = Inr b"
  shows "\<exists>resp w'. handleKeys sv tz ks ent r w = (Reply resp, w') \<and>
     ((\<exists>req p. Decode (decode_object key_request_fields) zero_key_request (r_Body r) = Inr req
         \<and> CreateKey sv ks ent req w = (Inr p, w') \<and> resp = json_response 201 (key_response_json p))
      \<or> (\<exists>code msg. resp = writeError 400 code msg \<and> code \<in> set create_codes \<and> w' = w))"
proof (cases "Decode (decode_object key_request_fields) zero_key_request (r_Body r)")
  case (Inl e)
  then show ?thesis
    using assms(1) by (auto simp: handleKeys_def api_error_def writeJSON_def writeError_def create_codes_def)
next
  case (Inr req)
  show ?thesis
  proof (cases "request_error req")
    case None
    then obtain p w' where "CreateKey sv ks ent req w = (Inr p, w')"
      using assms(2) by (auto simp: CreateKey_def generateKey_eq Let_def)
    then show ?thesis using assms(1) Inr by (simp add: handleKeys_def writeJSON_def)
  next
    case (Some err)
    then have "CreateKey sv ks ent req w = (Inl err, w)" by (simp add: CreateKey_def)
    then have "handleKeys sv tz ks ent r w = (Reply (writeError 400 (create_code err) err), w)"
      using assms(1) Inr
      by (simp add: handleKeys_def api_error_def writeJSON_def writeError_def create_code_def)
    then show ?thesis using request_error_code [OF Some] by auto
  qed
qed

definition demo_key_post :: request where
  "demo_key_post = demo_peer\<lparr>r_Body := ''[]''\<rparr>"

theorem handleKeys_create_witness:
  "\<exists>resp w'. handleKeys (ref_services False) (\<lambda>_. 0) (NewService True) demo_key_entropy demo_key_post empty_world
     = (Reply resp, w') \<and> status resp \<in> {201, 400}"
proof -
  have "r_Method demo_key_post = ''POST''" "ke_rand32 demo_key_entropy = Inr (replicate 32 7)"
    by (simp_all add: demo_key_post_def demo_peer_def demo_key_entropy_def)
  from handleKeys_create [OF this, of "ref_services False" "\<lambda>_. 0" "NewService True" empty_world]
  show ?thesis by auto
qed

text \<open>A server's run over a sequence of requests, each with what it draws from its environment.\<close>

fun keys_run ::
  "'w services \<Rightarrow> KeyService \<Rightarrow> ByokService \<Rightarrow> (keys_env \<times> request) list \<Rightarrow> 'w \<Rightarrow> served list \<times> 'w" where
  "keys_run sv ks bs [] w = ([], w)"
| "keys_run sv ks bs ((e, r) # rs) w =
     (let (x, w1) = keys_api sv ks bs e r w; (xs, w2) = keys_run sv ks bs rs w1 in (x # xs, w2))"

context backend_up
begin

lemma handleKeys_safe:
  assumes "hashes_ok (db w)" and "handleKeys sv tz ks ent r w = (x, w')"
  shows "x \<noteq> Panicked \<and> hashes_ok (db w')"
proof -
  have c: "hashes_ok (db w2)" if "CreateKey sv ks ent req w = (y, w2)" for req y w2
  proof (cases y)
    case (Inl err)
    then show ?thesis using that assms(1) by (auto simp: CreateKey_def Let_def split: option.splits sum.splits)
  next
    case (Inr p)
    then show ?thesis using CreateKey_hashes that assms(1) by blast
  qed
  have l: "hashes_ok (db w2)" if "ListKeys sv tz ks org i j w = (y, w2)" for org i j y w2
    using that assms(1) api_keys_ok
    by (auto simp: ListKeys_def split: if_splits prod.splits sum.splits)
  show ?thesis
    using assms c l
    by (auto simp: handleKeys_def api_error_def writeJSON_def Let_def split: if_splits sum.splits prod.splits)
qed

lemma handleKeyByID_safe:
  assumes "hashes_ok (db w)" and "handleKeyByID sv ks r w = (x, w')" and "prefix ''/v1/keys/'' (r_Path r)"
  shows "x \<noteq> Panicked \<and> hashes_ok (db w')"
proof -
  have "length ''/v1/keys/'' \<le> length (r_Path r)" using assms(3) by (rule prefix_length_le)
  moreover have "y \<noteq> None \<and> hashes_ok (db w2)" if "RevokeKey sv ks k w = (y, w2)" for k y w2
    using that assms(1) RevokeKey_result [of ks w k] by (cases "ks_PG ks") (auto simp: RevokeKey_def)
  ultimately show ?thesis
    using assms(1,2)
    by (auto simp: handleKeyByID_def api_error_def writeJSON_def Let_def
        split: if_splits option.splits sum.splits prod.splits)
qed

lemma handleBYOK_safe:
  assumes "hashes_ok (db w)" and "handleBYOK sv ulow bs rnd r w = (x, w')"
  shows "x \<noteq> Panicked \<and> hashes_ok (db w')"
proof -
  have "hashes_ok (db w2)" if p: "pg_upsert_byok sv f g w = (y, w2)" for f g y w2
  proof -
    obtain u where "y = Inr u" using p upsert_byok_up [of f g w] by auto
    then show ?thesis using upsert_byok_ok [of f g w u w2] p assms(1) by (auto simp: hashes_ok_def)
  qed
  then have "hashes_ok (db w2)" if "RegisterProviderKey sv ulow rnd bs a b c w = (y, w2)" for a b c y w2
    using that assms(1)
    by (auto simp: RegisterProviderKey_def Let_def split: if_splits sum.splits prod.splits)
  then show ?thesis
    using assms by (auto simp: handleBYOK_def api_error_def writeJSON_def split: if_splits sum.splits prod.splits)
qed

lemma keys_api_safe:
  assumes "hashes_ok (db w)" and "keys_api sv ks bs e r w = (x, w')"
  shows "x \<noteq> Served Panicked \<and> hashes_ok (db w')"
proof (cases "mux_route (keys_routes sv ks bs e) r")
  case (Handler h)
  then have x: "(x, w') = h r w" using assms(2) by (simp add: keys_api_def serve_mux_def)
  consider "h = plain healthHandler \<or> h = plain readyHandler \<or> h = plain handleSecurityAuditLogs"
    | "h = plain (handleKeys sv (kn_tz e) ks (kn_ent e))"
    | "h = plain (handleKeyByID sv ks)" "prefix ''/v1/keys/'' (r_Path r)"
    | "h = plain (handleBYOK sv (kn_ulow e) bs (kn_iv e))"
    using mux_route_Handler [OF Handler] by (auto simp: keys_routes_def subtree_def)
  then show ?thesis
    using x assms(1) handleKeys_safe [OF assms(1)] handleKeyByID_safe [OF assms(1)] handleBYOK_safe [OF assms(1)]
    by cases (auto simp: plain_def healthHandler_def readyHandler_def handleSecurityAuditLogs_def
        api_error_def writeJSON_def split: if_splits prod.splits)
qed (use assms in \<open>auto simp: keys_api_def serve_mux_def\<close>)

lemma keys_run_safe:
  "hashes_ok (db w) \<Longrightarrow> keys_run sv ks bs rs w = (xs, w') \<Longrightarrow> Served Panicked \<notin> set xs \<and> hashes_ok (db w')"
  by (induction rs arbitrary: w xs) (fastforce dest: keys_api_safe split: prod.splits)+

end

text \<open>
  C29.  The keys API does not panic.  With no failing command, starting from a database whose hashes are
  well-formed, no sequence of requests, whatever their methods, paths and bodies, makes a handler
  panic, and the hashes stay well-formed; in particular the slice of the path in \<open>handleKeyByID\<close> and
  the slice of the hash in \<open>RevokeKey\<close> are always in bounds.
\<close>

theorem keys_api_never_panics:
  assumes "backend_up sv kv bf db sent" and "hashes_ok (db w)" and "keys_run sv ks bs rs w = (xs, w')"
  shows "Served Panicked \<notin> set xs \<and> length xs = length rs \<and> hashes_ok (db w')"
proof -
  have "keys_run sv ks bs rs w = (xs, w') \<Longrightarrow> length xs = length rs" for w
    by (induction rs arbitrary: w xs) (auto split: prod.splits)
  then show ?thesis using backend_up.keys_run_safe [OF assms] assms(3) by blast
qed

definition demo_keys_env :: keys_env where
  "demo_keys_env = \<lparr>kn_tz = (\<lambda>_. 0), kn_ulow = id, kn_ent = demo_key_entropy, kn_iv = Inr (replicate 12 0)\<rparr>"

theorem keys_api_never_panics_witness:
  "Served Panicked \<notin> set (fst (keys_run (ref_services False) (NewService True) (NewByokService (\<lambda>_. []) True)
     [(demo_keys_env, demo_key_post), (demo_keys_env, demo_peer\<lparr>r_Method := ''DELETE'', r_Path := ''/v1/keys/x''\<rparr>)]
     empty_world))"
proof -
  have "hashes_ok (rw_db empty_world)" by (simp add: hashes_ok_def empty_world_def empty_db_def)
  from keys_api_never_panics [OF ref_up.backend_up_axioms this surjective_pairing] show ?thesis by blast
qed

end
