(* ===== verification/Analytics.thy ===== *)
theory Analytics
  imports EventCodec GoTime Http
begin

text \<open>
  \<^verbatim>\<open>engine/internal/analytics/service.go\<close>: the analytics service.  Its endpoints answer with zero-filled
  structures (the ClickHouse client is not wired in the repository); the token check, the scope check,
  the date windows of the query and the semaphore are modelled as they are.
\<close>

section \<open>Service tokens\<close>

text \<open>\<open>crypto/hmac\<close> over SHA-256, with its block of 64 bytes.\<close>

definition hmac_sha256 :: "byte list \<Rightarrow> byte list \<Rightarrow> byte list" where
  "hmac_sha256 key msg =
     (let k0 = (if 64 < length key then Sum256 key else key);
          k = k0 @ replicate (64 - length k0) 0
      in Sum256 (map ((XOR) 0x5c) k @ Sum256 (map ((XOR) 0x36) k @ msg)))"

type_synonym claims = "(string \<times> json) list"

definition service_secret :: "environ \<Rightarrow> string" where
  "service_secret env =
     (let secret = env ''QB_SERVICE_TOKEN_SECRET''
      in if secret = [] then ''dev-service-token-secret-change-me'' else secret)"

definition VerifyServiceToken :: "environ \<Rightarrow> string \<Rightarrow> (string, claims) result" where
  "VerifyServiceToken env token =
     (let parts = split_on (CHR ''.'') token in
      if length parts \<noteq> 3 then Inl ''invalid token format''
      else
        (let mac = hmac_sha256 (string_bytes (service_secret env)) (string_bytes (parts ! 0 @ ''.'' @ parts ! 1));
             expectedSig = hex_encode mac
         in if parts ! 2 \<noteq> expectedSig then Inl ''invalid token signature''
            else Inr [(''org_id'', JStr []), (''customer_id'', JStr []), (''role'', JStr [])]))"

definition ValidateScope :: "claims \<Rightarrow> string \<Rightarrow> string \<Rightarrow> string \<Rightarrow> bool" where
  "ValidateScope cl orgID customerID role =
     (if map_of cl ''org_id'' \<noteq> Some (JStr orgID) then False
      else if customerID \<noteq> [] \<and> map_of cl ''customer_id'' \<noteq> Some (JStr customerID) then False
      else True)"

section \<open>Response types\<close>

record Totals =
  tt_RequestsCount :: int
  tt_InputTokens :: int64
  tt_OutputTokens :: int64
  tt_ThinkingTokens :: int64
  tt_TotalTokens :: float64
  tt_Cost :: string

record BreakdownItem = Totals +
  bi_GroupValue :: string

record UsageBreakdown =
  ub_Totals :: Totals
  ub_Series :: "BreakdownItem list"

record Pagination =
  pg_Limit :: int
  pg_Offset :: int
  pg_Total :: int

record UsageBreakdownPage = UsageBreakdown +
  up_Pagination :: Pagination

record TrendPoint = Totals +
  tp_Timestamp :: string

record TrendSeries =
  ts_Granularity :: string
  ts_From :: string
  ts_To :: string
  ts_OrgID :: string
  ts_Points :: "TrendPoint list"

record OrgSummary_struct =
  os_OrgID :: string
  os_Totals :: Totals
  os_ModelsUsed :: "string list"
  os_FirstEvent :: string
  os_LastEvent :: string
  os_DaysActive :: int

text \<open>\<open>BreakdownItem\<close> and \<open>TrendPoint\<close> repeat the fields of \<open>Totals\<close> after their own.\<close>

definition zero_totals :: Totals where
  "zero_totals = \<lparr>tt_RequestsCount = 0, tt_InputTokens = 0, tt_OutputTokens = 0, tt_ThinkingTokens = 0,
     tt_TotalTokens = 0, tt_Cost = ''0.000000''\<rparr>"

definition totals_members :: "'a Totals_scheme \<Rightarrow> (string \<times> json) list" where
  "totals_members t =
     int_member ''requests_count'' (tt_RequestsCount t)
     @ int_member ''input_tokens'' (sint (tt_InputTokens t))
     @ int_member ''output_tokens'' (sint (tt_OutputTokens t))
     @ int_member ''thinking_tokens'' (sint (tt_ThinkingTokens t))
     @ num_member ''total_tokens'' (case format_float (tt_TotalTokens t) of Some s \<Rightarrow> s | None \<Rightarrow> [])
     @ str_member ''cost'' (tt_Cost t)"

definition breakdown_item_json :: "BreakdownItem \<Rightarrow> json" where
  "breakdown_item_json b = JObj (str_member ''group_value'' (bi_GroupValue b) @ totals_members b)"

definition usage_breakdown_members :: "'a UsageBreakdown_scheme \<Rightarrow> (string \<times> json) list" where
  "usage_breakdown_members u =
     [(''totals'', JObj (totals_members (ub_Totals u))), (''series'', JArr (map breakdown_item_json (ub_Series u)))]"

definition pagination_json :: "Pagination \<Rightarrow> json" where
  "pagination_json p = JObj (int_member ''limit'' (pg_Limit p) @ int_member ''offset'' (pg_Offset p)
     @ int_member ''total'' (pg_Total p))"

definition usage_page_json :: "UsageBreakdownPage \<Rightarrow> json" where
  "usage_page_json u = JObj (usage_breakdown_members u @ [(''pagination'', pagination_json (up_Pagination u))])"

definition trend_point_json :: "TrendPoint \<Rightarrow> json" where
  "trend_point_json p = JObj (str_member ''timestamp'' (tp_Timestamp p) @ totals_members p)"

definition trend_series_json :: "TrendSeries \<Rightarrow> json" where
  "trend_series_json t = JObj (str_member ''granularity'' (ts_Granularity t) @ str_member ''from'' (ts_From t)
     @ str_member ''to'' (ts_To t) @ str_member ''org_id'' (ts_OrgID t)
     @ [(''points'', JArr (map trend_point_json (ts_Points t)))])"

definition org_summary_json :: "OrgSummary_struct \<Rightarrow> json" where
  "org_summary_json s = JObj (str_member ''org_id'' (os_OrgID s)
     @ [(''totals'', JObj (totals_members (os_Totals s))), (''models_used'', JArr (map JStr (os_ModelsUsed s)))]
     @ str_member ''first_event'' (os_FirstEvent s) @ str_member ''last_event'' (os_LastEvent s)
     @ int_member ''days_active'' (os_DaysActive s))"

section \<open>Endpoints\<close>

definition pathParam :: "request \<Rightarrow> nat \<Rightarrow> string" where
  "pathParam r index =
     (let parts = split_on (CHR ''/'') (trim_char (CHR ''/'') (r_Path r))
      in if index < length parts then parts ! index else [])"

definition analytics_writeJSON :: "nat \<Rightarrow> json \<Rightarrow> reply" where
  "analytics_writeJSON st v = Reply (json_response st v)"

definition getQueryInt :: "request \<Rightarrow> string \<Rightarrow> int \<Rightarrow> int" where
  "getQueryInt r key defaultVal =
     (let s = r_Query r key in
      if s \<noteq> [] then (case Atoi s of Some v \<Rightarrow> v | None \<Rightarrow> defaultVal) else defaultVal)"

definition zero_breakdown :: UsageBreakdown where
  "zero_breakdown = \<lparr>ub_Totals = zero_totals, ub_Series = []\<rparr>"

definition zero_page :: UsageBreakdownPage where
  "zero_page = \<lparr>ub_Totals = zero_totals, ub_Series = [],
     up_Pagination = \<lparr>pg_Limit = 100, pg_Offset = 0, pg_Total = 0\<rparr>\<rparr>"

definition OrgSummary :: "request \<Rightarrow> reply" where
  "OrgSummary r = analytics_writeJSON 200 (org_summary_json
     \<lparr>os_OrgID = pathParam r 3, os_Totals = zero_totals, os_ModelsUsed = [], os_FirstEvent = [],
      os_LastEvent = [], os_DaysActive = 0\<rparr>)"

definition OrgCustomersUsage :: "request \<Rightarrow> reply" where
  "OrgCustomersUsage r = analytics_writeJSON 200 (usage_page_json zero_page)"

definition OrgModelsUsage :: "request \<Rightarrow> reply" where
  "OrgModelsUsage r = analytics_writeJSON 200 (JObj (usage_breakdown_members zero_breakdown))"

definition OrgServicesUsage :: "request \<Rightarrow> reply" where
  "OrgServicesUsage r = analytics_writeJSON 200 (JObj (usage_breakdown_members zero_breakdown))"

text \<open>Maps are written with their keys in increasing order.\<close>

definition OrgCost :: "request \<Rightarrow> reply" where
  "OrgCost r = analytics_writeJSON 200 (JObj [(''currency'', JStr ''USD''), (''org_id'', JStr (pathParam r 3)),
     (''total_cost'', JStr ''0.000000'')])"

definition CustomerSummary :: "request \<Rightarrow> reply" where
  "CustomerSummary r = analytics_writeJSON 200 (JObj [(''customer_id'', JStr (pathParam r 3)),
     (''totals'', JObj (totals_members zero_totals))])"

definition CustomerEndUsersUsage :: "request \<Rightarrow> reply" where
  "CustomerEndUsersUsage r = analytics_writeJSON 200 (usage_page_json zero_page)"

definition CustomerModelsUsage :: "request \<Rightarrow> reply" where
  "CustomerModelsUsage r = analytics_writeJSON 200 (JObj (usage_breakdown_members zero_breakdown))"

definition CustomerCost :: "request \<Rightarrow> reply" where
  "CustomerCost r = analytics_writeJSON 200 (JObj [(''currency'', JStr ''USD''),
     (''customer_id'', JStr (pathParam r 3)), (''total_cost'', JStr ''0.000000'')])"

definition EndUserSummary :: "request \<Rightarrow> reply" where
  "EndUserSummary r = analytics_writeJSON 200 (JObj [(''end_user_id'', JStr (pathParam r 3)),
     (''totals'', JObj (totals_members zero_totals))])"

definition EndUserDaily :: "request \<Rightarrow> reply" where
  "EndUserDaily r = analytics_writeJSON 200 (trend_series_json
     \<lparr>ts_Granularity = ''daily'', ts_From = r_Query r ''from'', ts_To = r_Query r ''to'', ts_OrgID = [], ts_Points = []\<rparr>)"

definition TrendHandler :: "string \<Rightarrow> request \<Rightarrow> reply" where
  "TrendHandler granularity r = analytics_writeJSON 200 (trend_series_json
     \<lparr>ts_Granularity = granularity, ts_From = r_Query r ''from'', ts_To = r_Query r ''to'',
      ts_OrgID = r_Query r ''org_id'', ts_Points = []\<rparr>)"

definition ModelsUsage :: "request \<Rightarrow> reply" where
  "ModelsUsage r = analytics_writeJSON 200 (JObj (usage_breakdown_members zero_breakdown))"

definition ServicesUsage :: "request \<Rightarrow> reply" where
  "ServicesUsage r = analytics_writeJSON 200 (JObj (usage_breakdown_members zero_breakdown))"

definition CostReport :: "request \<Rightarrow> reply" where
  "CostReport r = analytics_writeJSON 200 (JObj [(''currency'', JStr ''USD''), (''period'', JObj []),
     (''total_cost'', JStr ''0.000000'')])"

section \<open>The query\<close>

text \<open>\<open>now\<close> is the clock in milliseconds.\<close>

definition fromDateMs :: "string \<Rightarrow> string" where
  "fromDateMs d =
     (if d = [] then ''0''
      else case parse_date d of None \<Rightarrow> ''0'' | Some t \<Rightarrow> itoa (UnixMilli t))"

definition toDateMs :: "int \<Rightarrow> string \<Rightarrow> string" where
  "toDateMs now d =
     (if d = [] then itoa now
      else case parse_date d of None \<Rightarrow> itoa now | Some t \<Rightarrow> itoa (UnixMilli t + day_millis - 1))"

definition buildOrgSummaryQuery :: "int \<Rightarrow> string \<Rightarrow> string \<Rightarrow> string \<Rightarrow> string" where
  "buildOrgSummaryQuery now orgID from to =
     (let nl = [CHR 0x0A]; tab2 = [CHR 0x09, CHR 0x09]; quot = [CHR 0x27] in
      nl @ tab2 @ ''SELECT count() AS requests, sum(input_tokens), sum(output_tokens),''
      @ nl @ tab2 @ ''       sum(thinking_tokens), sum(total_tokens), sum(toDecimal64OrZero(cost))''
      @ nl @ tab2 @ ''FROM events.usage_events_dedup_v''
      @ nl @ tab2 @ ''WHERE org_id = '' @ quot @ orgID @ quot @ '' AND timestamp_ms >= '' @ fromDateMs from
      @ '' AND timestamp_ms <= '' @ toDateMs now to)"

section \<open>The semaphore\<close>

text \<open>
  \<open>querySem\<close> is a channel of capacity 10.  A call of \<open>withSemaphore\<close> sends, which blocks while the
  channel is full, runs its function and receives.
\<close>

definition querySem_cap :: nat where "querySem_cap = 10"

record sem_state =
  sm_chan :: nat
  sm_waiting :: nat
  sm_running :: nat

inductive sem_step :: "sem_state \<Rightarrow> sem_state \<Rightarrow> bool" where
  sem_call: "sem_step s (s\<lparr>sm_waiting := Suc (sm_waiting s)\<rparr>)"
| sem_acquire: "sm_waiting s = Suc n \<Longrightarrow> sm_chan s < querySem_cap \<Longrightarrow>
     sem_step s (s\<lparr>sm_waiting := n, sm_chan := Suc (sm_chan s), sm_running := Suc (sm_running s)\<rparr>)"
| sem_release: "sm_running s = Suc n \<Longrightarrow> sm_chan s = Suc m \<Longrightarrow>
     sem_step s (s\<lparr>sm_running := n, sm_chan := m\<rparr>)"

inductive_cases sem_stepE: "sem_step s s'"

section \<open>Lemmas\<close>

lemma hmac_token_parts: "CHR ''.'' \<notin> set (hex_encode bs)"
  using hex_encode_chars by (fastforce simp: is_hex_char_def)

lemma is_digit_itoa: "i \<ge> 0 \<Longrightarrow> list_all is_digit_char (itoa i)"
proof -
  assume "i \<ge> 0"
  have "list_all is_digit_char (show_nat n)" for n
  proof (induction n rule: show_nat.induct)
    case (1 n)
    have d: "is_digit_char (digit_char k)" if "k < 10" for k
    proof -
      have "\<forall>k \<in> set [0..<10]. is_digit_char (digit_char k)" by code_simp
      then show ?thesis using that by simp
    qed
    show ?case using 1 d by (subst show_nat.simps) auto
  qed
  then show ?thesis using \<open>i \<ge> 0\<close> by (simp add: itoa_def)
qed

lemma join_nonempty: "y \<noteq> [] \<Longrightarrow> join_with c (y # ys) \<noteq> []"
  by (cases ys) auto

text \<open>Where the third segment of a path that has none in it beyond the wildcard stands.\<close>

lemma pathParam_segments:
  assumes "list_all (\<lambda>s. s \<noteq> [] \<and> CHR ''/'' \<notin> set s) segs" and "segs \<noteq> []"
    and "r_Path r = CHR ''/'' # join_with (CHR ''/'') segs"
  shows "pathParam r i = (if i < length segs then segs ! i else [])"
proof -
  let ?j = "join_with (CHR ''/'') segs"
  have hd: "?j \<noteq> [] \<and> hd ?j \<noteq> CHR ''/''"
    using assms(1,2) by (induction "CHR ''/''" segs rule: join_with.induct) (auto, (metis hd_in_set)+)
  have la: "last ?j \<noteq> CHR ''/''"
    using assms(1,2)
    by (induction "CHR ''/''" segs rule: join_with.induct) (auto simp: join_nonempty, metis last_in_set)
  have "dropWhile ((=) (CHR ''/'')) (CHR ''/'' # ?j) = ?j" using hd by (cases ?j) auto
  moreover have "dropWhile ((=) (CHR ''/'')) (rev ?j) = rev ?j"
    using hd la by (cases ?j rule: rev_cases) auto
  ultimately have "trim_char (CHR ''/'') (r_Path r) = ?j" by (simp add: trim_char_def assms(3))
  moreover have "split_on (CHR ''/'') ?j = segs"
    using assms(1,2) by (intro split_join) (auto simp: list_all_iff)
  ultimately show ?thesis by (simp add: pathParam_def Let_def)
qed

lemma UnixMilli_next: "valid_date t \<Longrightarrow> UnixMilli (next_date t) = UnixMilli t + day_millis"
  by (simp add: UnixMilli_def day_number_next algebra_simps)

section \<open>Properties\<close>

text \<open>
  C37.  Tokens and scopes.  A token is accepted exactly when it is two parts without a dot and the
  lower-case hexadecimal HMAC-SHA-256 of them under the secret; but its payload is not read, so that the
  scope check then passes for the empty organisation and customer only.
\<close>

theorem VerifyServiceToken_scope:
  "((\<exists>cl. VerifyServiceToken env token = Inr cl) \<longleftrightarrow>
     (\<exists>hdr pl. CHR ''.'' \<notin> set hdr \<and> CHR ''.'' \<notin> set pl
        \<and> token = hdr @ ''.'' @ pl @ ''.'' @
            hex_encode (hmac_sha256 (string_bytes (service_secret env)) (string_bytes (hdr @ ''.'' @ pl)))))
   \<and> (\<forall>cl org cust role. VerifyServiceToken env token = Inr cl \<longrightarrow>
        (ValidateScope cl org cust role \<longleftrightarrow> org = [] \<and> cust = []))"
proof (intro conjI)
  let ?sig = "\<lambda>hdr pl. hex_encode (hmac_sha256 (string_bytes (service_secret env)) (string_bytes (hdr @ ''.'' @ pl)))"
  show "(\<exists>cl. VerifyServiceToken env token = Inr cl) \<longleftrightarrow>
     (\<exists>hdr pl. CHR ''.'' \<notin> set hdr \<and> CHR ''.'' \<notin> set pl \<and> token = hdr @ ''.'' @ pl @ ''.'' @ ?sig hdr pl)"
  proof
    assume "\<exists>cl. VerifyServiceToken env token = Inr cl"
    then have v: "length (split_on (CHR ''.'') token) = 3"
      "split_on (CHR ''.'') token ! 2 = ?sig (split_on (CHR ''.'') token ! 0) (split_on (CHR ''.'') token ! 1)"
      by (auto simp: VerifyServiceToken_def Let_def split: if_splits)
    then obtain a b c where p: "split_on (CHR ''.'') token = [a, b, c]"
      by (auto simp: eval_nat_numeral length_Suc_conv)
    then have "token = a @ ''.'' @ b @ ''.'' @ c" using join_split [of "CHR ''.''" token] by simp
    moreover have "CHR ''.'' \<notin> set a" "CHR ''.'' \<notin> set b"
      using split_on_parts [of _ "CHR ''.''" token] by (auto simp: p)
    moreover have "c = ?sig a b" using v(2) unfolding p by simp
    ultimately show "\<exists>hdr pl. CHR ''.'' \<notin> set hdr \<and> CHR ''.'' \<notin> set pl
        \<and> token = hdr @ ''.'' @ pl @ ''.'' @ ?sig hdr pl"
      by blast
  next
    assume "\<exists>hdr pl. CHR ''.'' \<notin> set hdr \<and> CHR ''.'' \<notin> set pl \<and> token = hdr @ ''.'' @ pl @ ''.'' @ ?sig hdr pl"
    then obtain hdr pl where t: "CHR ''.'' \<notin> set hdr" "CHR ''.'' \<notin> set pl"
      "token = hdr @ ''.'' @ pl @ ''.'' @ ?sig hdr pl" by blast
    then have "split_on (CHR ''.'') token = [hdr, pl, ?sig hdr pl]"
      using hmac_token_parts by (simp add: split_on_append_sep split_on_no_sep)
    then show "\<exists>cl. VerifyServiceToken env token = Inr cl" by (simp add: VerifyServiceToken_def)
  qed
  show "\<forall>cl org cust role. VerifyServiceToken env token = Inr cl \<longrightarrow>
        (ValidateScope cl org cust role \<longleftrightarrow> org = [] \<and> cust = [])"
    by (auto simp: VerifyServiceToken_def ValidateScope_def Let_def split: if_splits)
qed

theorem VerifyServiceToken_scope_witness:
  "\<exists>cl. VerifyServiceToken (\<lambda>_. []) (''h.p.'' @ hex_encode (hmac_sha256
       (string_bytes ''dev-service-token-secret-change-me'') (string_bytes ''h.p''))) = Inr cl
     \<and> \<not> ValidateScope cl ''acme'' [] []"
proof -
  let ?t = "''h.p.'' @ hex_encode (hmac_sha256 (string_bytes ''dev-service-token-secret-change-me'') (string_bytes ''h.p''))"
  have "\<exists>hdr pl. CHR ''.'' \<notin> set hdr \<and> CHR ''.'' \<notin> set pl \<and> ?t = hdr @ ''.'' @ pl @ ''.'' @
      hex_encode (hmac_sha256 (string_bytes (service_secret (\<lambda>_. []))) (string_bytes (hdr @ ''.'' @ pl)))"
    by (intro exI [of _ "''h''"] exI [of _ "''p''"]) (simp add: service_secret_def)
  with VerifyServiceToken_scope [of "\<lambda>_. []" ?t] obtain cl where "VerifyServiceToken (\<lambda>_. []) ?t = Inr cl" by blast
  then show ?thesis using VerifyServiceToken_scope [of "\<lambda>_. []" ?t] by blast
qed

text \<open>
  Date windows.  For two dates the query selects the whole days: the window of one day has
  exactly its 86400000 milliseconds, and the window of the next day begins with the millisecond
  after it, across the ends of months and (leap) years, so that consecutive days neither overlap nor
  leave a gap.
\<close>

theorem date_windows_tile:
  assumes "parse_date d = Some t" and "parse_date d' = Some (next_date t)"
  shows "fromDateMs d = itoa (UnixMilli t) \<and> toDateMs now d = itoa (UnixMilli t + day_millis - 1)
    \<and> fromDateMs d' = itoa (UnixMilli t + day_millis - 1 + 1)"
proof -
  have "valid_date t" "d \<noteq> []" "d' \<noteq> []"
    using assms by (auto simp: parse_date_def Let_def split: if_splits)
  then show ?thesis using assms UnixMilli_next [of t] by (simp add: fromDateMs_def toDateMs_def)
qed

theorem date_windows_tile_witness:
  "toDateMs 0 ''2024-02-29'' = itoa 1709251199999 \<and> fromDateMs ''2024-03-01'' = itoa 1709251200000"
proof -
  have p: "parse_date ''2024-02-29'' = Some (2024, 2, 29)" "parse_date ''2024-03-01'' = Some (next_date (2024, 2, 29))"
    and u: "UnixMilli (2024, 2, 29) = 1709164800000"
    by code_simp+
  from date_windows_tile [OF p, of 0] show ?thesis by (simp add: u day_millis_def)
qed

text \<open>
  At most ten queries at once.  In every state that calls of \<open>withSemaphore\<close> can reach, the number of
  functions running equals the number of tokens in the channel and is at most ten, and a waiting call
  can proceed whenever fewer are running.
\<close>

theorem semaphore_bound:
  assumes "sem_step\<^sup>*\<^sup>* \<lparr>sm_chan = 0, sm_waiting = 0, sm_running = 0\<rparr> s"
  shows "sm_running s = sm_chan s \<and> sm_running s \<le> 10
    \<and> (0 < sm_waiting s \<longrightarrow> sm_running s < 10 \<longrightarrow> (\<exists>s'. sem_step s s' \<and> sm_running s' = Suc (sm_running s)))"
proof -
  have inv: "sm_running s = sm_chan s \<and> sm_running s \<le> 10"
    using assms
  proof (induction rule: rtranclp_induct)
    case (step y z)
    from step(2,3) show ?case by (cases rule: sem_step.cases) (auto simp: querySem_cap_def)
  qed simp
  moreover have "\<exists>s'. sem_step s s' \<and> sm_running s' = Suc (sm_running s)"
    if wait: "0 < sm_waiting s" and few: "sm_running s < 10"
  proof -
    obtain n where "sm_waiting s = Suc n" using wait gr0_implies_Suc by blast
    then have "sem_step s (s\<lparr>sm_waiting := n, sm_chan := Suc (sm_chan s), sm_running := Suc (sm_running s)\<rparr>)"
      using few inv by (intro sem_acquire) (simp_all add: querySem_cap_def)
    then show ?thesis by (intro exI conjI) (assumption, simp)
  qed
  ultimately show ?thesis by blast
qed

theorem semaphore_bound_witness:
  "\<exists>s'. sem_step \<lparr>sm_chan = 0, sm_waiting = 1, sm_running = 0\<rparr> s' \<and> sm_running s' = 1"
proof -
  have "sem_step\<^sup>*\<^sup>* \<lparr>sm_chan = 0, sm_waiting = 0, sm_running = 0\<rparr> \<lparr>sm_chan = 0, sm_waiting = 1, sm_running = 0\<rparr>"
    using sem_call [of "\<lparr>sm_chan = 0, sm_waiting = 0, sm_running = 0\<rparr>"] by auto
  from semaphore_bound [OF this] show ?thesis by simp
qed

end
