(* ===== verification/AnalyticsApi.thy ===== *)
theory AnalyticsApi
  imports Analytics Mux
begin

text \<open>
  \<^verbatim>\<open>engine/cmd/analytics-api/main.go\<close>: the routes of the analytics server, with its own wildcard
  matching below the subtree patterns of the mux.  No route checks a token.
\<close>

section \<open>Matching\<close>

text \<open>The loop over the bytes: \<open>cur\<close> is \<open>s[start:i]\<close>.\<close>

fun splitPath_loop :: "string \<Rightarrow> string \<Rightarrow> string list \<Rightarrow> string list" where
  "splitPath_loop [] cur result = result @ [cur]"
| "splitPath_loop (c # cs) cur result =
     (if c = CHR ''/'' then splitPath_loop cs [] (result @ [cur]) else splitPath_loop cs (cur @ [c]) result)"

definition splitPath :: "string \<Rightarrow> string list" where
  "splitPath path =
     (let s1 = (if 0 < length path \<and> hd path = CHR ''/'' then tl path else path);
          s = (if 0 < length s1 \<and> last s1 = CHR ''/'' then butlast s1 else s1)
      in if s = [] then [] else splitPath_loop s [] [])"

fun match_loop :: "string list \<Rightarrow> string list \<Rightarrow> bool" where
  "match_loop (p # ps) (x # xs) = (if p = ''*'' then match_loop ps xs else p = x \<and> match_loop ps xs)"
| "match_loop _ _ = True"

definition match :: "string \<Rightarrow> string \<Rightarrow> bool" where
  "match path pattern =
     (let parts = splitPath path; pParts = splitPath pattern
      in length parts = length pParts \<and> match_loop pParts parts)"

section \<open>The server\<close>

definition org_routes :: "request \<Rightarrow> reply" where
  "org_routes r =
     (let path = r_Path r in
      if match path ''/v1/orgs/*/summary'' then OrgSummary r
      else if match path ''/v1/orgs/*/customers/usage'' then OrgCustomersUsage r
      else if match path ''/v1/orgs/*/models/usage'' then OrgModelsUsage r
      else if match path ''/v1/orgs/*/services/usage'' then OrgServicesUsage r
      else if match path ''/v1/orgs/*/cost'' then OrgCost r
      else Reply NotFound_response)"

definition customer_routes :: "request \<Rightarrow> reply" where
  "customer_routes r =
     (let path = r_Path r in
      if match path ''/v1/customers/*/summary'' then CustomerSummary r
      else if match path ''/v1/customers/*/end-users/usage'' then CustomerEndUsersUsage r
      else if match path ''/v1/customers/*/models/usage'' then CustomerModelsUsage r
      else if match path ''/v1/customers/*/cost'' then CustomerCost r
      else Reply NotFound_response)"

definition end_user_routes :: "request \<Rightarrow> reply" where
  "end_user_routes r =
     (let path = r_Path r in
      if match path ''/v1/end-users/*/summary'' then EndUserSummary r
      else if match path ''/v1/end-users/*/daily'' then EndUserDaily r
      else Reply NotFound_response)"

definition fixed_reply :: "string \<Rightarrow> request \<Rightarrow> reply" where
  "fixed_reply st r = Reply \<lparr>status = 200, content_type = ''application/json'',
     resp_body = json_print (JObj [(''status'', JStr st)])\<rparr>"

definition analytics_routes :: "(string \<times> (request \<Rightarrow> reply)) list" where
  "analytics_routes =
     [(''/health'', fixed_reply ''ok''), (''/ready'', fixed_reply ''ready''),
      (''/v1/orgs/'', org_routes), (''/v1/customers/'', customer_routes), (''/v1/end-users/'', end_user_routes),
      (''/v1/analytics/hourly'', TrendHandler ''hourly''), (''/v1/analytics/daily'', TrendHandler ''daily''),
      (''/v1/analytics/weekly'', TrendHandler ''weekly''), (''/v1/analytics/monthly'', TrendHandler ''monthly''),
      (''/v1/analytics/models/usage'', ModelsUsage), (''/v1/analytics/services/usage'', ServicesUsage),
      (''/v1/analytics/cost'', CostReport)]"

definition analytics_api :: "request \<Rightarrow> served" where
  "analytics_api r =
     (case mux_route analytics_routes r of
        Handler h \<Rightarrow> Served (h r)
      | RedirectTo p \<Rightarrow> Redirected p
      | NoRoute \<Rightarrow> Served (Reply NotFound_response))"

section \<open>Lemmas\<close>

lemma splitPath_loop_eq:
  "splitPath_loop cs cur result =
     result @ (case split_on (CHR ''/'') cs of [] \<Rightarrow> [cur] | y # ys \<Rightarrow> (cur @ y) # ys)"
  by (induction cs arbitrary: cur result) (auto split: list.splits)

lemma splitPath_loop_split: "splitPath_loop s [] [] = split_on (CHR ''/'') s"
  using split_on_nonempty [of "CHR ''/''" s] by (simp add: splitPath_loop_eq split: list.splits)

lemma splitPath_join:
  assumes "list_all (\<lambda>s. s \<noteq> [] \<and> CHR ''/'' \<notin> set s) segs" and "segs \<noteq> []"
  shows "splitPath (CHR ''/'' # join_with (CHR ''/'') segs) = segs"
proof -
  let ?j = "join_with (CHR ''/'') segs"
  have "?j \<noteq> [] \<and> last ?j \<noteq> CHR ''/''"
    using assms by (induction "CHR ''/''" segs rule: join_with.induct) (auto simp: join_nonempty, metis last_in_set)
  moreover have "split_on (CHR ''/'') ?j = segs"
    using assms by (intro split_join) (auto simp: list_all_iff)
  ultimately show ?thesis by (simp add: splitPath_def splitPath_loop_split)
qed

lemma match_loop_iff:
  "length ps = length xs \<Longrightarrow> match_loop ps xs \<longleftrightarrow> list_all2 (\<lambda>p x. p = ''*'' \<or> p = x) ps xs"
  by (induction ps xs rule: list_induct2) auto

section \<open>Properties\<close>

text \<open>
  C38.  The summary of the wrong organisation.  For every organisation id (not empty, without a slash),
  \<^verbatim>\<open>GET /v1/orgs/{id}/summary\<close> is routed to \<open>OrgSummary\<close>, whose reply names the organisation \<^verbatim>\<open>summary\<close>: the
  handler reads the fourth segment of the path, not the third, which holds the id.
\<close>

theorem OrgSummary_wrong_segment:
  assumes "org \<noteq> []" and "CHR ''/'' \<notin> set org" and "r_Path r = ''/v1/orgs/'' @ org @ ''/summary''"
  shows "org_routes r = OrgSummary r \<and> pathParam r 2 = org \<and>
    OrgSummary r = analytics_writeJSON 200 (org_summary_json
     \<lparr>os_OrgID = ''summary'', os_Totals = zero_totals, os_ModelsUsed = [], os_FirstEvent = [],
      os_LastEvent = [], os_DaysActive = 0\<rparr>)"
proof -
  let ?segs = "[''v1'', ''orgs'', org, ''summary'']"
  have s: "list_all (\<lambda>s. s \<noteq> [] \<and> CHR ''/'' \<notin> set s) ?segs" "?segs \<noteq> []" using assms by simp_all
  have p: "r_Path r = CHR ''/'' # join_with (CHR ''/'') ?segs" using assms(3) by simp
  have "splitPath (r_Path r) = ?segs" unfolding p by (rule splitPath_join [OF s])
  moreover have "splitPath ''/v1/orgs/*/summary'' = [''v1'', ''orgs'', ''*'', ''summary'']" by code_simp
  ultimately have "match (r_Path r) ''/v1/orgs/*/summary''" by (simp add: match_def Let_def)
  then show ?thesis
    by (simp add: org_routes_def OrgSummary_def pathParam_segments [OF s p])
qed

theorem OrgSummary_wrong_segment_witness:
  "OrgSummary \<lparr>r_Method = ''GET'', r_Path = ''/v1/orgs/acme/summary'', r_Query = (\<lambda>_. []), r_Header = (\<lambda>_. []),
      r_RemoteAddr = [], r_Body = [], r_BodyErr = False, r_KeyContext = None, r_TraceContext = None\<rparr>
   = analytics_writeJSON 200 (org_summary_json \<lparr>os_OrgID = ''summary'', os_Totals = zero_totals, os_ModelsUsed = [],
      os_FirstEvent = [], os_LastEvent = [], os_DaysActive = 0\<rparr>)"
  by (rule OrgSummary_wrong_segment [of "''acme''", THEN conjunct2, THEN conjunct2]) simp_all


end
