(* ===== verification/FloatText.thy ===== *)
theory FloatText
  imports EventCodec
begin

text \<open>
  Every double has a decimal text that reads back as it: one of the two neighbours with seventeen
  significant digits is closer than half a unit in the last place.  So \<open>json.Marshal\<close> writes every
  number that the decoder has produced.
\<close>

section \<open>Powers and exponents\<close>

lemma pow2_pos [simp]: "0 < pow2 e"
  by (simp add: pow2_def)

lemma pow2_sign [simp]: "pow2 e \<noteq> 0" "\<not> pow2 e < 0" "0 \<le> pow2 e" "\<bar>pow2 e\<bar> = pow2 e"
  using pow2_pos [of e] by linarith+

lemma pow10_pos [simp]: "0 < pow10 e"
  by (simp add: pow10_def)

lemma pow10_sign [simp]: "pow10 e \<noteq> 0" "0 \<le> pow10 e"
  using pow10_pos [of e] by linarith+

lemma pow2_powi: "pow2 e = 2 powi e"
  by (simp add: pow2_def power_int_def inverse_eq_divide power_one_over)

lemma pow10_powi: "pow10 e = 10 powi e"
  by (simp add: pow10_def power_int_def inverse_eq_divide power_one_over)

lemma pow2_add: "pow2 (a + b) = pow2 a * pow2 b"
  by (simp add: pow2_powi power_int_add)

lemma pow10_add: "pow10 (a + b) = pow10 a * pow10 b"
  by (simp add: pow10_powi power_int_add)

lemma powi_less_iff: "(1 :: rat) < x \<Longrightarrow> x powi a < x powi b \<longleftrightarrow> a < b"
  using power_int_strict_increasing [of a b x] power_int_increasing [of b a x] by (meson less_le_not_le not_less order_less_imp_le)

lemma pow2_less_iff [simp]: "pow2 a < pow2 b \<longleftrightarrow> a < b"
  by (simp add: pow2_powi powi_less_iff)

lemma pow10_less_iff [simp]: "pow10 a < pow10 b \<longleftrightarrow> a < b"
  by (simp add: pow10_powi powi_less_iff)

lemma pow2_le_iff [simp]: "pow2 a \<le> pow2 b \<longleftrightarrow> a \<le> b"
  by (simp flip: not_less)

lemma pow10_le_iff [simp]: "pow10 a \<le> pow10 b \<longleftrightarrow> a \<le> b"
  by (simp flip: not_less)

lemma pow2_nat: "pow2 (int n) = 2 ^ n"
  by (simp add: pow2_def)

lemma pow10_nat: "pow10 (int n) = 10 ^ n"
  by (simp add: pow10_def)

lemma digit_bounds:
  fixes n p b :: nat
  assumes "p \<le> n div b" and "n div b < b * p" and "0 < b"
  shows "b * p \<le> n \<and> n < b * (b * p)"
  using assms by (metis div_less_iff_less_mult less_eq_div_iff_mult_less_eq mult.commute)

lemma bit_length_bounds: "0 < n \<Longrightarrow> 2 ^ (bit_length n - 1) \<le> n \<and> n < 2 ^ bit_length n \<and> 0 < bit_length n"
proof (induction n rule: bit_length.induct)
  case (1 n)
  show ?case
  proof (cases "n div 2 = 0")
    case True
    then have "n = 1" using 1 by simp
    then show ?thesis by (simp add: bit_length.simps)
  next
    case False
    then have ih: "2 ^ (bit_length (n div 2) - 1) \<le> n div 2" "n div 2 < 2 ^ bit_length (n div 2)"
      "0 < bit_length (n div 2)"
      using 1 by auto
    moreover have "bit_length n = Suc (bit_length (n div 2))" using 1 by (subst bit_length.simps) simp
    moreover have "(2 :: nat) ^ bit_length (n div 2) = 2 * 2 ^ (bit_length (n div 2) - 1)"
      using ih(3) by (cases "bit_length (n div 2)") simp_all
    ultimately show ?thesis using digit_bounds [of "2 ^ (bit_length (n div 2) - 1)" n 2] by simp
  qed
qed

lemma show_nat_bounds: "0 < n \<Longrightarrow> 10 ^ (length (show_nat n) - 1) \<le> n \<and> n < 10 ^ length (show_nat n)"
proof (induction n rule: show_nat.induct)
  case (1 n)
  show ?case
  proof (cases "n < 10")
    case True
    then show ?thesis using 1 by (subst (1 2) show_nat.simps) simp
  next
    case False
    then have ih: "10 ^ (length (show_nat (n div 10)) - 1) \<le> n div 10" "n div 10 < 10 ^ length (show_nat (n div 10))"
      using 1 by auto
    moreover have "length (show_nat n) = Suc (length (show_nat (n div 10)))"
      using False by (subst show_nat.simps) simp
    moreover have "0 < length (show_nat (n div 10))" by simp
    then have "(10 :: nat) ^ length (show_nat (n div 10)) = 10 * 10 ^ (length (show_nat (n div 10)) - 1)"
      by (cases "length (show_nat (n div 10))") simp_all
    ultimately show ?thesis using digit_bounds [of "10 ^ (length (show_nat (n div 10)) - 1)" n 10] by simp
  qed
qed

text \<open>
  Both exponents are computed from the sizes of numerator and denominator: with powers of a base that
  enclose them, the quotient lies between two neighbouring powers, and one comparison decides.
\<close>

lemma quotient_pos:
  assumes "0 < x" and "quotient_of x = (n, d)"
  shows "0 < n" and "0 < d" and "x = of_nat (nat n) / of_nat (nat d)"
proof -
  show d: "0 < d" using quotient_of_denom_pos [OF assms(2)] .
  have x: "x = of_int n / of_int d" using quotient_of_div [OF assms(2)] .
  then show n: "0 < n" using assms(1) d by (simp add: zero_less_divide_iff)
  show "x = of_nat (nat n) / of_nat (nat d)" using x n d by simp
qed

lemma float_exp_bounds:
  assumes "0 < x"
  shows "pow2 (float_exp x) \<le> x" and "x < pow2 (float_exp x + 1)"
proof -
  obtain n d where q: "quotient_of x = (n, d)" by fastforce
  define a b where "a = bit_length (nat n)" and "b = bit_length (nat d)"
  note p = quotient_pos [OF assms q]
  have n: "2 ^ (a - 1) \<le> nat n" "nat n < 2 ^ a" "0 < a" using bit_length_bounds [of "nat n"] p(1) by (auto simp: a_def)
  have d: "2 ^ (b - 1) \<le> nat d" "nat d < 2 ^ b" "0 < b" using bit_length_bounds [of "nat d"] p(2) by (auto simp: b_def)
  have na: "pow2 (int a - 1) \<le> of_nat (nat n)" "of_nat (nat n) < pow2 (int a)"
    using n of_nat_mono [OF n(1), where ?'a = rat] of_nat_less_iff [of "nat n" "2 ^ a", where ?'a = rat]
      pow2_nat [of "a - 1"] pow2_nat [of a] by (simp_all add: of_nat_diff)
  have db: "pow2 (int b - 1) \<le> of_nat (nat d)" "of_nat (nat d) < pow2 (int b)"
    using d of_nat_mono [OF d(1), where ?'a = rat] of_nat_less_iff [of "nat d" "2 ^ b", where ?'a = rat]
      pow2_nat [of "b - 1"] pow2_nat [of b] by (simp_all add: of_nat_diff)
  have d0: "(0 :: rat) < of_nat (nat d)" using p(2) by simp
  have "x < pow2 (int a - int b + 1)"
  proof -
    have "x * pow2 (int b - 1) \<le> of_nat (nat n)"
      using mult_left_mono [OF db(1), of x] assms d0 p(3) by simp
    also have "\<dots> < pow2 (int a - int b + 1) * pow2 (int b - 1)" using na(2) by (simp flip: pow2_add)
    finally show ?thesis by simp
  qed
  moreover have "pow2 (int a - int b - 1) \<le> x"
  proof -
    have "pow2 (int a - int b - 1) * pow2 (int b) \<le> of_nat (nat n)" using na(1) by (simp flip: pow2_add)
    also have "\<dots> = x * of_nat (nat d)" using p(3) d0 by simp
    also have "\<dots> \<le> x * pow2 (int b)" using db(2) assms by simp
    finally show ?thesis by simp
  qed
  ultimately show "pow2 (float_exp x) \<le> x" "x < pow2 (float_exp x + 1)"
    by (auto simp: float_exp_def q a_def b_def Let_def not_le)
qed

lemma dec_exp_le:
  assumes "0 < x"
  shows "pow10 (dec_exp x) \<le> x"
proof -
  obtain n d where q: "quotient_of x = (n, d)" by fastforce
  define a b where "a = length (show_nat (nat n))" and "b = length (show_nat (nat d))"
  note p = quotient_pos [OF assms q]
  have n: "10 ^ (a - 1) \<le> nat n" "0 < a" using show_nat_bounds [of "nat n"] p(1) by (auto simp: a_def)
  have d: "nat d < 10 ^ b" using show_nat_bounds [of "nat d"] p(2) by (auto simp: b_def)
  have na: "pow10 (int a - 1) \<le> of_nat (nat n)"
    using n of_nat_mono [OF n(1), where ?'a = rat] pow10_nat [of "a - 1"] by (simp add: of_nat_diff)
  have db: "of_nat (nat d) < pow10 (int b)"
    using d of_nat_less_iff [of "nat d" "10 ^ b", where ?'a = rat] pow10_nat [of b] by simp
  have d0: "(0 :: rat) < of_nat (nat d)" using p(2) by simp
  have "pow10 (int a - int b - 1) * pow10 (int b) \<le> of_nat (nat n)" using na by (simp flip: pow10_add)
  also have "\<dots> = x * of_nat (nat d)" using p(3) d0 by simp
  also have "\<dots> \<le> x * pow10 (int b)" using db assms by simp
  finally have "pow10 (int a - int b - 1) \<le> x" by simp
  then show ?thesis by (auto simp: dec_exp_def q a_def b_def Let_def)
qed

lemma float_exp_unique:
  assumes "pow2 e \<le> x" and "x < pow2 (e + 1)"
  shows "float_exp x = e"
proof -
  have "0 < x" using assms(1) pow2_pos [of e] by (rule less_le_trans [rotated])
  then have "pow2 (float_exp x) < pow2 (e + 1)" "pow2 e < pow2 (float_exp x + 1)"
    using le_less_trans [OF float_exp_bounds(1) assms(2)] le_less_trans [OF assms(1) float_exp_bounds(2)] by blast+
  then show ?thesis by simp
qed

section \<open>Rounding\<close>

text \<open>The unit in the last place of a positive number.\<close>

definition ulp_exp :: "rat \<Rightarrow> int" where
  "ulp_exp x = max (float_exp x - 52) (- 1074)"

lemma round_near:
  assumes "\<bar>y - of_int k\<bar> < 1 / 2"
  shows "round_half_even y = k"
proof (cases "of_int k \<le> y")
  case True
  then have "\<lfloor>y\<rfloor> = k" using assms by (intro floor_unique) auto
  then show ?thesis using assms True by (simp add: round_half_even_def)
next
  case False
  then have "\<lfloor>y\<rfloor> = k - 1" using assms by (intro floor_unique) auto
  then show ?thesis using assms False by (simp add: round_half_even_def)
qed

text \<open>A number close enough to a multiple of its unit rounds to that multiple.\<close>

lemma to_float64_near:
  assumes "0 < y" and "x = of_int k * pow2 (ulp_exp y)" and "\<bar>y - x\<bar> < pow2 (ulp_exp y) / 2" and "x < pow2 1024"
  shows "to_float64 y = Some x"
proof -
  let ?u = "pow2 (ulp_exp y)"
  have "y / ?u - of_int k = (y - x) / ?u"
    using pow2_pos [of "ulp_exp y"] by (simp add: assms(2) diff_divide_distrib)
  then have "\<bar>y / ?u - of_int k\<bar> = \<bar>y - x\<bar> / ?u" by (simp add: abs_divide)
  also have "\<dots> < 1 / 2" using assms(3) by (simp add: field_simps)
  finally have "round_half_even (y / ?u) = k" by (rule round_near)
  then show ?thesis using assms(1,2,4) by (simp add: to_float64_def Let_def ulp_exp_def)
qed

text \<open>The doubles: what rounding leaves alone.\<close>

definition is_double :: "float64 \<Rightarrow> bool" where
  "is_double x \<longleftrightarrow> to_float64 x = Some x"

lemma is_double_abs: "is_double x \<Longrightarrow> is_double \<bar>x\<bar>"
  by (auto simp: is_double_def to_float64_def Let_def sgn_if split: if_splits)

lemma is_double_form:
  assumes "is_double x" and "0 < x"
  obtains m where "x = of_int m * pow2 (ulp_exp x)" "x < pow2 1024"
proof -
  let ?m = "round_half_even (x / pow2 (ulp_exp x))"
  have "of_int ?m * pow2 (ulp_exp x) = x" "x < pow2 1024"
    using assms by (auto simp: is_double_def to_float64_def ulp_exp_def Let_def split: if_splits)
  with that [of ?m] show thesis by simp
qed

text \<open>Both sides of a double lie further away than a relative distance of half of \<open>10 ^ (- 16)\<close>.\<close>

lemma double_absorbs:
  assumes "is_double x" and "0 < x" and "\<bar>y - x\<bar> \<le> x / (2 * 10 ^ 16)"
  shows "to_float64 y = Some x"
proof -
  obtain m where m: "x = of_int m * pow2 (ulp_exp x)" and big: "x < pow2 1024" by (rule is_double_form [OF assms(1,2)])
  define E q where "E = float_exp x" and "q = ulp_exp x"
  note ex = float_exp_bounds [OF assms(2), folded E_def]
  have y0: "0 < y" and yl: "x / 2 < y" using assms(2,3) by (auto simp: abs_if split: if_splits)
  define E' q' where "E' = float_exp y" and "q' = ulp_exp y"
  note ey = float_exp_bounds [OF y0, folded E'_def]
  have q: "E - 52 \<le> q" "q = max (E - 52) (- 1074)" and q': "q' = max (E' - 52) (- 1074)"
    by (auto simp: q_def q'_def ulp_exp_def E_def E'_def)
  have "0 < of_int m * pow2 (ulp_exp x)" unfolding m [symmetric] by (rule assms(2))
  then have m1: "1 \<le> m" by (simp add: zero_less_mult_iff)
  have "pow2 q \<le> x" using m m1 by (simp add: q_def [symmetric])
  then have qE: "q \<le> E" using ex(2) le_less_trans [of "pow2 q" x "pow2 (E + 1)"] by simp
  text \<open>Below the next power of two there is a whole unit.\<close>
  obtain n where n: "pow2 (E + 1) = of_int n * pow2 q"
  proof
    show "pow2 (E + 1) = of_int (2 ^ nat (E + 1 - q)) * pow2 q"
      using qE pow2_nat [of "nat (E + 1 - q)"] pow2_add [of "E + 1 - q" q] by simp
  qed
  have "m < n" using ex(2) n m by (simp add: q_def [symmetric])
  then have "of_int (m + 1) * pow2 q \<le> of_int n * pow2 q" by (intro mult_right_mono) (simp_all del: of_int_add)
  then have gap: "x + pow2 q \<le> pow2 (E + 1)" using n m by (simp add: q_def [symmetric] algebra_simps)
  have "x < pow2 (q + 53)" using ex(2) q(1) less_le_trans [of x "pow2 (E + 1)" "pow2 (q + 53)"] by simp
  also have "pow2 (q + 53) = 9007199254740992 * pow2 q" using pow2_nat [of 53] by (simp add: pow2_add)
  also have "\<dots> < 9200000000000000 * pow2 q" by simp
  finally have rel: "x / (2 * 10 ^ 16) < 46 / 100 * pow2 q" by simp
  have "y < pow2 (E + 1)" using assms(3) rel gap by (auto simp: abs_if split: if_splits)
  then have "E' \<le> E" using ey(1) le_less_trans [of "pow2 E'" y "pow2 (E + 1)"] by simp
  have "pow2 (E - 1) \<le> x / 2" using ex(1) by (simp add: pow2_powi power_int_diff)
  then have "pow2 (E - 1) < pow2 (E' + 1)" using yl ey(2) by linarith
  then have "E - 1 \<le> E'" by simp
  with \<open>E' \<le> E\<close> consider "q' = q" | "q' = q - 1" "E' = E - 1" "q = E - 52" using q q' by linarith
  then show ?thesis
  proof cases
    case 1
    have "\<bar>y - x\<bar> < pow2 q / 2" using assms(3) rel pow2_pos [of q] by linarith
    moreover have "x = of_int m * pow2 q" using m by (simp add: q_def [symmetric])
    ultimately show ?thesis using to_float64_near [OF y0, of x m, folded q'_def] 1 big by simp
  next
    case 2
    have e52: "pow2 E = 4503599627370496 * pow2 q" using pow2_nat [of 52] 2(3) pow2_add [of q 52] by simp
    have "y < pow2 E" using ey(2) 2(2) by simp
    then have "x - pow2 E < pow2 q" using assms(3) rel pow2_pos [of q] by (auto simp: abs_if split: if_splits)
    then have "(of_int m - 4503599627370496) * pow2 q < 1 * pow2 q" using m e52 by (simp add: q_def [symmetric] algebra_simps)
    then have "(of_int (m - 4503599627370496) :: rat) < of_int 1" by (simp del: of_int_1)
    moreover have "4503599627370496 \<le> m" using ex(1) m e52 of_int_le_iff [of 4503599627370496 m, where ?'a = rat] by (simp add: q_def [symmetric])
    ultimately have m: "x = 4503599627370496 * pow2 q" using m of_int_less_iff [of "m - 4503599627370496" 1, where ?'a = rat]
      by (simp add: q_def [symmetric] del: of_int_less_iff)
    have u: "pow2 q = 2 * pow2 q'" using 2(1) by (simp add: pow2_powi power_int_diff)
    have "x / (2 * 10 ^ 16) < pow2 q' / 2" unfolding m u by simp
    then have "\<bar>y - x\<bar> < pow2 q' / 2" using assms(3) by linarith
    then show ?thesis
      using to_float64_near [OF y0, of x 9007199254740992] m u big by (simp add: q'_def [symmetric])
  qed
qed

section \<open>The text of a number\<close>

text \<open>The parts of a JSON number, and what the scanner and \<open>ParseFloat\<close> make of them.\<close>

definition frac_text :: "string \<Rightarrow> string" where
  "frac_text fp = (if fp = [] then [] else CHR ''.'' # fp)"

definition exp_text :: "int option \<Rightarrow> string" where
  "exp_text ex =
     (case ex of None \<Rightarrow> [] | Some e \<Rightarrow> ''e'' @ (if e < 0 then ''-'' else ''+'') @ show_nat (nat \<bar>e\<bar>))"

definition number_form :: "bool \<Rightarrow> string \<Rightarrow> string \<Rightarrow> int option \<Rightarrow> string" where
  "number_form neg ip fp ex = (if neg then ''-'' else []) @ ip @ frac_text fp @ exp_text ex"

definition digits_ok :: "string \<Rightarrow> string \<Rightarrow> bool" where
  "digits_ok ip fp \<longleftrightarrow> ip \<noteq> [] \<and> list_all is_digit_char ip \<and> list_all is_digit_char fp \<and> (ip = ''0'' \<or> hd ip \<noteq> CHR ''0'')"

lemma not_digit [simp]: "\<not> is_digit_char (CHR ''.'')" "\<not> is_digit_char (CHR ''e'')"
  by (simp_all add: is_digit_char_def less_eq_char_def)

definition no_digit :: "string \<Rightarrow> bool" where
  "no_digit s \<longleftrightarrow> s = [] \<or> \<not> is_digit_char (hd s)"

lemma digits_while:
  assumes "list_all is_digit_char ds" and "no_digit r"
  shows "takeWhile is_digit_char (ds @ r) = ds" and "dropWhile is_digit_char (ds @ r) = r"
proof -
  have "takeWhile is_digit_char r = []" "dropWhile is_digit_char r = r"
    using assms(2) by (cases r; simp add: no_digit_def)+
  then show "takeWhile is_digit_char (ds @ r) = ds" "dropWhile is_digit_char (ds @ r) = r"
    using assms(1) by (simp_all add: takeWhile_append2 dropWhile_append2 list_all_iff)
qed

lemma exp_text_end: "no_digit (exp_text ex)" "no_digit (frac_text fp @ exp_text ex)"
  by (auto simp: no_digit_def exp_text_def frac_text_def split: option.splits)

lemma frac_head: "hd s \<noteq> CHR ''.'' \<or> s = [] \<Longrightarrow> scan_frac s = Some ([], s)"
  by (cases s) (auto simp: scan_frac_def)

lemma exp_text_no_dot: "exp_text ex = [] \<or> hd (exp_text ex) = CHR ''e''"
  by (simp add: exp_text_def split: option.split)

lemma number_ok:
  assumes "digits_ok ip fp"
  shows "num_ok (number_form neg ip fp ex)"
proof -
  let ?r = "frac_text fp @ exp_text ex"
  obtain c cs where c: "ip = c # cs" "is_digit_char c" using assms by (cases ip) (auto simp: digits_ok_def)
  have dig: "list_all is_digit_char ip" "list_all is_digit_char fp" using assms by (auto simp: digits_ok_def)
  have i: "scan_int (ip @ ?r) = Some (ip, ?r)"
  proof (cases "c = CHR ''0''")
    case True
    then have "ip = ''0''" using assms c by (auto simp: digits_ok_def)
    then show ?thesis by (simp add: scan_int_def)
  next
    case False
    then show ?thesis
      using digits_while [OF dig(1) exp_text_end(2) [of fp ex]] c by (simp add: scan_int_def take_digits_def)
  qed
  have f: "scan_frac ?r = Some (frac_text fp, exp_text ex)"
  proof (cases "fp = []")
    case True
    then show ?thesis using frac_head [of "exp_text ex"] exp_text_no_dot [of ex] by (auto simp: frac_text_def)
  next
    case False
    then show ?thesis
      using digits_while [OF dig(2) exp_text_end(1) [of ex]] by (simp add: frac_text_def scan_frac_def take_digits_def)
  qed
  have e: "scan_exp (exp_text ex) = Some (exp_text ex, [])"
  proof (cases ex)
    case (Some e)
    define d where "d = show_nat (nat \<bar>e\<bar>)"
    have "takeWhile is_digit_char d = d" "dropWhile is_digit_char d = []" "d \<noteq> []"
      using digits_while [OF show_nat_digits [of "nat \<bar>e\<bar>"], of "[]"] by (simp_all add: no_digit_def d_def)
    then show ?thesis unfolding Some exp_text_def option.case d_def [symmetric] by (auto simp add: scan_exp_def take_digits_def simp del: takeWhile_eq_all_conv)
  qed (simp add: exp_text_def scan_exp_def)
  show ?thesis
    using i f e c digit_not_sign [OF c(2)] by (cases neg) (simp_all add: num_ok_def number_form_def scan_number_def)
qed

lemma read_exp_show_nat:
  "n < 10000 \<Longrightarrow> read_exp (show_nat n) = int n"
proof (induction n rule: show_nat.induct)
  case (1 n)
  show ?case
  proof (cases "n < 10")
    case True
    then show ?thesis by (subst show_nat.simps) (simp add: read_exp_def)
  next
    case False
    then have "read_exp (show_nat (n div 10)) = int (n div 10)" using 1 by simp
    moreover have "10 * int (n div 10) + int (n mod 10) = int n"
      by (metis mult_div_mod_eq of_nat_add of_nat_mult of_nat_numeral)
    ultimately show ?thesis
      using False 1(2) by (subst show_nat.simps) (simp add: read_exp_def del: zdiv_int)
  qed
qed

definition exp_value :: "int option \<Rightarrow> int" where
  "exp_value ex = (case ex of None \<Rightarrow> 0 | Some e \<Rightarrow> e)"

lemma number_value:
  assumes "digits_ok ip fp" and "\<bar>exp_value ex\<bar> < 10000"
  shows "literal_value (number_form neg ip fp ex)
    = (if neg then -1 else 1) * (of_nat (read_nat (ip @ fp)) * pow10 (exp_value ex - int (length fp)))"
proof -
  let ?r = "frac_text fp @ exp_text ex"
  obtain c cs where c: "ip = c # cs" "is_digit_char c" using assms by (cases ip) (auto simp: digits_ok_def)
  have dig: "list_all is_digit_char ip" "list_all is_digit_char fp" using assms by (auto simp: digits_ok_def)
  note i = digits_while [OF dig(1) exp_text_end(2) [of fp ex]] and f = digits_while [OF dig(2) exp_text_end(1) [of ex]]
  have e: "(if exp_text ex = [] then 0
      else if tl (exp_text ex) \<noteq> [] \<and> hd (tl (exp_text ex)) = CHR ''-'' then - read_exp (tl (tl (exp_text ex)))
      else if tl (exp_text ex) \<noteq> [] \<and> hd (tl (exp_text ex)) = CHR ''+'' then read_exp (tl (tl (exp_text ex)))
      else read_exp (tl (exp_text ex))) = exp_value ex"
    using assms(2) by (auto simp: exp_text_def exp_value_def read_exp_show_nat split: option.splits)
  have fr: "(?r \<noteq> [] \<and> hd ?r = CHR ''.'') \<longleftrightarrow> fp \<noteq> []"
    using exp_text_no_dot [of ex] by (auto simp: frac_text_def)
  have "literal_parts (number_form neg ip fp ex) = (neg, ip, fp, exp_value ex)"
  proof -
    have s0: "(number_form neg ip fp ex \<noteq> [] \<and> hd (number_form neg ip fp ex) = CHR ''-'') = neg"
      "(if neg then tl (number_form neg ip fp ex) else number_form neg ip fp ex) = ip @ ?r"
      using c digit_not_sign [OF c(2)] by (auto simp: number_form_def)
    have f2: "(if fp \<noteq> [] then takeWhile is_digit_char (tl ?r) else []) = fp"
      "(if fp \<noteq> [] then dropWhile is_digit_char (tl ?r) else ?r) = exp_text ex"
      using f by (simp_all add: frac_text_def)
    show ?thesis unfolding literal_parts_def Let_def s0 i fr f2 e ..
  qed
  then show ?thesis by (simp add: literal_value_def)
qed

subsection \<open>The two layouts\<close>

lemma read_nat_zeros: "read_nat (replicate k (CHR ''0'') @ ds) = read_nat ds"
proof -
  have "foldl (\<lambda>n c. 10 * n + digit_val c) 0 (replicate k (CHR ''0'')) = 0"
    by (induction k) (simp_all add: digit_val_def)
  then show ?thesis by (simp add: read_nat_def)
qed

lemma read_nat_append_zeros: "read_nat (ds @ replicate k (CHR ''0'')) = read_nat ds * 10 ^ k"
proof (induction k)
  case (Suc k)
  have "ds @ replicate (Suc k) (CHR ''0'') = (ds @ replicate k (CHR ''0'')) @ [CHR ''0'']"
    by (simp add: replicate_append_same)
  then have "read_nat (ds @ replicate (Suc k) (CHR ''0'')) = 10 * read_nat (ds @ replicate k (CHR ''0''))"
    by (simp only: read_nat_snoc) (simp add: digit_val_def)
  then show ?case using Suc by simp
qed simp

lemma zeros_digits: "list_all is_digit_char (replicate k (CHR ''0''))"
  by (simp add: list_all_iff is_digit_char_def less_eq_char_def)

lemma show_nat_hd: "0 < m \<Longrightarrow> hd (show_nat m) \<noteq> CHR ''0''"
proof
  assume m: "0 < m" and z: "hd (show_nat m) = CHR ''0''"
  then obtain cs where cs: "show_nat m = CHR ''0'' # cs" using show_nat_nonempty [of m] by (cases "show_nat m") auto
  then have "cs = []" using show_nat_no_lead_zero [of m cs] by simp
  then have "read_nat (show_nat m) = 0" using cs by (simp add: read_nat_def digit_val_def)
  with m show False by simp
qed

lemma list_all_take_drop: "list_all P xs \<Longrightarrow> list_all P (take n xs) \<and> list_all P (drop n xs)"
  by (auto simp: list_all_iff dest: in_set_takeD in_set_dropD)

lemma positional_form:
  assumes "0 < m"
  obtains ip fp where "positional (m, q) = number_form False ip fp None" "digits_ok ip fp"
    "of_nat (read_nat (ip @ fp)) * pow10 (- int (length fp)) = of_nat m * pow10 q"
proof -
  define ds dp where "ds = show_nat m" and "dp = int (length ds) + q"
  have ds: "list_all is_digit_char ds" "ds \<noteq> []" "hd ds \<noteq> CHR ''0''" "read_nat ds = m"
    using show_nat_digits show_nat_hd [OF assms] by (simp_all add: ds_def)
  consider "dp \<le> 0" | "0 < dp" "int (length ds) \<le> dp" | "0 < dp" "dp < int (length ds)" by linarith
  then show thesis
  proof cases
    case 1
    let ?fp = "replicate (nat (- dp)) (CHR ''0'') @ ds"
    have "read_nat (''0'' @ ?fp) = m" using read_nat_zeros [of "Suc (nat (- dp))" ds] ds(4) by simp
    moreover have "- int (length ?fp) = q" using 1 by (simp add: dp_def)
    moreover have "digits_ok ''0'' ?fp" using ds zeros_digits by (simp add: digits_ok_def is_digit_char_def less_eq_char_def)
    moreover have "positional (m, q) = number_form False ''0'' ?fp None"
      using 1 ds(2) by (simp add: positional_def number_form_def frac_text_def exp_text_def Let_def flip: ds_def dp_def)
    ultimately show thesis using that by metis
  next
    case 2
    let ?ip = "ds @ replicate (nat dp - length ds) (CHR ''0'')"
    have "nat dp - length ds = nat q" "0 \<le> q" using 2 by (auto simp: dp_def)
    then have "of_nat (read_nat (?ip @ [])) * pow10 (- int (length [])) = of_nat m * pow10 q"
      using pow10_nat [of "nat q"] pow10_nat [of 0] by (simp add: read_nat_append_zeros ds(4))
    moreover have "digits_ok ?ip []" using ds zeros_digits by (auto simp: digits_ok_def)
    moreover have "positional (m, q) = number_form False ?ip [] None"
      using 2 by (simp add: positional_def number_form_def frac_text_def exp_text_def Let_def flip: ds_def dp_def)
    ultimately show thesis by (intro that)
  next
    case 3
    let ?ip = "take (nat dp) ds" and ?fp = "drop (nat dp) ds"
    have "- int (length ?fp) = q" using 3 by (simp add: dp_def)
    moreover have "digits_ok ?ip ?fp" using 3 ds list_all_take_drop [OF ds(1)] by (auto simp: digits_ok_def hd_take)
    moreover have "positional (m, q) = number_form False ?ip ?fp None"
      using 3 by (simp add: positional_def number_form_def frac_text_def exp_text_def Let_def flip: ds_def dp_def)
    moreover have "read_nat (?ip @ ?fp) = m" using ds(4) by simp
    ultimately show thesis using that by metis
  qed
qed

lemma scientific_form:
  assumes "0 < m"
  obtains ip fp where "scientific (m, q) = number_form False ip fp (Some (int (length (show_nat m)) + q - 1))" "digits_ok ip fp"
    "of_nat (read_nat (ip @ fp)) * pow10 (int (length (show_nat m)) + q - 1 - int (length fp)) = of_nat m * pow10 q"
proof -
  define ds where "ds = show_nat m"
  have ds: "list_all is_digit_char ds" "ds \<noteq> []" "hd ds \<noteq> CHR ''0''" "read_nat ds = m"
    using show_nat_digits show_nat_hd [OF assms] by (simp_all add: ds_def)
  let ?ip = "take 1 ds" and ?fp = "drop 1 ds"
  have "int (length ds) + q - 1 - int (length ?fp) = q" using ds(2) by (cases ds) simp_all
  moreover have "digits_ok ?ip ?fp" using ds list_all_take_drop [OF ds(1)] by (auto simp: digits_ok_def hd_take)
  moreover have "read_nat (?ip @ ?fp) = m" using ds(4) by simp
  moreover have "scientific (m, q) = number_form False ?ip ?fp (Some (int (length ds) + q - 1))"
    using ds(2) by (cases ds) (auto simp: scientific_def number_form_def frac_text_def exp_text_def Let_def simp flip: ds_def)
  ultimately show thesis using that unfolding ds_def [symmetric] by metis
qed

lemma number_form_neg: "''-'' @ number_form False ip fp ex = number_form True ip fp ex"
  by (simp add: number_form_def)

lemma float_text_value:
  assumes "0 < m" and "\<bar>int (length (show_nat m)) + q - 1\<bar> < 10000"
  shows "num_ok (float_text x (m, q)) \<and>
    literal_value (float_text x (m, q)) = (if x < 0 then -1 else 1) * (of_nat m * pow10 q)"
proof -
  obtain ip fp ex where f: "float_text x (m, q) = (if x < 0 then ''-'' else []) @ number_form False ip fp ex"
    "digits_ok ip fp" "\<bar>exp_value ex\<bar> < 10000"
    "of_nat (read_nat (ip @ fp)) * pow10 (exp_value ex - int (length fp)) = of_nat m * pow10 q"
  proof (cases "\<bar>x\<bar> < pow10 (- 6) \<or> pow10 21 \<le> \<bar>x\<bar>")
    case True
    from assms(1) show thesis
      by (rule scientific_form [of m q]) (rule that, use True assms(2) in \<open>auto simp: float_text_def exp_value_def\<close>)
  next
    case False
    from assms(1) show thesis
      by (rule positional_form [of m q]) (rule that, use False in \<open>auto simp: float_text_def exp_value_def\<close>)
  qed
  then have "float_text x (m, q) = number_form (x < 0) ip fp ex" by (simp add: number_form_def)
  then show ?thesis using number_ok [OF f(2)] number_value [OF f(2,3)] f(4) by simp
qed

section \<open>Every double is written\<close>

lemma strip_zeros_value:
  "0 < m \<Longrightarrow> 0 < fst (strip_zeros m q) \<and> of_nat (fst (strip_zeros m q)) * pow10 (snd (strip_zeros m q)) = of_nat m * pow10 q"
proof (induction m q rule: strip_zeros.induct)
  case (1 m q)
  show ?case
  proof (cases "m mod 10 = 0")
    case True
    then have m: "m = m div 10 * 10" using div_mult_mod_eq [of m 10] by linarith
    have "0 < m div 10" using 1(2) m by (cases "m div 10 = 0") auto
    moreover have "(of_nat (m div 10) :: rat) * pow10 (q + 1) = of_nat m * pow10 q"
      using m pow10_nat [of 1] pow10_add [of q 1] by (metis mult.assoc mult.commute of_nat_mult of_nat_numeral of_nat_1 power_one_right)
    ultimately show ?thesis using 1 True by (subst (1 2 3) strip_zeros.simps) simp
  next
    case False
    then show ?thesis using 1(2) by (subst (1 2 3) strip_zeros.simps) simp
  qed
qed

lemma candidate_near:
  assumes "0 < a"
  shows "\<exists>m q. (m, q) \<in> set (digit_candidates a 17) \<and> 0 < m \<and> \<bar>of_nat m * pow10 q - a\<bar> \<le> a / (2 * 10 ^ 16)"
proof -
  define q where "q = dec_exp a - 16"
  define z where "z = a / pow10 q"
  define lo where "lo = nat \<lfloor>z\<rfloor>"
  have "pow10 q * 10 ^ 16 \<le> a"
    using dec_exp_le [OF assms] pow10_nat [of 16] pow10_add [of q 16] by (simp add: q_def)
  then have z: "10 ^ 16 \<le> z" "pow10 q \<le> a / 10 ^ 16" using pow10_pos [of q] by (simp_all add: z_def field_simps)
  then have lo: "of_nat lo \<le> z" "z < of_nat lo + 1" "0 < lo"
    using floor_correct [of z] by (auto simp: lo_def)
  define m where "m = (if z - of_nat lo \<le> 1 / 2 then lo else lo + 1)"
  have "\<bar>of_nat m - z\<bar> \<le> 1 / 2" using lo by (auto simp: m_def)
  then have "\<bar>of_nat m - z\<bar> * pow10 q \<le> 1 / 2 * pow10 q" by (intro mult_right_mono) (simp_all add: less_imp_le)
  moreover have "\<bar>of_nat m - z\<bar> * pow10 q = \<bar>of_nat m * pow10 q - a\<bar>"
    using pow10_pos [of q] by (simp add: z_def abs_mult_pos left_diff_distrib less_imp_le)
  ultimately have near: "\<bar>of_nat m * pow10 q - a\<bar> \<le> a / (2 * 10 ^ 16)" using z(2) by simp
  have "strip_zeros m q \<in> set (digit_candidates a 17)"
    by (auto simp: digit_candidates_def Let_def m_def lo_def z_def q_def)
  moreover have "0 < m" using lo by (simp add: m_def)
  ultimately show ?thesis
    using strip_zeros_value [of m q] near by (intro exI [of _ "fst (strip_zeros m q)"] exI [of _ "snd (strip_zeros m q)"]) simp
qed

text \<open>The exponent of a decimal near a double has at most four digits.\<close>

lemma pow2_pow10: "0 \<le> k \<Longrightarrow> pow2 k \<le> pow10 k" "0 \<le> k \<Longrightarrow> pow10 (- k) \<le> pow2 (- k)"
  by (auto simp: pow2_def pow10_def intro!: power_mono divide_left_mono)

lemma decimal_exponent:
  assumes "0 < m" and "pow2 (- 1076) \<le> of_nat m * pow10 q" and "of_nat m * pow10 q \<le> pow2 1025"
  shows "\<bar>int (length (show_nat m)) + q - 1\<bar> < 10000"
proof -
  define l where "l = int (length (show_nat m))"
  have b: "10 ^ (length (show_nat m) - 1) \<le> m" "m < 10 ^ length (show_nat m)" using show_nat_bounds [OF assms(1)] by auto
  have "(1 :: int) \<le> l" by (simp add: l_def Suc_le_eq)
  then have "pow10 (l - 1) \<le> of_nat m" "of_nat m < pow10 l"
    using of_nat_mono [OF b(1), where ?'a = rat] of_nat_less_iff [of m "10 ^ length (show_nat m)", where ?'a = rat] b(2)
      pow10_nat [of "length (show_nat m) - 1"] pow10_nat [of "length (show_nat m)"] by (simp_all add: l_def of_nat_diff)
  then have "pow10 (l - 1) * pow10 q \<le> of_nat m * pow10 q" "of_nat m * pow10 q < pow10 l * pow10 q"
    by (simp_all add: less_imp_le)
  then have v: "pow10 (l - 1 + q) \<le> of_nat m * pow10 q" "of_nat m * pow10 q < pow10 (l + q)"
    by (simp_all add: pow10_add)
  have "pow10 (l - 1 + q) \<le> pow10 1025" using v(1) assms(3) pow2_pow10(1) [of 1025] by linarith
  moreover have "pow10 (- 1076) < pow10 (l + q)" using v(2) assms(2) pow2_pow10(2) [of 1076] by linarith
  ultimately show ?thesis by (simp add: l_def)
qed

lemma to_float64_uminus: "to_float64 (- y) = map_option uminus (to_float64 y)"
  by (simp add: to_float64_def Let_def)

theorem format_float_total:
  assumes "is_double x"
  shows "\<exists>s. format_float x = Some s"
proof (cases "x = 0")
  case False
  define a where "a = \<bar>x\<bar>"
  have a: "0 < a" "is_double a" using False is_double_abs [OF assms] by (simp_all add: a_def)
  obtain k where k: "a = of_int k * pow2 (ulp_exp a)" "a < pow2 1024" by (rule is_double_form [OF a(2,1)])
  have "0 < of_int k * pow2 (ulp_exp a)" unfolding k(1) [symmetric] by (rule a(1))
  then have "1 \<le> k" by (simp add: zero_less_mult_iff)
  then have "1 * pow2 (ulp_exp a) \<le> of_int k * pow2 (ulp_exp a)" by (intro mult_right_mono) simp_all
  moreover have "pow2 (- 1074) \<le> pow2 (ulp_exp a)" by (simp add: ulp_exp_def)
  ultimately have small: "pow2 (- 1074) \<le> a" unfolding k(1) [symmetric] by linarith
  obtain m q where mq: "(m, q) \<in> set (digit_candidates a 17)" "0 < m" "\<bar>of_nat m * pow10 q - a\<bar> \<le> a / (2 * 10 ^ 16)"
    using candidate_near [OF a(1)] by blast
  have tf: "to_float64 (of_nat m * pow10 q) = Some a" by (rule double_absorbs [OF a(2,1) mq(3)])
  have half: "pow2 (- 1076) = pow2 (- 1074) / 4" "pow2 1025 = 2 * pow2 1024"
    using pow2_add [of "- 1076" 2] pow2_nat [of 2] pow2_add [of 1024 1] pow2_nat [of 1] by simp_all
  have "\<bar>int (length (show_nat m)) + q - 1\<bar> < 10000"
  proof (rule decimal_exponent [OF mq(2)])
    show "pow2 (- 1076) \<le> of_nat m * pow10 q" using mq(3) small a(1) half(1) by (auto simp: abs_if split: if_splits)
    show "of_nat m * pow10 q \<le> pow2 1025" using mq(3) k(2) a(1) half(2) by (auto simp: abs_if split: if_splits)
  qed
  note t = float_text_value [OF mq(2) this, of x]
  have "ParseFloat_literal (float_text x (m, q)) = Some x"
    using t tf to_float64_uminus [of "of_nat m * pow10 q"] False by (auto simp: ParseFloat_literal_def a_def)
  moreover have "float_text x (m, q) \<in> set (map (float_text x) (concat (map (digit_candidates \<bar>x\<bar>) [1..<18])))"
    using mq(1) by (force simp: a_def)
  ultimately have "find (\<lambda>s. num_ok s \<and> ParseFloat_literal s = Some x)
      (map (float_text x) (concat (map (digit_candidates \<bar>x\<bar>) [1..<18]))) \<noteq> None"
    using t unfolding find_None_iff by blast
  then show ?thesis using False by (auto simp: format_float_def)
qed (simp add: format_float_def)

text \<open>Rounding yields doubles, so every number that the decoder returns is one.\<close>

lemma scaled_double:
  assumes "0 \<le> k" and "k \<le> 2 ^ 53" and "- 1074 \<le> q" and "of_int k * pow2 q < pow2 1024"
  shows "is_double (of_int k * pow2 q)"
proof (cases "k = 0")
  case False
  define a where "a = of_int k * pow2 q"
  have a: "0 < a" using False assms(1) by (simp add: a_def)
  note e = float_exp_bounds [OF a]
  have b: "pow2 (q + 53) = 9007199254740992 * pow2 q" using pow2_nat [of 53] by (simp add: pow2_add)
  obtain j where "a = of_int j * pow2 (ulp_exp a)"
  proof (cases "k = 2 ^ 53")
    case True
    then have "a = pow2 (q + 53)" using b by (simp add: a_def)
    then have "float_exp a = q + 53" by (intro float_exp_unique) simp_all
    then have "ulp_exp a = q + 1" using assms(3) by (simp add: ulp_exp_def)
    then have "a = of_int (2 ^ 52) * pow2 (ulp_exp a)" using True pow2_add [of q 1] pow2_nat [of 1] by (simp add: a_def)
    then show thesis by (rule that)
  next
    case f: False
    have "rat_of_int k < 9007199254740992" using assms(2) f by simp
    then have "a < pow2 (q + 53)" using b by (simp add: a_def)
    then have "pow2 (float_exp a) < pow2 (q + 53)" using e(1) by linarith
    then have u: "ulp_exp a \<le> q" using assms(3) by (simp add: ulp_exp_def)
    have "a = of_int (k * 2 ^ nat (q - ulp_exp a)) * pow2 (ulp_exp a)"
      using u pow2_nat [of "nat (q - ulp_exp a)"] pow2_add [of "q - ulp_exp a" "ulp_exp a"] by (simp add: a_def)
    then show thesis by (rule that)
  qed
  then show ?thesis using to_float64_near [OF a, of a j] assms(4) by (simp add: is_double_def a_def)
qed (simp add: is_double_def to_float64_def)

lemma is_double_uminus: "is_double x \<Longrightarrow> is_double (- x)"
  by (simp add: is_double_def to_float64_def Let_def split: if_splits)

lemma to_float64_double:
  assumes "to_float64 y = Some x"
  shows "is_double x"
proof (cases "y = 0")
  case True
  then show ?thesis using assms by (simp add: is_double_def to_float64_def)
next
  case False
  define a q where "a = \<bar>y\<bar>" and "q = ulp_exp a"
  define k where "k = round_half_even (a / pow2 q)"
  have a: "0 < a" using False by (simp add: a_def)
  have x: "x = sgn y * (of_int k * pow2 q)" "of_int k * pow2 q < pow2 1024"
    using assms False by (auto simp: to_float64_def Let_def k_def q_def a_def ulp_exp_def split: if_splits)
  have "a < pow2 (q + 53)"
    using float_exp_bounds(2) [OF a] less_le_trans [of a "pow2 (float_exp a + 1)" "pow2 (q + 53)"]
    by (simp add: q_def ulp_exp_def)
  then have "a / pow2 q < 9007199254740992" using pow2_nat [of 53] by (simp add: pow2_add field_simps)
  then have "\<lfloor>a / pow2 q\<rfloor> < 9007199254740992" by (simp add: floor_less_iff)
  moreover have "0 \<le> \<lfloor>a / pow2 q\<rfloor>" using a by simp
  ultimately have k: "0 \<le> k" "k \<le> 2 ^ 53" by (auto simp: k_def round_half_even_def Let_def)
  have "is_double (of_int k * pow2 q)" by (rule scaled_double [OF k _ x(2)]) (simp add: q_def ulp_exp_def)
  then show ?thesis using x(1) False is_double_uminus by (auto simp: sgn_if split: if_splits)
qed

end
