(* ===== verification/JsonTypes.thy ===== *)
theory JsonTypes
  imports JsonRoundtrip
begin

text \<open>
  What the scanner of \<open>GoJson\<close> delivers is well-formed: every string in a parsed value, keys included,
  is valid UTF-8, whatever bytes it was read from, because a byte that starts no sequence and a lone
  surrogate become the replacement character.
\<close>

section \<open>Literals\<close>

lemma valid_rune:
  assumes "rune_len s = n" and "n \<noteq> 0" and "valid_utf8 t"
  shows "valid_utf8 (take n s @ t)"
proof -
  have r: "rune_len (take n s @ t) = n" "n \<le> length s"
    using rune_len_take [OF assms(1,2)] by auto
  obtain c cs where s: "s = c # cs" using assms by (cases s) (auto simp: rune_len_def)
  then have "take n s @ t = c # (take (n - 1) cs @ t)" using assms(2) by (cases n) auto
  moreover have "drop (n - 1) (take (n - 1) cs @ t) = t" using r s by simp
  ultimately show ?thesis using r assms by simp
qed

lemma valid_ascii: "byte_of c < 0x80 \<Longrightarrow> valid_utf8 (c # t) = valid_utf8 t"
  by (simp add: rune_len_ascii)

lemma byte_of_char_of: "byte_of (char_of n) = n mod 256"
  by (simp add: byte_of_def)

lemma rune_len2: "byte_of x = 0xC0 + a \<Longrightarrow> 2 \<le> a \<Longrightarrow> a < 32 \<Longrightarrow> is_cont y \<Longrightarrow> rune_len (x # y # t) = 2"
  by (simp add: rune_len_def Let_def)

lemma rune_len3:
  "byte_of x = 0xE0 + a \<Longrightarrow> a < 16 \<Longrightarrow> byte_of y = 0x80 + b \<Longrightarrow> b < 64 \<Longrightarrow> is_cont z \<Longrightarrow>
   (a = 0 \<longrightarrow> 32 \<le> b) \<Longrightarrow> (a = 13 \<longrightarrow> b < 32) \<Longrightarrow> rune_len (x # y # z # t) = 3"
  by (auto simp: rune_len_def is_cont_def Let_def)

lemma rune_len4:
  "byte_of x = 0xF0 + a \<Longrightarrow> a < 5 \<Longrightarrow> byte_of y = 0x80 + b \<Longrightarrow> b < 64 \<Longrightarrow> is_cont z \<Longrightarrow> is_cont u \<Longrightarrow>
   (a = 0 \<longrightarrow> 16 \<le> b) \<Longrightarrow> (a = 4 \<longrightarrow> b < 16) \<Longrightarrow> rune_len (x # y # z # u # t) = 4"
  by (auto simp: rune_len_def is_cont_def Let_def)

lemma cont_char: "n < 64 \<Longrightarrow> is_cont (char_of (0x80 + n)) \<and> byte_of (char_of (0x80 + n)) = 0x80 + n"
  by (simp add: is_cont_def byte_of_char_of)

lemma rune_len_encode:
  assumes "r < 0x110000" and "\<not> (0xD800 \<le> r \<and> r < 0xE000)"
  shows "rune_len (utf8_encode r @ t) = length (utf8_encode r)"
proof -
  have lead: "n < 64 \<Longrightarrow> byte_of (char_of (0xC0 + n)) = 0xC0 + n" for n by (simp add: byte_of_char_of)
  define q where "q = r div 64"
  define p where "p = r div 4096"
  define o' where "o' = r div 262144"
  have "p = q div 64" "o' = p div 64"
    by (simp_all add: p_def q_def o'_def div_mult2_eq [symmetric])
  then have eqs: "r = 64 * q + r mod 64" "q = 64 * p + q mod 64" "p = 64 * o' + p mod 64"
    by (simp_all add: q_def)
  have mods: "r mod 64 < 64" "q mod 64 < 64" "p mod 64 < 64" by simp_all
  consider "r < 0x80" | "0x80 \<le> r" "r < 0x800" | "0x800 \<le> r" "r < 0x10000" | "0x10000 \<le> r"
    by linarith
  then show ?thesis
  proof cases
    case 1
    then show ?thesis by (simp add: utf8_encode_def rune_len_ascii byte_of_char_of)
  next
    case 2
    then have "2 \<le> q" "q < 32" using eqs(1) mods by linarith+
    then show ?thesis
      using 2 rune_len2 [OF lead [of q]] cont_char [of "r mod 64"] by (simp add: utf8_encode_def q_def)
  next
    case 3
    have "p < 16" "p = 0 \<Longrightarrow> 32 \<le> q mod 64" "p = 13 \<Longrightarrow> q mod 64 < 32"
      using 3 assms(2) eqs(1,2) mods by linarith+
    moreover from \<open>p < 16\<close> have "byte_of (char_of (0xE0 + p)) = 0xE0 + p" by (simp add: byte_of_char_of)
    ultimately show ?thesis
      using 3 rune_len3 [of "char_of (0xE0 + p)" p "char_of (0x80 + q mod 64)" "q mod 64"]
        cont_char [of "r mod 64"] cont_char [of "q mod 64"]
      by (simp add: utf8_encode_def p_def q_def)
  next
    case 4
    have "o' < 5" "o' = 0 \<Longrightarrow> 16 \<le> p mod 64" "o' = 4 \<Longrightarrow> p mod 64 < 16"
      using 4 assms(1) eqs mods by linarith+
    moreover from \<open>o' < 5\<close> have "byte_of (char_of (0xF0 + o')) = 0xF0 + o'" by (simp add: byte_of_char_of)
    ultimately show ?thesis
      using 4 rune_len4 [of "char_of (0xF0 + o')" o' "char_of (0x80 + p mod 64)" "p mod 64"]
        cont_char [of "r mod 64"] cont_char [of "q mod 64"] cont_char [of "p mod 64"]
      by (simp add: utf8_encode_def p_def q_def o'_def)
  qed
qed

lemma valid_encode:
  assumes "r < 0x110000" and "\<not> (0xD800 \<le> r \<and> r < 0xE000)" and "valid_utf8 t"
  shows "valid_utf8 (utf8_encode r @ t)"
proof -
  have "utf8_encode r \<noteq> []" by (simp add: utf8_encode_def)
  then show ?thesis
    using valid_rune [OF rune_len_encode [OF assms(1,2), of "[]"] _ assms(3)] by simp
qed

lemma valid_rune_error: "valid_utf8 t \<Longrightarrow> valid_utf8 (rune_error @ t)"
  using rune_len3 [of "CHR 0xEF" 15 "CHR 0xBF" 63 "CHR 0xBD" t]
  by (simp add: rune_error_def is_cont_def byte_of_def)

lemma hex_val_bound: "hex_val c = Some n \<Longrightarrow> n < 16"
  by (auto simp: hex_val_def byte_of_def less_eq_char_def split: if_splits)

lemma hex4_bound: "hex4 s = Some r \<Longrightarrow> r < 0x10000"
  by (auto simp: hex4_def split: list.splits option.splits dest!: hex_val_bound)

lemma valid_unescape:
  assumes "unescape_u s = Some (e, n)" and "valid_utf8 t"
  shows "valid_utf8 (e @ t)"
  using assms valid_rune_error [OF assms(2)]
  by (auto simp: unescape_u_def intro!: valid_encode split: option.splits if_splits list.splits dest!: hex4_bound)

lemma simple_escape_ascii: "simple_escape d = Some e \<Longrightarrow> byte_of e < 0x80"
  by (auto simp: simple_escape_def byte_of_def split: if_splits)

lemma unquote_valid: "unquote s = Some (v, r) \<Longrightarrow> valid_utf8 v"
proof (induction "length s" arbitrary: s v r rule: less_induct)
  case less
  have IH: "valid_utf8 w" if "unquote t = Some (w, r')" "length t < length s" for t w r'
    using less.hyps [OF that(2,1)] .
  obtain c cs where s: "s = c # cs" using less.prems by (cases s) (auto simp: unquote.simps)
  note u = less.prems [unfolded s unquote.simps(2) [of c cs]]
  consider "c = CHR 0x22"
    | d ds e where "cs = d # ds" "simple_escape d = Some e" "c = CHR 0x5C"
    | d ds e n where "cs = d # ds" "unescape_u ds = Some (e, n)" "simple_escape d = None" "d = CHR ''u''" "c = CHR 0x5C"
    | "c \<noteq> CHR 0x22" "c \<noteq> CHR 0x5C" "rune_len (c # cs) = 0"
    | "c \<noteq> CHR 0x22" "c \<noteq> CHR 0x5C" "rune_len (c # cs) \<noteq> 0"
    using u by (auto split: if_splits list.splits option.splits prod.splits)
  then show ?case
  proof cases
    case 1
    then show ?thesis using u by simp
  next
    case (2 d ds e)
    then obtain w where "unquote ds = Some (w, r)" "v = e # w" using u by auto
    then show ?thesis using IH [of ds w r] 2 s simple_escape_ascii valid_ascii by simp
  next
    case (3 d ds e n)
    then obtain w where "unquote (drop n ds) = Some (w, r)" "v = e @ w" using u by auto
    then show ?thesis using IH [of "drop n ds" w r] 3 s valid_unescape by simp
  next
    case 4
    then obtain w where "unquote cs = Some (w, r)" "v = rune_error @ w" using u by (auto split: if_splits)
    then show ?thesis using IH [of cs w r] s valid_rune_error by simp
  next
    case 5
    then obtain w where w: "unquote (drop (rune_len (c # cs) - 1) cs) = Some (w, r)"
      "v = take (rune_len (c # cs)) (c # cs) @ w" using u by (auto simp: Let_def split: if_splits)
    have "valid_utf8 w" using IH [OF w(1)] s by simp
    then show ?thesis unfolding w(2) by (rule valid_rune [OF refl 5(3)])
  qed
qed

section \<open>Tokens and values\<close>

definition token_utf8 :: "token \<Rightarrow> bool" where
  "token_utf8 t = (case t of TStr s \<Rightarrow> valid_utf8 s | _ \<Rightarrow> True)"

lemma punct_utf8: "punct c = Some t \<Longrightarrow> token_utf8 t"
  by (auto simp: punct_def token_utf8_def split: if_splits)

lemma next_token_utf8:
  assumes "next_token c cs = Some (t, r)"
  shows "token_utf8 t"
proof (cases "punct c")
  case (Some u)
  then show ?thesis using assms punct_utf8 by (simp add: next_token_def)
next
  case None
  show ?thesis
  proof (cases "c = CHR 0x22")
    case True
    then obtain v where "unquote cs = Some (v, r)" "t = TStr v" using assms None by (auto simp: next_token_def)
    then show ?thesis using unquote_valid by (simp add: token_utf8_def)
  next
    case False
    then show ?thesis
      using assms None by (auto simp: next_token_def token_utf8_def simp del: prefix_code split: if_splits)
  qed
qed

lemma json_lex_utf8: "json_lex s = Some ts \<Longrightarrow> \<forall>t \<in> set ts. token_utf8 t"
proof (induction s arbitrary: ts rule: json_lex.induct)
  case (2 c cs)
  show ?case
  proof (cases "is_json_space c")
    case True
    then show ?thesis using 2 by simp
  next
    case False
    then obtain t r ts' where "next_token c cs = Some (t, r)" "json_lex r = Some ts'" "ts = t # ts'"
      using 2(3) by (auto split: option.splits)
    then show ?thesis using 2(2) [OF False _ refl] next_token_utf8 by auto
  qed
qed simp

fun json_utf8 :: "json \<Rightarrow> bool"
and elems_utf8 :: "json list \<Rightarrow> bool"
and members_utf8 :: "(string \<times> json) list \<Rightarrow> bool" where
  "json_utf8 JNull = True"
| "json_utf8 (JBool b) = True"
| "json_utf8 (JNum n) = True"
| "json_utf8 (JStr s) = valid_utf8 s"
| "json_utf8 (JArr js) = elems_utf8 js"
| "json_utf8 (JObj ms) = members_utf8 ms"
| "elems_utf8 [] = True"
| "elems_utf8 (j # js) = (json_utf8 j \<and> elems_utf8 js)"
| "members_utf8 [] = True"
| "members_utf8 ((k, j) # ms) = (valid_utf8 k \<and> json_utf8 j \<and> members_utf8 ms)"

lemma elems_utf8_all: "elems_utf8 js \<longleftrightarrow> list_all json_utf8 js"
  by (induction js) auto

lemma members_utf8_all: "members_utf8 ms \<longleftrightarrow> list_all (\<lambda>(k, j). valid_utf8 k \<and> json_utf8 j) ms"
  by (induction ms) auto

definition frame_utf8 :: "frame \<Rightarrow> bool" where
  "frame_utf8 f = (case f of FArr a \<Rightarrow> elems_utf8 a | FObj a k \<Rightarrow> members_utf8 a \<and> valid_utf8 k)"

definition mode_utf8 :: "pmode \<Rightarrow> bool" where
  "mode_utf8 m = (case m of PColon k \<Rightarrow> valid_utf8 k | PEnd j \<Rightarrow> json_utf8 j | _ \<Rightarrow> True)"

definition state_utf8 :: "pstate \<Rightarrow> bool" where
  "state_utf8 s = (mode_utf8 (fst s) \<and> list_all frame_utf8 (snd s))"

lemmas utf8_defs = state_utf8_def mode_utf8_def frame_utf8_def token_utf8_def push_frame_def
  elems_utf8_all members_utf8_all

lemma begin_value_utf8:
  "begin_value t st = Some s \<Longrightarrow> token_utf8 t \<Longrightarrow> list_all frame_utf8 st \<Longrightarrow> state_utf8 s"
  by (cases t) (auto simp: utf8_defs split: if_splits)

lemma list_all_tl: "list_all P xs \<Longrightarrow> list_all P (tl xs)"
  by (cases xs) auto

lemma parse_step_utf8:
  assumes "parse_step t s = Some s'" and "token_utf8 t" and "state_utf8 s"
  shows "state_utf8 s'"
proof -
  obtain m st where s: "s = (m, st)" by fastforce
  have st: "list_all frame_utf8 st" using assms(3) by (simp add: s state_utf8_def)
  note bv = begin_value_utf8 [OF _ assms(2) st]
  show ?thesis
    using assms st list_all_tl [OF st]
    by (cases m)
       (auto simp: s begin_key_def end_value_def utf8_defs dest!: bv [unfolded utf8_defs]
         split: if_splits token.splits list.splits frame.splits)
qed

lemma parse_run_utf8:
  "parse_run ts s = Some s' \<Longrightarrow> \<forall>t \<in> set ts. token_utf8 t \<Longrightarrow> state_utf8 s \<Longrightarrow> state_utf8 s'"
  by (induction ts s rule: parse_run.induct) (auto split: option.splits dest: parse_step_utf8)

lemma json_parse_utf8: "json_parse s = Some j \<Longrightarrow> json_utf8 j"
proof -
  assume "json_parse s = Some j"
  then obtain ts where ts: "json_lex s = Some ts" "parse_run ts (PValue, []) = Some (PEnd j, [])"
    by (auto simp: json_parse_def split: option.splits pmode.splits list.splits prod.splits)
  have "state_utf8 (PEnd j, [])"
    by (rule parse_run_utf8 [OF ts(2) json_lex_utf8 [OF ts(1)]]) (simp add: state_utf8_def mode_utf8_def)
  then show ?thesis by (simp add: state_utf8_def mode_utf8_def)
qed

end
