(* ===== verification/EventTypes.thy ===== *)
theory EventTypes
  imports KeysProps FloatText JsonTypes
begin

text \<open>
  The type invariant of events: whatever bytes a client sends, an event that the decoder accepts has
  valid UTF-8 in every string, a double for its total and metadata that is a map, and enrichment from
  a decoded key context keeps it so.  Every such event has a message, and the message is lossless.
\<close>

definition event_typed :: "UsageEvent \<Rightarrow> bool" where
  "event_typed e \<longleftrightarrow> list_all valid_utf8 (event_strings e) \<and> sorted_wrt (<) (map fst (Metadata e))
     \<and> is_double (TotalTokens e)"

definition kc_typed :: "KeyContext \<Rightarrow> bool" where
  "kc_typed kc = list_all valid_utf8 [kc_KeyID kc, kc_OrgID kc, kc_CustomerID kc, kc_SourceMode kc, kc_Status kc]"

section \<open>Decoders\<close>

lemma dec_string_utf8: "json_utf8 j \<Longrightarrow> valid_utf8 old \<Longrightarrow> valid_utf8 (fst (dec_string j old))"
  by (cases j) (simp_all add: dec_string_def)

lemma dec_float64_double: "is_double old \<Longrightarrow> is_double (fst (dec_float64 j old))"
  by (cases j) (auto simp: dec_float64_def ParseFloat_literal_def dest: to_float64_double split: option.split)

lemma map_put_keys: "set (map_put k v m) \<subseteq> insert (k, v) (set m)"
  by (induction k v m rule: map_put.induct) auto

lemma map_put_key_set: "fst ` set (map_put k v m) = insert k (fst ` set m)"
  by (induction k v m rule: map_put.induct) auto

lemma map_put_sorted:
  "sorted_wrt (<) (map fst m) \<Longrightarrow> sorted_wrt (<) (map fst (map_put k v m))"
proof (induction k v m rule: map_put.induct)
  case (2 k v k' v' m)
  have "fst ` set (map_put k v m) = insert k (fst ` set m)" by (rule map_put_key_set)
  then show ?case using 2 by (auto simp: image_iff dest: less_trans)
qed simp

definition go_map_typed :: "go_map \<Rightarrow> bool" where
  "go_map_typed m = (list_all (\<lambda>(k, v). valid_utf8 k \<and> valid_utf8 v) m \<and> sorted_wrt (<) (map fst m))"

lemma go_map_typed_put: "go_map_typed m \<Longrightarrow> valid_utf8 k \<Longrightarrow> valid_utf8 v \<Longrightarrow> go_map_typed (map_put k v m)"
  using map_put_keys [of k v m] by (auto simp: go_map_typed_def list_all_iff map_put_sorted)

lemma dec_entry_typed:
  "valid_utf8 k \<Longrightarrow> json_utf8 j \<Longrightarrow> go_map_typed (fst acc) \<Longrightarrow> go_map_typed (fst (dec_entry acc (k, j)))"
  using dec_string_utf8 [of j "[]"]
  by (simp add: dec_entry_def go_map_typed_put split_beta Let_def)

lemma dec_entries_typed:
  "members_utf8 ms \<Longrightarrow> go_map_typed (fst acc) \<Longrightarrow> go_map_typed (fst (foldl dec_entry acc ms))"
proof (induction ms arbitrary: acc)
  case (Cons m ms)
  obtain k j where m: "m = (k, j)" by fastforce
  show ?case using Cons.IH [of "dec_entry acc m"] Cons.prems dec_entry_typed [of k j acc] by (simp add: m)
qed simp

lemma dec_string_map_typed: "json_utf8 j \<Longrightarrow> go_map_typed old \<Longrightarrow> go_map_typed (fst (dec_string_map j old))"
proof (cases j)
  case JNull
  then show ?thesis by (simp add: dec_string_map_def go_map_typed_def)
qed (simp_all add: dec_string_map_def dec_entries_typed)

lemma event_typed_iff:
  "event_typed e \<longleftrightarrow> list_all valid_utf8 [EventID e, OrgID e, CustomerID e, EndUserID e, SessionID e,
     SourceMode e, KeyID e, EventType e, Model e, Unit e, Latency e, Cost e, Status e, Service e]
     \<and> go_map_typed (Metadata e) \<and> is_double (TotalTokens e)"
proof -
  have "list_all valid_utf8 (map fst m @ map snd m) = list_all (\<lambda>(k, v). valid_utf8 k \<and> valid_utf8 v) m" for m
    by (induction m) auto
  then show ?thesis by (auto simp: event_typed_def event_strings_def go_map_typed_def)
qed

section \<open>Structs\<close>

text \<open>A decoder of a struct keeps what the decoders of its fields keep.\<close>

lemma decode_object_keeps:
  assumes keeps: "\<And>n f j v. (n, f) \<in> set fs \<Longrightarrow> json_utf8 j \<Longrightarrow> P v \<Longrightarrow> P (fst (f j v))"
    and "json_utf8 j" and "P v"
  shows "P (fst (decode_object fs j v))"
proof (cases j)
  case (JObj ms)
  have "P (fst (foldl (decode_member fs) acc ms))" if "members_utf8 ms" "P (fst acc)" for acc ms
    using that
  proof (induction ms arbitrary: acc)
    case (Cons m ms)
    obtain k j' where m: "m = (k, j')" by fastforce
    have "P (fst (decode_member fs acc m))"
    proof (cases "find (\<lambda>(n, _). fold_name n = fold_name k) fs")
      case (Some nf)
      moreover obtain n f where nf: "nf = (n, f)" by fastforce
      ultimately have "(n, f) \<in> set fs" by (auto simp: find_Some_iff in_set_conv_nth)
      from keeps [OF this, of j' "fst acc"] show ?thesis
        using Some nf m Cons.prems by (simp add: decode_member_def split_beta Let_def)
    qed (use m Cons.prems in \<open>simp add: decode_member_def\<close>)
    then show ?case using Cons.IH Cons.prems m by simp
  qed simp
  then show ?thesis using assms(2,3) JObj by (simp add: decode_object_def)
qed (use assms in \<open>simp_all add: decode_object_def\<close>)

lemma event_fields_typed:
  assumes "(n, f) \<in> set event_fields" and "json_utf8 j" and "event_typed e"
  shows "event_typed (fst (f j e))"
proof -
  note e = assms(3) [unfolded event_typed_iff, simplified]
  show ?thesis
    using assms(1) e unfolding event_fields_def list.set insert_iff prod.inject empty_iff
    by (elim disjE conjE FalseE)
       (simp_all add: on_field_def event_typed_iff split_beta Let_def dec_string_utf8 [OF assms(2)]
         dec_string_map_typed [OF assms(2)] dec_float64_double)
qed

lemma decode_event_typed: "json_utf8 j \<Longrightarrow> event_typed e \<Longrightarrow> event_typed (fst (decode_event j e))"
  unfolding decode_event_def by (rule decode_object_keeps) (rule event_fields_typed)

lemma zero_event_typed: "event_typed zero_event"
  by (simp add: event_typed_iff go_map_typed_def zero_event_def is_double_def to_float64_def)

lemma unmarshal_event_typed:
  assumes "unmarshal_event s = Inr e"
  shows "event_typed e"
proof -
  obtain j where "json_parse s = Some j" "decode_event j zero_event = (e, True)"
    using assms by (auto simp: unmarshal_event_def unmarshal_def split: option.splits prod.splits if_splits)
  then show ?thesis using decode_event_typed [OF json_parse_utf8 zero_event_typed, of s j] by simp
qed

lemma unmarshal_key_context_typed:
  assumes "unmarshal_key_context s = Inr kc"
  shows "kc_typed kc"
proof -
  obtain j where j: "json_parse s = Some j" "decode_object key_context_fields j zero_key_context = (kc, True)"
    using assms by (auto simp: unmarshal_key_context_def unmarshal_def split: option.splits prod.splits if_splits)
  have "kc_typed (fst (decode_object key_context_fields j zero_key_context))"
  proof (rule decode_object_keeps)
    fix n f j' and v :: KeyContext
    assume "(n, f) \<in> set key_context_fields" "json_utf8 j'" "kc_typed v"
    then show "kc_typed (fst (f j' v))"
      unfolding key_context_fields_def list.set insert_iff prod.inject empty_iff
      by (elim disjE conjE FalseE) (simp_all add: on_field_def kc_typed_def split_beta Let_def dec_string_utf8)
  qed (simp_all add: json_parse_utf8 [OF j(1)] kc_typed_def zero_key_context_def)
  then show ?thesis using j by simp
qed

section \<open>Batches and enrichment\<close>

lemma decode_elems_typed:
  "elems_utf8 js \<Longrightarrow> list_all event_typed b \<Longrightarrow> list_all event_typed (fst (decode_elems js b))"
proof (induction js arbitrary: b)
  case (Cons j js)
  have "event_typed (case b of [] \<Rightarrow> zero_event | e # _ \<Rightarrow> e)"
    using Cons.prems(2) by (cases b) (simp_all add: zero_event_typed)
  then show ?case
    using Cons.IH [of "tl b"] Cons.prems decode_event_typed [of j] list_all_tl [of event_typed b]
    by (simp add: split_beta Let_def)
qed simp

definition slice_typed :: "slice \<Rightarrow> bool" where
  "slice_typed s = list_all event_typed (sl_backing s)"

lemma decode_slice_typed:
  assumes "json_utf8 j" and "slice_typed s"
  shows "slice_typed (fst (decode_slice j s))"
proof (cases j)
  case (JArr js)
  then show ?thesis
    using assms decode_elems_typed [of js "sl_backing s"]
    by (cases js) (auto simp: decode_slice_def slice_typed_def nil_slice_def Let_def split_beta)
qed (use assms in \<open>simp_all add: decode_slice_def slice_typed_def nil_slice_def\<close>)

lemma slice_elems_typed: "slice_typed s \<Longrightarrow> list_all event_typed (slice_elems s)"
  by (auto simp: slice_typed_def slice_elems_def list_all_iff dest: in_set_takeD)

lemma unmarshal_slice_typed:
  assumes "map_sum id slice_elems (unmarshal dec nil_slice s) = Inr es"
    and "\<And>j v. json_utf8 j \<Longrightarrow> slice_typed v \<Longrightarrow> slice_typed (fst (dec j v))"
  shows "list_all event_typed es"
proof -
  obtain j v where j: "json_parse s = Some j" "dec j nil_slice = (v, True)" "es = slice_elems v"
    using assms(1) by (auto simp: unmarshal_def split: option.splits prod.splits if_splits)
  have "slice_typed v"
    using assms(2) [OF json_parse_utf8 [OF j(1)], of nil_slice] j(2) by (simp add: slice_typed_def nil_slice_def)
  then show ?thesis using slice_elems_typed j(3) by simp
qed

lemma ParseIngestBatch_typed:
  assumes "ParseIngestBatch s = Inr es"
  shows "list_all event_typed es"
proof -
  have w: "slice_typed (fst (decode_object [(''events'', decode_slice)] j v))" if "json_utf8 j" "slice_typed v" for j v
    using that by (intro decode_object_keeps [where P = slice_typed]) (auto intro: decode_slice_typed)
  consider "unmarshal_wrapped s = Inr es" | "unmarshal_bare s = Inr es"
    using assms by (auto simp: ParseIngestBatch_def split: sum.splits list.splits)
  then show ?thesis
    unfolding unmarshal_wrapped_def unmarshal_bare_def
  proof cases
    case 1
    then show ?thesis by (rule unmarshal_slice_typed) (rule w)
  next
    case 2
    then show ?thesis by (rule unmarshal_slice_typed) (rule decode_slice_typed)
  qed
qed

lemma itoa_ascii: "valid_utf8 (''evt_'' @ itoa i)"
proof (rule ascii_utf8)
  have "is_digit_char c \<Longrightarrow> byte_of c < 128" for c
    by (auto simp: is_digit_char_def less_eq_char_def byte_of_def)
  then have "list_all (\<lambda>c. byte_of c < 128) (show_nat n)" for n
    using show_nat_digits [of n] by (auto simp: list_all_iff)
  then show "list_all (\<lambda>c. byte_of c < 128) (''evt_'' @ itoa i)"
    by (simp add: itoa_def byte_of_def)
qed

lemma newEventID_utf8: "valid_utf8 (newEventID ent)"
  using itoa_ascii [of "sint (now_nano ent)"] uuid_v4_utf8
  by (simp add: newEventID_def split: option.splits del: valid_utf8.simps(2) append_Cons)

lemma Enrich_typed:
  assumes "event_typed e" and "kc_typed kc"
  shows "event_typed (EnrichFromKeyContext ent kc e)"
  using assms newEventID_utf8 [of ent]
  by (simp add: event_typed_iff kc_typed_def EnrichFromKeyContext_def Let_def del: valid_utf8.simps(2))

text \<open>A well-typed event has a message, and the message is read back as the event.\<close>

lemma typed_wf: "event_typed e \<Longrightarrow> event_wf e"
  using format_float_total [of "TotalTokens e"] by (auto simp: event_typed_def event_wf_def)

lemma typed_marshal:
  assumes "event_typed e"
  obtains msg where "marshal_event e = Some msg" "unmarshal_event msg = Inr e"
  using marshal_event_total [OF typed_wf [OF assms]] unmarshal_marshal_event [OF typed_wf [OF assms]] by metis

end
