(* ===== verification/Pipeline.thy ===== *)
theory Pipeline
  imports Programs EventTypes
begin

text \<open>
  The way of an event through the programs: a key created by keys-api authenticates a request at
  ingest-api, the accepted event is published, and what the analytics worker decodes from the message
  and stores is that event.  First, exactly which requests the single-event endpoint accepts.
\<close>

section \<open>Which requests are accepted\<close>

text \<open>The event of a request that passes every check before the idempotency key.\<close>

definition request_event :: "entropy \<Rightarrow> request \<Rightarrow> UsageEvent option" where
  "request_event ent r =
     (if r_Method r = ''POST'' \<and> r_Header r ''Content-Type'' \<in> {[], ''application/json''}
         \<and> ReadAll_limited DefaultMaxBodySize r \<noteq> None
      then (case event_of_request ent r of
              Some e \<Rightarrow> if Validate e = None then Some e else None
            | None \<Rightarrow> None)
      else None)"

text \<open>The services admit an event: its key is free and its organisation and end user are known.\<close>

definition admitted :: "bool \<Rightarrow> (string \<Rightarrow> string option) \<Rightarrow> database \<Rightarrow> UsageEvent \<Rightarrow> bool" where
  "admitted pg m d e \<longleftrightarrow>
     m (event_key e) = None
     \<and> (m (org_key (OrgID e)) \<noteq> None \<or> pg \<and> active_org d (OrgID e))
     \<and> (EndUserID e = [] \<or> m (eu_key (OrgID e) (EndUserID e)) \<noteq> None
          \<or> pg \<and> member_end_user d (OrgID e) (EndUserID e))"

text \<open>The total of an event that was decoded is a double, so that the event has a message.\<close>

lemma request_event_total:
  assumes "request_event ent r = Some e"
  shows "is_double (TotalTokens e)"
proof -
  obtain e0 kc where "unmarshal_event (r_Body r) = Inr e0" "e = EnrichFromKeyContext ent kc e0"
    using assms by (auto simp: request_event_def event_of_request_def split: if_splits option.splits sum.splits)
  then show ?thesis using unmarshal_event_typed by (simp add: event_typed_def EnrichFromKeyContext_def Let_def)
qed

lemma double_marshals: "is_double (TotalTokens e) \<Longrightarrow> \<exists>msg. marshal_event e = Some msg"
  using format_float_total by (auto simp: marshal_event_def)

lemma HandleSingleEvent_request:
  "HandleSingleEvent sv h env ent r w =
     (case request_event ent r of
        Some e \<Rightarrow> ingest_event sv h env e w
      | None \<Rightarrow> (fst (HandleSingleEvent sv h env ent r w), w))"
  "request_event ent r = None \<Longrightarrow> status (fst (HandleSingleEvent sv h env ent r w)) \<noteq> 202"
  by (auto simp: HandleSingleEvent_def request_event_def event_of_request_def ReadAll_limited_def GetKeyContext_def
      Let_def writeError_def json_response_def split: if_splits option.splits sum.splits)

context backend_up
begin

lemma check_end_user_iff:
  "fst (check_end_user sv h e w) = None \<longleftrightarrow> EndUserID e = [] \<or> kv w (eu_key (OrgID e) (EndUserID e)) \<noteq> None
     \<or> h_PG h \<and> member_end_user (db w) (OrgID e) (EndUserID e)"
  by (simp add: check_end_user_def verifyEndUser_iff)

lemma admit_event_iff:
  assumes "is_double (TotalTokens e)" and "kv w (event_key e) = Some v"
    and "admit_event sv h (event_key e) e w = (resp, w')"
  shows "status resp = 202 \<longleftrightarrow> admitted (h_PG h) ((kv w)(event_key e := None)) (db w) e"
proof -
  obtain o' w2 where v: "verifyOrg sv h (OrgID e) w = (o', w2)" by fastforce
  obtain u w3 where u: "check_end_user sv h e w2 = (u, w3)" by fastforce
  have o': "o' = None \<longleftrightarrow> kv w (org_key (OrgID e)) \<noteq> None \<or> h_PG h \<and> active_org (db w) (OrgID e)"
    using verifyOrg_iff [of h "OrgID e" w] v by simp
  have "kv w2 (eu_key (OrgID e) (EndUserID e)) = kv w (eu_key (OrgID e) (EndUserID e))" "db w2 = db w"
    using verifyOrg_effect(1) [OF v] by auto
  then have u': "u = None \<longleftrightarrow> EndUserID e = [] \<or> kv w (eu_key (OrgID e) (EndUserID e)) \<noteq> None
      \<or> h_PG h \<and> member_end_user (db w) (OrgID e) (EndUserID e)"
    using check_end_user_iff [of h e w2] u by simp
  show ?thesis
    using assms(3) v u o' u' double_marshals [OF assms(1)]
    by (auto simp: admit_event_def admitted_def event_key_def accepted_response_def json_response_def
        writeError_def split: option.splits)
qed

lemma ingest_event_iff:
  assumes "is_double (TotalTokens e)"
  shows "status (fst (ingest_event sv h env e w)) = 202 \<longleftrightarrow> admitted (h_PG h) (kv w) (db w) e"
proof -
  define ttl where "ttl = getEnvDuration env ''IDEMPOTENCY_TTL'' DefaultIdempotencyTTL"
  obtain b w1 where s: "redis_SetNX sv (event_key e) ''1'' ttl w = (Inr b, w1)" using setnx_up by blast
  note sx = setnx_ok [OF s] setnx_frame [OF s]
  show ?thesis
  proof (cases b)
    case True
    then have "ingest_event sv h env e w = admit_event sv h (event_key e) e w1"
      using s by (simp add: ingest_event_def ttl_def event_key_def)
    moreover obtain resp w' where a: "admit_event sv h (event_key e) e w1 = (resp, w')" by fastforce
    moreover have "kv w1 = (kv w)(event_key e \<mapsto> ''1'')" "kv w (event_key e) = None" using sx True by auto
    moreover from this have "(kv w1)(event_key e := None) = kv w" by auto
    ultimately show ?thesis
      using admit_event_iff [OF assms _ a] sx by simp
  next
    case False
    then show ?thesis
      using s sx by (simp add: ingest_event_def ttl_def event_key_def admitted_def writeError_def json_response_def)
  qed
qed

lemma ingest_event_accepts:
  assumes "publisher_ok sv h" and "is_double (TotalTokens e)" and "admitted (h_PG h) (kv w) (db w) e"
  obtains msg w' where "ingest_event sv h env e w = (accepted_response e, w')" "marshal_event e = Some msg"
    "sent w' = sent w @ published h msg (OrgID e)" "kv w' (event_key e) \<noteq> None"
proof -
  obtain resp w' where i: "ingest_event sv h env e w = (resp, w')" by fastforce
  then have st: "status resp = 202" using ingest_event_iff [OF assms(2), of h env w] assms(3) by simp
  from assms(1) i show thesis
  proof (cases rule: ingest_event_cases)
    case (accepted msg)
    then show thesis using that i by (simp add: same_uncached_def event_key_def)
  qed (use st in auto)
qed

end

section \<open>Property\<close>



section \<open>From the key to the stored row\<close>

lemma events_path: "cleanPath ''/v1/events'' = ''/v1/events''" by code_simp

text \<open>A request for the single-event endpoint with a key that authenticates reaches the handler.\<close>

lemma ingest_api_event:
  assumes "r_Path r = ''/v1/events''" and "r_Header r ''X-API-Key'' = raw" and "raw \<noteq> []"
    and "ValidateAPIKey sv raw w = (Inr kc, w1)"
    and "HandleSingleEvent sv h (in_env ie) (in_ent ie) (r\<lparr>r_KeyContext := Some kc\<rparr>) w1 = (resp, w2)"
  shows "ingest_api sv h ie r w = (Served (Reply resp), w2)"
proof -
  have o': "mux_route [(''/health'', a), (''/ready'', b), (''/v1/'', c)] r = Handler c" for a b c :: "request \<Rightarrow> 'a \<Rightarrow> served \<times> 'a"
    by (simp add: mux_route_def mux_handler_def subtree_def assms(1) events_path)
  have i: "mux_route (ingest_routes sv h ie) (r\<lparr>r_KeyContext := Some kc\<rparr>) =
      Handler (plain (\<lambda>r w. map_prod Reply id (HandleSingleEvent sv h (in_env ie) (in_ent ie) r w)))"
    by (simp add: mux_route_def mux_handler_def ingest_routes_def assms(1) events_path)
  show ?thesis
    by (simp add: ingest_api_def serve_mux_def o' i plain_def AuthMiddleware_def assms as_reply_def)
qed

text \<open>Whatever message the service publishes for an event that a client sent decodes to that event.\<close>

lemma request_event_typed:
  assumes "request_event ent r = Some e" and "r_KeyContext r = Some kc" and "kc_typed kc"
  shows "event_typed e" and "OrgID e = kc_OrgID kc" and "KeyID e = kc_KeyID kc" and "Validate e = None"
proof -
  obtain e0 where e0: "unmarshal_event (r_Body r) = Inr e0" "e = EnrichFromKeyContext ent kc e0" "Validate e = None"
    using assms(1,2)
    by (auto simp: request_event_def event_of_request_def split: if_splits option.splits sum.splits)
  show "event_typed e" unfolding e0(2) by (rule Enrich_typed [OF unmarshal_event_typed [OF e0(1)] assms(3)])
  show "OrgID e = kc_OrgID kc" "KeyID e = kc_KeyID kc" "Validate e = None"
    using e0(3) by (simp_all add: e0(2) EnrichFromKeyContext_def Let_def)
qed

lemma typed_message: "event_typed e \<Longrightarrow> marshal_event e = Some msg \<Longrightarrow> DeserializeEvent msg = Inr e"
  by (simp add: DeserializeEvent_def unmarshal_marshal_event [OF typed_wf])

lemma typed_message_exists:
  assumes "event_typed e"
  obtains msg where "marshal_event e = Some msg" "DeserializeEvent msg = Inr e"
  using typed_marshal [OF assms] typed_message [OF assms] by metis

text \<open>Events handed to an idle worker can always be stored next, after what was waiting before them.\<close>

lemma worker_stores:
  assumes "wk_loop k = None" and "\<not> wk_tick k" and "es \<noteq> []"
  shows "\<exists>k'. worker_reach InsertEventBatch k k' \<and> wk_added k' = wk_added k @ es
    \<and> wk_stored k' = wk_stored k @ map defaultEvent (currentBatch (wk_svc k) @ es) \<and> currentBatch (wk_svc k') = []"
proof -
  let ?b = "currentBatch (wk_svc k) @ es"
  obtain full s1 where a: "add_locked es (wk_svc k) = (full, s1)" by fastforce
  then have s1: "currentBatch s1 = ?b" by (auto simp: add_locked_def)
  define k1 where "k1 = k\<lparr>wk_svc := s1, wk_adders := wk_adders k + (if full then 1 else 0), wk_added := wk_added k @ es\<rparr>"
  define k2 where "k2 = k1\<lparr>wk_tick := True\<rparr>"
  define k3 where "k3 = k2\<lparr>wk_svc := signal_flush s1, wk_tick := False\<rparr>"
  define k4 where "k4 = k3\<lparr>wk_svc := s1\<lparr>currentBatch := [], flushCh := False\<rparr>, wk_loop := Some ?b, wk_requeued := False\<rparr>"
  obtain wr' where ins: "InsertEventBatch ?b (wk_writer k4) = (None, map defaultEvent ?b, wr')"
    using assms(3) by (simp add: InsertEventBatch_def)
  define k5 where "k5 = k4\<lparr>wk_writer := wr', wk_loop := None, wk_stored := wk_stored k4 @ map defaultEvent ?b\<rparr>"
  note ks = k4_def k3_def k2_def k1_def
  have "worker_reach InsertEventBatch k k5"
  proof (rule reach_step [OF reach_step [OF reach_step [OF reach_step [OF reach_step [OF reach_init]]]]])
    show "worker_step InsertEventBatch k k1" unfolding k1_def by (rule ws_add [OF assms(3) a])
    show "worker_step InsertEventBatch k1 k2"
      unfolding k2_def by (rule ws_tick) (simp_all add: k1_def s1 assms)
    show "worker_step InsertEventBatch k2 k3"
      using ws_tick_signal [of k2 InsertEventBatch] by (simp add: k3_def k2_def k1_def)
    show "worker_step InsertEventBatch k3 k4"
      using ws_flush [of k3 ?b "(signal_flush s1)\<lparr>currentBatch := []\<rparr>" InsertEventBatch] assms
      by (simp add: ks flush_swap_def signal_flush_def s1)
    show "worker_step InsertEventBatch k4 k5"
      unfolding k5_def by (rule ws_loop_ok [where ins = InsertEventBatch and batch = ?b]) (simp add: k4_def, rule ins)
  qed
  then show ?thesis by (intro exI [of _ k5]) (simp add: k5_def ks)
qed

text \<open>
  C3.  From the key to the stored row.  While no command fails and the publisher is the Kafka topic:
  let a key be created for an organisation and customer, and let a request with that key arrive at
  the ingest server at any later moment at which the key's Redis entry is still there, carrying an
  event that passes the checks.  Then the server answers 202 with the event's id, publishes one
  message, under the organisation the key was created for; the worker decodes that message to exactly
  the enriched event; and an idle worker that receives it can store it, with the writer's defaults,
  after whatever was waiting before.
\<close>

theorem event_pipeline:
  assumes "backend_up sv kv bf db sent" and "h_Publish h = Some (kafka_publish sv)"
    and "CreateKey sv ks kent req w0 = (Inr p, w1)"
    and "valid_utf8 (kr_OrgID req)" and "valid_utf8 (kr_CustomerID req)"
    and "kv w (apikey_key (kp_RawKey p)) = kv w1 (apikey_key (kp_RawKey p))"
    and "r_Path r = ''/v1/events''" and "r_Header r ''X-API-Key'' = kp_RawKey p"
    and "request_event (in_ent ie) (r\<lparr>r_KeyContext := Some (created_context p)\<rparr>) = Some e"
    and "admitted (h_PG h) (kv w) (db w) e"
    and "wk_loop k = None" and "\<not> wk_tick k"
  shows "\<exists>msg w' k'. ingest_api sv h ie r w = (Served (Reply (accepted_response e)), w')
    \<and> sent w' = sent w @ [(msg, kr_OrgID req)] \<and> DeserializeEvent msg = Inr e
    \<and> OrgID e = kr_OrgID req \<and> KeyID e = kp_ID p
    \<and> worker_reach InsertEventBatch k k' \<and> wk_added k' = wk_added k @ [e]
    \<and> wk_stored k' = wk_stored k @ map defaultEvent (currentBatch (wk_svc k)) @ [defaultEvent e]"
proof -
  let ?r = "r\<lparr>r_KeyContext := Some (created_context p)\<rparr>"
  obtain b where f: "request_error req = None" "kp_ID p = newUUID kent" "kp_OrgID p = kr_OrgID req"
    "kp_CustomerID p = kr_CustomerID req" "kp_SourceMode p = effective_mode req" "kp_RawKey p = ''sk-live-'' @ hex_encode b"
    using CreateKey_success [OF assms(3)] by metis
  obtain w2 where v: "ValidateAPIKey sv (kp_RawKey p) w = (Inr (created_context p), w2)"
    using backend_up.created_key_authenticates [OF assms(1,3-6)] by blast
  have bk: "backend sv kv bf db sent" using assms(1) by (simp add: backend_up_def)
  note fr = backend.ValidateAPIKey_frame [OF bk v]
  have "kc_typed (created_context p)"
    using f assms(4,5) effective_mode_utf8 [OF f(1)] uuid_v4_utf8 [of "ke_rand16 kent"]
    by (simp add: kc_typed_def created_context_def newUUID_def KeyStatusActive_def byte_of_def rune_len_def)
  then have e: "event_typed e" "OrgID e = kr_OrgID req" "KeyID e = kp_ID p"
    using request_event_typed [OF assms(9)] f by (simp_all add: created_context_def)
  have "publisher_ok sv h" "is_double (TotalTokens e)" "admitted (h_PG h) (kv w2) (db w2) e"
    using assms(2,10) fr request_event_total [OF assms(9)] by (simp_all add: publisher_ok_def)
  from backend_up.ingest_event_accepts [OF assms(1) this] obtain msg w' where i:
    "ingest_event sv h (in_env ie) e w2 = (accepted_response e, w')" "marshal_event e = Some msg"
    "sent w' = sent w2 @ published h msg (OrgID e)" by metis
  have "HandleSingleEvent sv h (in_env ie) (in_ent ie) ?r w2 = (accepted_response e, w')"
    using HandleSingleEvent_request(1) [of sv h "in_env ie" "in_ent ie" ?r w2] assms(9) i(1) by simp
  from ingest_api_event [OF assms(7,8) _ v this]
  have "ingest_api sv h ie r w = (Served (Reply (accepted_response e)), w')" using f(6) by simp
  then show ?thesis
    using typed_message [OF e(1) i(2)] i(3) fr assms(2) e worker_stores [OF assms(11,12), of "[e]"]
    by (auto simp: published_def)
qed

definition demo_created :: "KeyResponse \<Rightarrow> request" where
  "demo_created p = demo_request (kp_RawKey p) demo_body"

lemma demo_pipeline:
  assumes "kp_OrgID p = ''acme''"
  defines "e \<equiv> EnrichFromKeyContext demo_entropy (created_context p) demo_event"
  shows "request_event demo_entropy ((demo_created p)\<lparr>r_KeyContext := Some (created_context p)\<rparr>) = Some e"
    and "OrgID e = ''acme''" and "EventID e = ''e1''" and "EndUserID e = []"
proof -
  have "Validate e = None"
    unfolding e_def Enrich_Validate by (simp add: Validate_def demo_event_def zero_event_def)
  then show "request_event demo_entropy ((demo_created p)\<lparr>r_KeyContext := Some (created_context p)\<rparr>) = Some e"
    using demo_body_short
    by (simp add: request_event_def demo_created_def demo_request_def ReadAll_limited_def event_of_request_def
        demo_unmarshal e_def)
  show "OrgID e = ''acme''" "EventID e = ''e1''" "EndUserID e = []"
    using assms(1) by (simp_all add: e_def created_context_def demo_event_def zero_event_def Enrich_simps)
qed

theorem event_pipeline_witness:
  "\<exists>p w1 e msg w' k'.
     CreateKey (ref_services False) (NewService True) demo_key_entropy demo_key_request demo_org_world = (Inr p, w1)
     \<and> ingest_api (ref_services False) (demo_handler False) demo_ingest_env (demo_created p) w1
         = (Served (Reply (accepted_response e)), w')
     \<and> rw_sent w' = rw_sent w1 @ [(msg, ''acme'')] \<and> DeserializeEvent msg = Inr e
     \<and> worker_reach InsertEventBatch (worker_init demo_service demo_writer) k' \<and> wk_stored k' = [defaultEvent e]"
proof -
  obtain p w1 where c: "CreateKey (ref_services False) (NewService True) demo_key_entropy demo_key_request demo_org_world
      = (Inr p, w1)" "kp_OrgID p = ''acme''"
    by (simp add: CreateKey_def demo_key_request_ok generateKey_eq demo_key_entropy_def Let_def)
       (simp add: demo_key_request_def zero_key_request_def)
  define e where "e = EnrichFromKeyContext demo_entropy (created_context p) demo_event"
  note d = demo_pipeline [OF c(2), folded e_def]
  have k: "rw_kv w1 = (rw_kv demo_org_world)(apikey_key (kp_RawKey p) \<mapsto> the (rw_kv w1 (apikey_key (kp_RawKey p))))"
    using ref_up.CreateKey_stores(1) [OF c(1)] by simp
  have a: "admitted (h_PG (demo_handler False)) (rw_kv w1) (rw_db w1) e"
    unfolding admitted_def event_key_def d(2-4)
    by (subst (1 2) k) (simp add: demo_org_world_def empty_world_def apikey_key_def org_key_def idem_key_def)
  have h: "h_Publish (demo_handler False) = Some (kafka_publish (ref_services False))"
    by (simp add: demo_handler_def NewIngestHandler_def)
  have q: "r_Path (demo_created p) = ''/v1/events''" "r_Header (demo_created p) ''X-API-Key'' = kp_RawKey p"
    by (simp_all add: demo_created_def demo_request_def)
  have r: "request_event (in_ent demo_ingest_env) ((demo_created p)\<lparr>r_KeyContext := Some (created_context p)\<rparr>) = Some e"
    using d(1) by (simp add: demo_ingest_env_def)
  have i: "wk_loop (worker_init demo_service demo_writer) = None" "\<not> wk_tick (worker_init demo_service demo_writer)"
    by (simp_all add: worker_init_def)
  from event_pipeline [OF ref_up.backend_up_axioms h c(1) demo_key_utf8 refl q r a i] c(1)
  show ?thesis
    by (auto simp: worker_init_def demo_service_def demo_key_request_def zero_key_request_def)
qed

section \<open>Types\<close>





section \<open>Keys that collide\<close>

text \<open>The parts of the keys are joined by colons and not escaped.\<close>

lemma colon_keys:
  "idem_key (a @ '':'' @ b) c = idem_key a (b @ '':'' @ c)"
  "org_key (a @ '':enduser:'' @ u) = eu_key a u"
  by (simp_all add: idem_key_def org_key_def eu_key_def)

context backend_up
begin

lemma taken_key_duplicate:
  assumes "kv w (event_key e) \<noteq> None"
  shows "fst (ingest_event sv h env e w)
    = writeError 409 ''DUPLICATE_EVENT'' (''event '' @ EventID e @ '' already processed'')"
proof -
  obtain b w1 where s: "redis_SetNX sv (event_key e) ''1'' (getEnvDuration env ''IDEMPOTENCY_TTL'' DefaultIdempotencyTTL) w
      = (Inr b, w1)" using setnx_up by blast
  then have "\<not> b" using setnx_ok [OF s] assms by auto
  then show ?thesis using s by (simp add: ingest_event_def event_key_def)
qed

end

text \<open>
  C19.  Redis keys of different tenants collide.  While no command fails: after an event b:c of
  organisation a is accepted, an event c of organisation a:b is answered as a duplicate, although it
  is another event of another organisation; and as soon as an end user u of organisation a is cached,
  the check that an organisation exists accepts the name a:enduser:u, whether or not it exists.
\<close>

theorem keys_collide:
  assumes "backend_up sv kv bf db sent" and "publisher_ok sv h"
    and "request_event ent1 r1 = Some e1" and "OrgID e1 = a" and "EventID e1 = b @ '':'' @ c"
    and "HandleSingleEvent sv h env ent1 r1 w = (resp, w')" and "status resp = 202"
    and "request_event ent2 r2 = Some e2" and "OrgID e2 = a @ '':'' @ b" and "EventID e2 = c"
  shows "fst (HandleSingleEvent sv h env ent2 r2 w')
      = writeError 409 ''DUPLICATE_EVENT'' (''event '' @ c @ '' already processed'')
    \<and> (kv w2 (eu_key a u) \<noteq> None \<longrightarrow> fst (verifyOrg sv h (a @ '':enduser:'' @ u) w2) = None)"
proof -
  have bk: "backend sv kv bf db sent" using assms(1) by (simp add: backend_up_def)
  obtain e where "event_of_request ent1 r1 = Some e" "kv w' (event_key e) = Some ''1''"
    using backend.accepted_step [OF bk assms(2,6,7)] by metis
  moreover have "event_of_request ent1 r1 = Some e1"
    using assms(3) by (auto simp: request_event_def split: if_splits option.splits)
  ultimately have "kv w' (event_key e2) \<noteq> None"
    using assms(4,5,9,10) by (simp add: event_key_def colon_keys(1) [simplified])
  from backend_up.taken_key_duplicate [OF assms(1) this]
  have "fst (ingest_event sv h env e2 w') = writeError 409 ''DUPLICATE_EVENT'' (''event '' @ c @ '' already processed'')"
    by (simp add: assms(10))
  then show ?thesis
    using HandleSingleEvent_request(1) [of sv h env ent2 r2 w'] assms(8)
    by (simp add: backend_up.verifyOrg_iff [OF assms(1)] colon_keys(2) [simplified])
qed

text \<open>Organisations acme and acme:x, and their events x:e1 and e1.\<close>

definition colon_body :: string where
  "colon_body = json_print (JObj [(''event_id'', JStr ''x:e1''), (''event_type'', JStr ''llm''), (''model'', JStr ''m'')])"

definition colon_event :: UsageEvent where
  "colon_event = zero_event\<lparr>EventID := ''x:e1'', EventType := ''llm'', Model := ''m''\<rparr>"

definition colon_request :: request where
  "colon_request = demo_ingest_request\<lparr>r_Body := colon_body\<rparr>"

definition colon_tenant :: KeyContext where
  "colon_tenant = demo_key_context\<lparr>kc_OrgID := ''acme:x''\<rparr>"

lemma colon_unmarshal: "unmarshal_event colon_body = Inr colon_event"
  by code_simp

lemma colon_body_short: "length colon_body \<le> 100"
  by code_simp

lemma colon_requests:
  "request_event demo_entropy colon_request = Some (EnrichFromKeyContext demo_entropy demo_key_context colon_event)"
  "request_event demo_entropy (demo_ingest_request\<lparr>r_KeyContext := Some colon_tenant\<rparr>)
     = Some (EnrichFromKeyContext demo_entropy colon_tenant demo_event)"
proof -
  have v: "Validate colon_event = None" "Validate demo_event = None"
    by (simp_all add: Validate_def colon_event_def demo_event_def zero_event_def)
  show "request_event demo_entropy colon_request = Some (EnrichFromKeyContext demo_entropy demo_key_context colon_event)"
    using colon_body_short
    by (simp add: request_event_def colon_request_def demo_ingest_request_def demo_request_def ReadAll_limited_def
        DefaultMaxBodySize_def event_of_request_def colon_unmarshal Enrich_Validate v)
  show "request_event demo_entropy (demo_ingest_request\<lparr>r_KeyContext := Some colon_tenant\<rparr>)
     = Some (EnrichFromKeyContext demo_entropy colon_tenant demo_event)"
    using demo_body_short
    by (simp add: request_event_def demo_ingest_request_def demo_request_def ReadAll_limited_def
        event_of_request_def demo_unmarshal Enrich_Validate v)
qed

theorem keys_collide_witness:
  "\<exists>resp w'. HandleSingleEvent (ref_services False) (demo_handler False) (\<lambda>_. []) demo_entropy colon_request demo_org_world
       = (resp, w') \<and> status resp = 202
     \<and> fst (HandleSingleEvent (ref_services False) (demo_handler False) (\<lambda>_. []) demo_entropy
           (demo_ingest_request\<lparr>r_KeyContext := Some colon_tenant\<rparr>) w')
         = writeError 409 ''DUPLICATE_EVENT'' ''event e1 already processed''
     \<and> fst (verifyOrg (ref_services False) (demo_handler False) ''acme:enduser:u''
           (demo_org_world\<lparr>rw_kv := [eu_key ''acme'' ''u'' \<mapsto> ''1'']\<rparr>)) = None"
proof -
  let ?e = "EnrichFromKeyContext demo_entropy demo_key_context colon_event"
  have f: "OrgID ?e = ''acme''" "EventID ?e = ''x'' @ '':'' @ ''e1''" "EndUserID ?e = []"
    by (simp_all add: Enrich_simps demo_key_context_def colon_event_def zero_event_def)
  have g: "OrgID (EnrichFromKeyContext demo_entropy colon_tenant demo_event) = ''acme'' @ '':'' @ ''x''"
    "EventID (EnrichFromKeyContext demo_entropy colon_tenant demo_event) = ''e1''"
    by (simp_all add: Enrich_simps colon_tenant_def demo_event_def)
  obtain resp w' where h: "HandleSingleEvent (ref_services False) (demo_handler False) (\<lambda>_. []) demo_entropy
      colon_request demo_org_world = (resp, w')" by fastforce
  have "admitted (h_PG (demo_handler False)) (rw_kv demo_org_world) (rw_db demo_org_world) ?e"
    unfolding admitted_def event_key_def f by (simp add: demo_org_world_def empty_world_def)
  then have "status (fst (ingest_event (ref_services False) (demo_handler False) (\<lambda>_. []) ?e demo_org_world)) = 202"
    by (simp only: ref_up.ingest_event_iff [OF request_event_total [OF colon_requests(1)]])
  moreover have "ingest_event (ref_services False) (demo_handler False) (\<lambda>_. []) ?e demo_org_world = (resp, w')"
    using HandleSingleEvent_request(1) h colon_requests(1) by (metis option.simps(5))
  ultimately have st: "status resp = 202" by (simp only: fst_conv)
  from keys_collide [OF ref_up.backend_up_axioms demo_publisher colon_requests(1) f(1,2) h st colon_requests(2) g,
      of "demo_org_world\<lparr>rw_kv := [eu_key ''acme'' ''u'' \<mapsto> ''1'']\<rparr>" "''u''"] h st
  show ?thesis by simp
qed

end
