(* ===== verification/Delivery.thy ===== *)
theory Delivery
  imports Pipeline
begin

text \<open>
  The programs together, under concurrency: ingest handlers that serve decoded requests in any
  interleaving, the topic between the programs, and the worker that consumes a part of it.  What the
  worker stores is what the handlers accepted, and no event of the single-event endpoint is stored
  twice.
\<close>

section \<open>The events of a handler\<close>

fun single_events :: "single_pc \<Rightarrow> UsageEvent list" where
  "single_events (TakeKey e) = [e]"
| "single_events (OrgCache e) = [e]"
| "single_events (OrgQuery e) = [e]"
| "single_events (OrgFill e) = [e]"
| "single_events (EuCache e) = [e]"
| "single_events (EuQuery e) = [e]"
| "single_events (EuFill e) = [e]"
| "single_events (GiveBack e r) = [e]"
| "single_events (Publishing e m) = [e]"
| "single_events (Answered r) = []"

fun batch_events :: "batch_pc \<Rightarrow> UsageEvent list" where
  "batch_events (AtEvent st rest) = Accepted (bs_result st) @ map snd rest"
| "batch_events (AskBloom st e rest) = Accepted (bs_result st) @ e # map snd rest"
| "batch_events (AskIdem st e x rest) = Accepted (bs_result st) @ e # map snd rest"
| "batch_events (AddBloom st e x rest) = Accepted (bs_result st) @ e # map snd rest"
| "batch_events (AddIdem st e rest) = Accepted (bs_result st) @ e # map snd rest"
| "batch_events (BatchPublish res) = Accepted res"
| "batch_events (BatchAnswered rep) = []"

fun thread_events :: "thread \<Rightarrow> UsageEvent list" where
  "thread_events (Single pc) = single_events pc"
| "thread_events (Batch j pc) = batch_events pc"

fun acceptance_events :: "acceptance \<Rightarrow> UsageEvent list" where
  "acceptance_events (One e) = [e]"
| "acceptance_events (Many org es) = es"

definition accepted_events :: "acceptance list \<Rightarrow> UsageEvent list" where
  "accepted_events accs = concat (map acceptance_events accs)"

text \<open>Events do not appear from nowhere.\<close>

lemma after_events [simp]: "set (single_events (after_checks e)) = {e}" "set (single_events (after_org e)) = {e}"
  by (simp_all add: after_org_def after_checks_def split: option.split)

lemma single_step_events:
  assumes "single_step sv h env pc w = (pc', w')"
  shows "set (single_events pc') \<subseteq> set (single_events pc)"
proof -
  have "set (single_events (fst (single_step sv h env pc w))) \<subseteq> set (single_events pc)"
    by (cases pc) (auto simp: Let_def split_beta split: sum.splits)
  then show ?thesis using assms by simp
qed

lemma batch_step_events:
  assumes "batch_step sv h j pc w = (pc', w')"
  shows "set (batch_events pc') \<subseteq> set (batch_events pc)"
  using assms
proof (induction sv h j pc w rule: batch_step.induct)
  case (2 sv h j st i e rest w)
  then show ?case by (auto simp: Let_def count_failure_def split: if_splits)
qed (auto simp: Let_def accept_in_def duplicate_in_def count_duplicate_def
      split: prod.splits sum.splits option.splits if_splits)

lemma thread_step_events:
  "thread_step sv h env t w = (t', w') \<Longrightarrow> set (thread_events t') \<subseteq> set (thread_events t)"
  by (cases t) (auto simp: map_prod_def split: prod.splits dest!: single_step_events batch_step_events)

lemma accepts_events: "set (accepted_events (accepts t)) \<subseteq> set (thread_events t)"
  by (cases t rule: accepts.cases) (simp_all add: accepted_events_def)

section \<open>Runs that serve requests\<close>

text \<open>
  A handler is started by a request: a single event that the handler has decoded, enriched and found
  valid, or a batch that has been parsed and enriched, under a key context with valid strings.  All
  other steps are those of \<open>system_step\<close>.
\<close>

inductive served_reach ::
  "'w services \<Rightarrow> 'w IngestHandler \<Rightarrow> environ \<Rightarrow> ('w \<Rightarrow> string \<Rightarrow> string option)
   \<Rightarrow> ('w \<Rightarrow> (string \<times> string) list) \<Rightarrow> 'w \<Rightarrow> 'w system \<Rightarrow> bool"
  for sv h env kv sent w0 where
  served_init: "served_reach sv h env kv sent w0 (sys_start w0)"
| served_single: "served_reach sv h env kv sent w0 S \<Longrightarrow> request_event ent r = Some e \<Longrightarrow>
     r_KeyContext r = Some kc \<Longrightarrow> kc_typed kc \<Longrightarrow>
     served_reach sv h env kv sent w0 (S\<lparr>sys_threads := sys_threads S @ [Single (TakeKey e)]\<rparr>)"
| served_batch: "served_reach sv h env kv sent w0 S \<Longrightarrow> ParseIngestBatch body = Inr events \<Longrightarrow> kc_typed kc \<Longrightarrow>
     served_reach sv h env kv sent w0
       (S\<lparr>sys_threads := sys_threads S @ [Batch j (batch_start j (enrich_all ents kc events))]\<rparr>)"
| served_step: "served_reach sv h env kv sent w0 S \<Longrightarrow> system_step sv h env kv sent S S' \<Longrightarrow>
     length (sys_threads S') \<le> length (sys_threads S) \<Longrightarrow> served_reach sv h env kv sent w0 S'"

lemma served_system:
  "served_reach sv h env kv sent w0 S \<Longrightarrow> system_reach sv h env kv sent (sys_start w0) S"
proof (induction rule: served_reach.induct)
  case (served_single S ent r e kc)
  then show ?case using request_event_typed(4) [OF served_single(2-4)] by (blast intro: sr_step sy_single)
qed (blast intro: system_reach.intros system_step.intros)+

definition system_events :: "'w system \<Rightarrow> UsageEvent set" where
  "system_events S = (\<Union>t \<in> set (sys_threads S). set (thread_events t)) \<union> set (accepted_events (sys_log S))"

lemma move_events:
  assumes "i < length (sys_threads S)"
  shows "system_events (move sv h env i S) \<subseteq> system_events S"
proof -
  define t where "t = sys_threads S ! i"
  obtain t' w' where st: "thread_step sv h env t (sys_world S) = (t', w')" by fastforce
  have t: "t \<in> set (sys_threads S)" using assms by (simp add: t_def)
  have "set ((sys_threads S)[i := t']) \<subseteq> insert t' (set (sys_threads S))" by (rule set_update_subset_insert)
  then show ?thesis
    using thread_step_events [OF st] accepts_events [of t] t
    by (fastforce simp: system_events_def move_def accepted_events_def st simp flip: t_def)
qed

lemma step_events:
  assumes "system_step sv h env kv sent S S'" and "length (sys_threads S') \<le> length (sys_threads S)"
  shows "system_events S' \<subseteq> system_events S"
  using assms
proof (induction rule: system_step.induct)
  case (sy_cut i S)
  have "set (take i (sys_threads S) @ drop (Suc i) (sys_threads S)) \<subseteq> set (sys_threads S)"
    by (auto dest: in_set_takeD in_set_dropD)
  then show ?case by (auto simp: system_events_def)
qed (auto simp: system_events_def dest: move_events [THEN subsetD, unfolded system_events_def])

lemma batch_start_events: "set (batch_events (batch_start j es)) \<subseteq> set es"
  by (auto simp: batch_start_def zero_result_def in_set_enumerate_eq split: option.splits intro: nth_mem)

lemma enrich_all_typed:
  "list_all event_typed events \<Longrightarrow> kc_typed kc \<Longrightarrow> list_all event_typed (enrich_all ents kc events)"
  by (auto simp: enrich_all_def list_all_iff in_set_enumerate_eq intro!: Enrich_typed)

lemma served_typed:
  "served_reach sv h env kv sent w0 S \<Longrightarrow> \<forall>e \<in> system_events S. event_typed e"
proof (induction rule: served_reach.induct)
  case served_init
  show ?case by (simp add: system_events_def sys_start_def accepted_events_def)
next
  case (served_single S ent r e kc)
  then show ?case using request_event_typed(1) [OF served_single(2-4)] by (auto simp: system_events_def)
next
  case (served_batch S body events kc j ents)
  have "list_all event_typed (enrich_all ents kc events)"
    using enrich_all_typed [OF ParseIngestBatch_typed] served_batch by blast
  then show ?case using served_batch batch_start_events [of j "enrich_all ents kc events"]
    by (auto simp: system_events_def list_all_iff)
next
  case (served_step S S')
  then show ?case using step_events by blast
qed

section \<open>The topic\<close>

definition kafka_handler :: "'w services \<Rightarrow> 'w IngestHandler \<Rightarrow> bool" where
  "kafka_handler sv h \<longleftrightarrow> h_Publish h = Some (kafka_publish sv) \<and> h_PubBatch h = Some (kafka_publish_batch sv)"

text \<open>What the consumer decodes from messages.\<close>

definition decoded :: "(string \<times> string) list \<Rightarrow> (consumer_error, UsageEvent) result list" where
  "decoded ms = map (\<lambda>m. DeserializeEvent (fst m)) ms"

lemma acceptance_decoded:
  assumes "kafka_handler sv h" and "\<forall>e \<in> set (acceptance_events a). event_typed e"
  shows "decoded (acceptance_messages h a) = map Inr (acceptance_events a)"
proof -
  have m: "\<exists>msg. marshal_event e = Some msg \<and> DeserializeEvent msg = Inr e" if "e \<in> set (acceptance_events a)" for e
    using assms(2) that typed_message_exists [of e] by metis
  show ?thesis
  proof (cases a)
    case (One e)
    then show ?thesis
      using assms(1) m [of e] by (auto simp: decoded_def kafka_handler_def event_messages_def published_def)
  next
    case (Many org es)
    then show ?thesis
      using assms(1) m by (force simp: decoded_def kafka_handler_def raw_message_def)
  qed
qed

lemma log_decoded:
  assumes "kafka_handler sv h" and "\<forall>e \<in> set (accepted_events accs). event_typed e"
  shows "decoded (concat (map (acceptance_messages h) accs)) = map Inr (accepted_events accs)"
  using assms(2)
proof (induction accs)
  case (Cons a accs)
  then show ?case
    using acceptance_decoded [OF assms(1), of a] by (simp add: accepted_events_def decoded_def)
qed (simp add: accepted_events_def decoded_def)

lemma distinct_if_count: "(\<And>x. count (mset xs) x \<le> 1) \<Longrightarrow> distinct xs"
proof (induction xs)
  case (Cons a xs)
  have "count (mset xs) x \<le> count (mset (a # xs)) x" for x by simp
  then have "count (mset xs) x \<le> 1" for x using Cons.prems [of x] le_trans by blast
  moreover have "count (mset xs) a = 0" using Cons.prems [of a] by simp
  ultimately show ?case using Cons.IH by (simp add: count_mset_0_iff)
qed simp

context backend
begin

lemma served_messages:
  assumes "kafka_handler sv h" and "served_reach sv h env kv sent w0 S"
  shows "sent (sys_world S) = sent w0 @ concat (map (acceptance_messages h) (sys_log S))"
    and "decoded (drop (length (sent w0)) (sent (sys_world S))) = map Inr (accepted_events (sys_log S))"
proof -
  have "publisher_ok sv h" "batch_publisher_ok sv h"
    using assms(1) by (simp_all add: kafka_handler_def publisher_ok_def batch_publisher_ok_def)
  then have "system_ok kv sent h w0 (idem_key [] []) S"
    using system_ok_reach [OF _ _ refl served_system [OF assms(2)]] by blast
  then show s: "sent (sys_world S) = sent w0 @ concat (map (acceptance_messages h) (sys_log S))"
    unfolding system_ok_def by blast
  have "\<forall>e \<in> set (accepted_events (sys_log S)). event_typed e"
    using served_typed [OF assms(2)] by (simp add: system_events_def)
  from log_decoded [OF assms(1) this]
  show "decoded (drop (length (sent w0)) (sent (sys_world S))) = map Inr (accepted_events (sys_log S))"
    by (simp add: s)
qed

text \<open>Without expiry and without batches, no idempotency key is accepted twice.\<close>

lemma accepted_keys_distinct:
  assumes "kafka_handler sv h" and "served_reach sv h env kv sent w0 S" and "sys_expired S = []"
    and "\<forall>a \<in> set (sys_log S). \<exists>e. a = One e"
  shows "distinct (map event_key (accepted_events (sys_log S)))"
proof -
  have ok: "publisher_ok sv h" "batch_publisher_ok sv h"
    using assms(1) by (simp_all add: kafka_handler_def publisher_ok_def batch_publisher_ok_def)
  have one: "count (mset (map event_key (accepted_events accs))) K = accepted_count K accs"
    if "\<forall>a \<in> set accs. \<exists>e. a = One e" for K accs
    using that by (induction accs) (auto simp: accepted_events_def accepted_count_def)
  have "count (mset (map event_key (accepted_events (sys_log S)))) K \<le> 1" for K
  proof (cases "\<exists>o' i. K = idem_key o' i")
    case True
    then have "system_ok kv sent h w0 K S"
      using system_ok_reach [OF ok _ served_system [OF assms(2)]] by blast
    then have "accepted_count K (sys_log S) \<le> taken (kv (sys_world S)) K"
      using assms(3) by (simp add: system_ok_def)
    also have "\<dots> \<le> 1" by (simp add: taken_def)
    finally show ?thesis using one [OF assms(4)] by simp
  next
    case False
    then have "K \<notin># mset (map event_key (accepted_events (sys_log S)))" by (auto simp: event_key_def)
    then show ?thesis by (simp only: not_in_iff)
  qed
  then show ?thesis by (rule distinct_if_count)
qed

end

section \<open>The worker at the other end\<close>

lemma default_key [simp]: "event_key (defaultEvent e) = event_key e"
  by (simp add: event_key_def defaultEvent_def Let_def)

text \<open>The events that the worker has taken from the topic are the first ones accepted.\<close>

lemma consumed_events:
  assumes "map Inr (wk_added k) = decoded (take n ms)" and "decoded ms = map Inr es"
  shows "wk_added k = take n es"
proof -
  have "map Inr (wk_added k) = map (Inr :: _ \<Rightarrow> consumer_error + UsageEvent) (take n es)"
    using assms by (simp add: decoded_def flip: take_map)
  then show ?thesis by (simp add: inj_map_eq_map inj_def)
qed

lemma distinct_keys_stored:
  assumes "mset (map defaultEvent (wk_stored k @ rest)) = mset (map defaultEvent es)" and "distinct (map event_key es)"
  shows "distinct (map event_key (wk_stored k))"
proof -
  from arg_cong [OF assms(1), of "image_mset event_key"]
  have "mset (map event_key (wk_stored k @ rest)) = mset (map event_key es)"
    by (simp add: multiset.map_comp comp_def)
  then have "distinct (map event_key (wk_stored k @ rest))"
    using assms(2) mset_eq_imp_distinct_iff by blast
  then show ?thesis by simp
qed

section \<open>Properties\<close>

text \<open>
  C18.  What is stored is what was accepted.  Let any number of ingest handlers serve requests, in any
  interleaving and with any failures, and let a worker consume the first n of the messages that they
  have published.  Then the events it consumes are the first n accepted events, in order, and the
  events it has stored, is inserting or keeps waiting are exactly these, each as often as it was
  accepted, up to the writer's defaults.
\<close>

theorem stored_is_accepted:
  assumes "backend sv kv bf db sent" and "kafka_handler sv h" and "served_reach sv h env kv sent w0 S"
    and "NewAnalyticsService wenv = Some s" and "worker_reach InsertEventBatch (worker_init s wr) k"
    and "map Inr (wk_added k) = decoded (take n (drop (length (sent w0)) (sent (sys_world S))))"
  shows "wk_added k = take n (accepted_events (sys_log S))
    \<and> mset (map defaultEvent (worker_contents k)) = mset (map defaultEvent (take n (accepted_events (sys_log S))))"
proof
  show a: "wk_added k = take n (accepted_events (sys_log S))"
    by (rule consumed_events [OF assms(6) backend.served_messages(2) [OF assms(1-3)]])
  show "mset (map defaultEvent (worker_contents k)) = mset (map defaultEvent (take n (accepted_events (sys_log S))))"
    using ch.contents_reach [OF assms(5) NewAnalyticsService_empty [OF assms(4)]] a by simp
qed


subsection \<open>A run\<close>

lemma served_schedule:
  "served_reach sv h env kv sent w0 S \<Longrightarrow> served_reach sv h env kv sent w0 (schedule sv h env is S)"
proof (induction "is" arbitrary: S)
  case (Cons i "is")
  have "length (sys_threads (move sv h env i S)) \<le> length (sys_threads S)"
    by (simp add: move_def Let_def split: prod.split)
  then show ?case using Cons served_step [OF Cons.prems sy_move] by simp
qed simp

lemma schedule_expired: "sys_expired (schedule sv h env is S) = sys_expired S"
  by (induction "is" arbitrary: S) (simp_all add: move_def split_beta Let_def)

lemma demo_request_event: "request_event demo_entropy demo_ingest_request = Some demo_enriched"
  using demo_event_of_request demo_validate demo_body_short
  by (simp add: request_event_def demo_ingest_request_def demo_request_def ReadAll_limited_def)

lemma demo_served:
  "served_reach (ref_services False) (demo_handler False) (\<lambda>_. []) rw_kv rw_sent demo_org_world
     (schedule (ref_services False) (demo_handler False) (\<lambda>_. []) [0, 1, 0, 0]
       (demo_threads [Single (TakeKey demo_enriched), Single (TakeKey demo_enriched)] demo_org_world))"
proof (rule served_schedule)
  have kc: "r_KeyContext demo_ingest_request = Some demo_key_context" "kc_typed demo_key_context"
    using unmarshal_key_context_typed [OF unmarshal_demo_key] by (simp_all add: demo_ingest_request_def)
  show "served_reach (ref_services False) (demo_handler False) (\<lambda>_. []) rw_kv rw_sent demo_org_world
     (demo_threads [Single (TakeKey demo_enriched), Single (TakeKey demo_enriched)] demo_org_world)"
    unfolding demo_threads_eq Let_def
    by (rule served_single [OF served_single [OF served_init demo_request_event kc] demo_request_event kc])
qed

lemma demo_kafka: "kafka_handler (ref_services f) (demo_handler f)"
  by (simp add: kafka_handler_def demo_handler_def NewIngestHandler_def)

text \<open>Two requests with the same event: one is accepted, and a worker that consumes the topic stores it.\<close>

lemma demo_delivery:
  obtains S k where "served_reach (ref_services False) (demo_handler False) (\<lambda>_. []) rw_kv rw_sent demo_org_world S"
    "sys_log S = [One demo_enriched]" "sys_expired S = []"
    "worker_reach InsertEventBatch (worker_init demo_service demo_writer) k" "wk_stored k = [defaultEvent demo_enriched]"
    "map Inr (wk_added k) = decoded (take 1 (drop (length (rw_sent demo_org_world)) (rw_sent (sys_world S))))"
proof -
  define S where "S = schedule (ref_services False) (demo_handler False) (\<lambda>_. []) [0, 1, 0, 0]
       (demo_threads [Single (TakeKey demo_enriched), Single (TakeKey demo_enriched)] demo_org_world)"
  have r: "served_reach (ref_services False) (demo_handler False) (\<lambda>_. []) rw_kv rw_sent demo_org_world S"
    unfolding S_def by (rule demo_served)
  have l: "sys_log S = [One demo_enriched]" unfolding S_def by (rule demo_interleaving)
  have x: "sys_expired S = []"
    by (simp only: S_def schedule_expired) (simp add: demo_threads_def sys_start_def)
  obtain k where k: "worker_reach InsertEventBatch (worker_init demo_service demo_writer) k"
    "wk_added k = [demo_enriched]" "wk_stored k = [defaultEvent demo_enriched]"
    using worker_stores [of "worker_init demo_service demo_writer" "[demo_enriched]"]
    by (auto simp: worker_init_def demo_service_def)
  have "decoded (drop (length (rw_sent demo_org_world)) (rw_sent (sys_world S))) = [Inr demo_enriched]"
    using ref_up.served_messages(2) [OF demo_kafka r] l by (simp add: accepted_events_def)
  then have "decoded (take 1 (drop (length (rw_sent demo_org_world)) (rw_sent (sys_world S)))) = [Inr demo_enriched]"
    by (simp add: decoded_def flip: take_map)
  then show thesis using that r l x k by simp
qed

theorem stored_is_accepted_witness:
  "\<exists>S k. served_reach (ref_services False) (demo_handler False) (\<lambda>_. []) rw_kv rw_sent demo_org_world S
     \<and> worker_reach InsertEventBatch (worker_init demo_service demo_writer) k
     \<and> wk_added k = [demo_enriched] \<and> wk_stored k = [defaultEvent demo_enriched]"
proof -
  obtain S k where d: "served_reach (ref_services False) (demo_handler False) (\<lambda>_. []) rw_kv rw_sent demo_org_world S"
    "sys_log S = [One demo_enriched]" "worker_reach InsertEventBatch (worker_init demo_service demo_writer) k"
    "wk_stored k = [defaultEvent demo_enriched]"
    "map Inr (wk_added k) = decoded (take 1 (drop (length (rw_sent demo_org_world)) (rw_sent (sys_world S))))"
    by (rule demo_delivery) blast
  from stored_is_accepted [OF ref_up.backend_axioms demo_kafka d(1) demo_new_service d(3,5)] d show ?thesis
    by (auto simp: accepted_events_def)
qed


end
