(* ===== verification/Fixture.thy ===== *)
theory Fixture
  imports Models
begin

text \<open>
  \<^verbatim>\<open>engine/internal/fixture/generator.go\<close>: the generator of test events.  The random source of
  \<^verbatim>\<open>math/rand\<close> is a record of its operations over an abstract state, and \<open>rand_ok\<close> states the ranges
  that its documentation gives; the clock is a function from the event's index to the time at which
  it is read.  Products and sums of doubles are rounded one by one, as they are without a fused
  multiply-add.
\<close>

section \<open>The verbs of fmt that the generator uses\<close>

fun show_hex :: "nat \<Rightarrow> string" where
  "show_hex n = (if n < 16 then [hex_digit n] else show_hex (n div 16) @ [hex_digit (n mod 16)])"

declare show_hex.simps [simp del]

definition pad_zeros :: "nat \<Rightarrow> string \<Rightarrow> string" where
  "pad_zeros width ds = replicate (width - length ds) (CHR ''0'') @ ds"

text \<open>\<^verbatim>\<open>%0nd\<close> and \<^verbatim>\<open>%0nx\<close>: the sign counts towards the width and precedes the zeros.\<close>

definition fmt_zero :: "(nat \<Rightarrow> string) \<Rightarrow> nat \<Rightarrow> int \<Rightarrow> string" where
  "fmt_zero digits width v =
     (if v < 0 then CHR ''-'' # pad_zeros (width - 1) (digits (nat (- v))) else pad_zeros width (digits (nat v)))"

text \<open>\<^verbatim>\<open>%.nf\<close> of a double that is not negative.\<close>

definition fmt_fixed :: "nat \<Rightarrow> float64 \<Rightarrow> string" where
  "fmt_fixed prec x =
     (let k = nat (round_half_even (x * 10 ^ prec))
      in show_nat (k div 10 ^ prec) @ ''.'' @ pad_zeros prec (show_nat (k mod 10 ^ prec)))"

section \<open>The generator\<close>

record 'g math_rand =
  mr_New :: "int64 \<Rightarrow> 'g"
  mr_Intn :: "int \<Rightarrow> 'g \<Rightarrow> int \<times> 'g"
  mr_Float64 :: "'g \<Rightarrow> float64 \<times> 'g"
  mr_Int63 :: "'g \<Rightarrow> int \<times> 'g"

definition rand_ok :: "'g math_rand \<Rightarrow> bool" where
  "rand_ok R \<longleftrightarrow>
     (\<forall>n g. 0 < n \<longrightarrow> 0 \<le> fst (mr_Intn R n g) \<and> fst (mr_Intn R n g) < n)
     \<and> (\<forall>g. 0 \<le> fst (mr_Float64 R g) \<and> fst (mr_Float64 R g) < 1)
     \<and> (\<forall>g. 0 \<le> fst (mr_Int63 R g) \<and> fst (mr_Int63 R g) < 2 ^ 63)"

record 'g Generator =
  g_rng :: 'g
  g_seed :: int64

definition NewGenerator :: "'g math_rand \<Rightarrow> int64 \<Rightarrow> 'g Generator" where
  "NewGenerator R seed = \<lparr>g_rng = mr_New R seed, g_seed = seed\<rparr>"

definition Generator_Seed :: "'g Generator \<Rightarrow> int64" where
  "Generator_Seed g = g_seed g"

definition models_pool :: "string list" where
  "models_pool = [''gpt-4'', ''gpt-3.5-turbo'', ''claude-3-opus'', ''claude-3-sonnet'', ''gemini-pro'']"

definition eventTypes :: "string list" where
  "eventTypes = [''chat.completion'', ''embedding'', ''image.generation'']"

definition statuses :: "string list" where
  "statuses = [''success'', ''success'', ''success'', ''error'']"

definition endUserPool :: "string list" where
  "endUserPool = [''eu-00000000-0000-4000-a000-000000000001'', ''eu-00000000-0000-4000-a000-000000000002'',
     ''eu-00000000-0000-4000-a000-000000000003'']"

definition pick :: "'g math_rand \<Rightarrow> string list \<Rightarrow> 'g \<Rightarrow> string \<times> 'g" where
  "pick R xs g = (let (k, g') = mr_Intn R (int (length xs)) g in (xs ! nat k, g'))"

text \<open>\<^verbatim>\<open>fmt.Sprintf("%.9f", float64(in+out)*0.000001 + r*0.001)\<close>, an overflow being infinite.\<close>

definition cost_text :: "int32 \<Rightarrow> float64 \<Rightarrow> string" where
  "cost_text tokens r =
     (let sum = Option.bind (to_float64 (1 / 1000000)) (\<lambda>micro.
                Option.bind (to_float64 (1 / 1000)) (\<lambda>milli.
                Option.bind (to_float64 (float_of_int32 tokens * micro)) (\<lambda>a.
                Option.bind (to_float64 (r * milli)) (\<lambda>b. to_float64 (a + b)))))
      in case sum of Some x \<Rightarrow> fmt_fixed 9 x | None \<Rightarrow> ''+Inf'')"

definition fixture_id :: "int64 \<Rightarrow> nat \<Rightarrow> string" where
  "fixture_id seed i = ''evt-'' @ fmt_zero show_nat 16 (sint seed) @ ''-'' @ fmt_zero show_hex 8 (int i)"

text \<open>One round of the loop; the calls of the source are made in the order of the code.\<close>

definition gen_event ::
  "'g math_rand \<Rightarrow> int64 \<Rightarrow> int64 \<Rightarrow> string \<Rightarrow> string \<Rightarrow> nat \<Rightarrow> 'g \<Rightarrow> UsageEvent \<times> 'g" where
  "gen_event R now seed orgID customerID i g0 =
     (let (endUserID, g1) = pick R endUserPool g0;
          (model, g2) = pick R models_pool g1;
          (a, g3) = mr_Intn R 2000 g2;
          inputTokens = (word_of_int (50 + a) :: int32);
          (b, g4) = mr_Intn R 1000 g3;
          outputTokens = (word_of_int (20 + b) :: int32);
          (c, g5) = mr_Intn R 3 g4;
          (thinkingTokens, g6) =
            (if c = 0 then (let (t, g') = mr_Intn R 500 g5 in (word_of_int t :: int32, g')) else (0, g5));
          (f, g7) = mr_Float64 R g6;
          cost = cost_text (inputTokens + outputTokens) f;
          (eventType, g8) = pick R eventTypes g7;
          (st, g9) = pick R statuses g8;
          (back, g10) = mr_Intn R (3600 * 1000) g9
      in (zero_event\<lparr>EventID := fixture_id seed i, OrgID := orgID, CustomerID := customerID, EndUserID := endUserID,
            SourceMode := SourceModeDirectIngest, KeyID := ''key-dev-000000000000'', EventType := eventType,
            Model := model, InputTokens := inputTokens, OutputTokens := outputTokens,
            ThinkingTokens := thinkingTokens,
            TotalTokens := float_of_int32 (inputTokens + outputTokens + thinkingTokens),
            Cost := cost, Status := st, Service := ''openai'', TimestampMs := now - word_of_int back\<rparr>, g10))"

fun gen_loop ::
  "'g math_rand \<Rightarrow> (nat \<Rightarrow> int64) \<Rightarrow> int64 \<Rightarrow> string \<Rightarrow> string \<Rightarrow> nat list \<Rightarrow> 'g \<Rightarrow> UsageEvent list \<times> 'g" where
  "gen_loop R clock seed orgID customerID [] g = ([], g)"
| "gen_loop R clock seed orgID customerID (i # is) g =
     (let (e, g1) = gen_event R (clock i) seed orgID customerID i g;
          (es, g2) = gen_loop R clock seed orgID customerID is g1
      in (e # es, g2))"

text \<open>\<^verbatim>\<open>make([]models.UsageEvent, n)\<close> panics for a negative length and beyond the address space; an event
  takes 264 bytes.\<close>

definition make_events_ok :: "int \<Rightarrow> bool" where
  "make_events_ok n = (0 \<le> n \<and> 264 * n \<le> 2 ^ 48)"

definition Generate ::
  "'g math_rand \<Rightarrow> (nat \<Rightarrow> int64) \<Rightarrow> int \<Rightarrow> string \<Rightarrow> string \<Rightarrow> 'g Generator \<Rightarrow> (UsageEvent list \<times> 'g Generator) option" where
  "Generate R clock n orgID customerID g =
     (if make_events_ok n
      then (let (es, rng') = gen_loop R clock (g_seed g) orgID customerID [0..<nat n] (g_rng g)
            in Some (es, g\<lparr>g_rng := rng'\<rparr>))
      else None)"

definition GenerateBatch ::
  "'g math_rand \<Rightarrow> (nat \<Rightarrow> int64) \<Rightarrow> string \<Rightarrow> string \<Rightarrow> 'g Generator \<Rightarrow> (UsageEvent list \<times> 'g Generator) option" where
  "GenerateBatch R clock orgID customerID g = Generate R clock 50000 orgID customerID g"

definition GenerateVolume ::
  "'g math_rand \<Rightarrow> (nat \<Rightarrow> int64) \<Rightarrow> int \<Rightarrow> string \<Rightarrow> string \<Rightarrow> 'g Generator \<Rightarrow> (UsageEvent list \<times> 'g Generator) option" where
  "GenerateVolume R clock n orgID customerID g = Generate R clock n orgID customerID g"

text \<open>The two ids of a tenant: three numbers of the source follow the seed and the index.\<close>

definition tenant_id ::
  "'g math_rand \<Rightarrow> string \<Rightarrow> int64 \<Rightarrow> nat \<Rightarrow> 'g \<Rightarrow> string \<times> 'g" where
  "tenant_id R tag seed i g0 =
     (let (a, g1) = mr_Intn R 0xFFF g0;
          (b, g2) = mr_Intn R 0xFFF g1;
          (c, g3) = mr_Int63 R g2
      in (tag @ ''-'' @ fmt_zero show_hex 8 (sint seed) @ ''-'' @ fmt_zero show_hex 4 (int i)
            @ ''-4'' @ fmt_zero show_hex 3 a @ ''-a'' @ fmt_zero show_hex 3 b @ ''-'' @ fmt_zero show_hex 12 c, g3))"

fun tenant_loop ::
  "'g math_rand \<Rightarrow> (nat \<Rightarrow> nat \<Rightarrow> int64) \<Rightarrow> int \<Rightarrow> nat list \<Rightarrow> 'g Generator
   \<Rightarrow> (string \<rightharpoonup> UsageEvent list) \<Rightarrow> ((string \<rightharpoonup> UsageEvent list) \<times> 'g Generator) option" where
  "tenant_loop R clock eventsPerOrg [] g result = Some (result, g)"
| "tenant_loop R clock eventsPerOrg (i # is) g result =
     (let (orgID, g1) = tenant_id R ''org'' (g_seed g) i (g_rng g);
          (custID, g2) = tenant_id R ''cust'' (g_seed g + 1) i g1
      in case Generate R (clock i) eventsPerOrg orgID custID (g\<lparr>g_rng := g2\<rparr>) of
           None \<Rightarrow> None
         | Some (es, g') \<Rightarrow> tenant_loop R clock eventsPerOrg is g' (result(orgID \<mapsto> es)))"

definition MultiTenant ::
  "'g math_rand \<Rightarrow> (nat \<Rightarrow> nat \<Rightarrow> int64) \<Rightarrow> int \<Rightarrow> int \<Rightarrow> 'g Generator
   \<Rightarrow> ((string \<rightharpoonup> UsageEvent list) \<times> 'g Generator) option" where
  "MultiTenant R clock orgs eventsPerOrg g = tenant_loop R clock eventsPerOrg [0..<nat orgs] g Map.empty"

section \<open>Lemmas\<close>

subsection \<open>Identifiers\<close>

text \<open>Reading hexadecimal digits back; leading zeros do not count.\<close>

definition read_hex :: "string \<Rightarrow> nat" where
  "read_hex s = foldl (\<lambda>n c. 16 * n + (if of_char c < (58 :: nat) then of_char c - 48 else of_char c - 87)) 0 s"

lemma read_hex_snoc_digit: "n < 16 \<Longrightarrow> read_hex (s @ [hex_digit n]) = 16 * read_hex s + n"
  by (auto simp: read_hex_def hex_digit_def)

lemma read_show_hex: "read_hex (show_hex n) = n"
proof (induction n rule: show_hex.induct)
  case (1 n)
  show ?case
    using 1 read_hex_snoc_digit [of n "[]"] read_hex_snoc_digit [of "n mod 16" "show_hex (n div 16)"]
    by (subst show_hex.simps) (auto simp: read_hex_def)
qed

lemma read_hex_pad: "read_hex (pad_zeros width s) = read_hex s"
proof -
  have "foldl f (0 :: nat) (replicate k (CHR ''0'')) = 0" if "f 0 (CHR ''0'') = 0" for f k
    using that by (induction k) simp_all
  then show ?thesis by (simp add: read_hex_def pad_zeros_def)
qed

lemma read_fmt_hex: "read_hex (fmt_zero show_hex width (int i)) = i"
  by (simp add: fmt_zero_def read_hex_pad read_show_hex)

lemma fmt_hex_inj: "fmt_zero show_hex width (int i) = fmt_zero show_hex width (int j) \<longleftrightarrow> i = j"
  using read_fmt_hex by metis

lemma fixture_id_inj [simp]: "fixture_id seed i = fixture_id seed j \<longleftrightarrow> i = j"
  by (simp add: fixture_id_def fmt_hex_inj)

subsection \<open>Events\<close>

lemma rand_Intn:
  assumes "rand_ok R" and "0 < n" and "mr_Intn R n g = (k, g')"
  shows "0 \<le> k" and "k < n"
  using assms unfolding rand_ok_def by (metis fst_conv)+

lemma pick_mem:
  assumes "rand_ok R" and "xs \<noteq> []" and "pick R xs g = (x, g')"
  shows "x \<in> set xs"
proof -
  obtain k where k: "mr_Intn R (int (length xs)) g = (k, g')" "x = xs ! nat k"
    using assms(3) by (auto simp: pick_def split: prod.splits)
  with rand_Intn [OF assms(1) _ k(1)] assms(2) show ?thesis by (auto intro!: nth_mem)
qed

text \<open>What a generated event looks like.\<close>

definition fixture_event :: "int64 \<Rightarrow> int64 \<Rightarrow> string \<Rightarrow> string \<Rightarrow> nat \<Rightarrow> UsageEvent \<Rightarrow> bool" where
  "fixture_event now seed orgID customerID i e \<longleftrightarrow>
     EventID e = fixture_id seed i \<and> OrgID e = orgID \<and> CustomerID e = customerID
     \<and> EndUserID e \<in> set endUserPool \<and> Model e \<in> set models_pool \<and> EventType e \<in> set eventTypes
     \<and> sint (InputTokens e) \<in> {50..2049} \<and> sint (OutputTokens e) \<in> {20..1019} \<and> sint (ThinkingTokens e) \<in> {0..499}
     \<and> TotalTokens e = of_int (sint (InputTokens e) + sint (OutputTokens e) + sint (ThinkingTokens e))
     \<and> (\<exists>back. 0 \<le> back \<and> back < 3600000 \<and> TimestampMs e = now - word_of_int back)"

lemma small_word: "0 \<le> v \<Longrightarrow> v < 10000 \<Longrightarrow> sint (word_of_int v :: int32) = v"
  by (simp add: signed_of_int signed_take_bit_int_eq_self)

lemma small_sum:
  fixes x y :: int32
  assumes "0 \<le> sint x" "0 \<le> sint y" "sint x + sint y < 10000"
  shows "sint (x + y) = sint x + sint y"
proof -
  have "x + y = word_of_int (sint x + sint y)" by simp
  then show ?thesis using small_word [of "sint x + sint y"] assms by simp
qed

lemma gen_event_ok:
  assumes "rand_ok R" and "gen_event R now seed orgID customerID i g = (e, g')"
  shows "fixture_event now seed orgID customerID i e"
proof -
  obtain eu g1 where p1: "pick R endUserPool g = (eu, g1)" by fastforce
  obtain md g2 where p2: "pick R models_pool g1 = (md, g2)" by fastforce
  obtain a g3 where n1: "mr_Intn R 2000 g2 = (a, g3)" by fastforce
  obtain b g4 where n2: "mr_Intn R 1000 g3 = (b, g4)" by fastforce
  obtain c g5 where n3: "mr_Intn R 3 g4 = (c, g5)" by fastforce
  obtain t0 g5' where n4: "mr_Intn R 500 g5 = (t0, g5')" by fastforce
  define t where "t = (if c = 0 then t0 else 0)"
  define g6 where "g6 = (if c = 0 then g5' else g5)"
  obtain f g7 where n5: "mr_Float64 R g6 = (f, g7)" by fastforce
  obtain ty g8 where p3: "pick R eventTypes g7 = (ty, g8)" by fastforce
  obtain st g9 where p4: "pick R statuses g8 = (st, g9)" by fastforce
  obtain ago g10 where n6: "mr_Intn R 3600000 g9 = (ago, g10)" by fastforce
  note rg = rand_Intn [OF assms(1) _ n1] rand_Intn [OF assms(1) _ n2] rand_Intn [OF assms(1) _ n4]
    rand_Intn [OF assms(1) _ n6]
  define x y z :: int32 where "x = word_of_int (50 + a)" and "y = word_of_int (20 + b)" and "z = word_of_int t"
  have t: "0 \<le> t" "t < 500" using rg by (auto simp: t_def)
  have x: "sint x = 50 + a" unfolding x_def by (rule small_word) (use rg in auto)
  have y: "sint y = 20 + b" unfolding y_def by (rule small_word) (use rg in auto)
  have z: "sint z = t" unfolding z_def by (rule small_word) (use t in auto)
  have xy: "sint (x + y) = 70 + a + b" using small_sum [of x y] x y rg by simp
  have xyz: "sint (x + y + z) = sint x + sint y + sint z" using small_sum [of "x + y" z] x y z xy t rg by simp
  have mem: "eu \<in> set endUserPool" "md \<in> set models_pool" "ty \<in> set eventTypes"
    using pick_mem [OF assms(1) _ p1] pick_mem [OF assms(1) _ p2] pick_mem [OF assms(1) _ p3]
    by (simp_all add: endUserPool_def models_pool_def eventTypes_def)
  have "e = zero_event\<lparr>EventID := fixture_id seed i, OrgID := orgID, CustomerID := customerID, EndUserID := eu,
      SourceMode := SourceModeDirectIngest, KeyID := ''key-dev-000000000000'', EventType := ty, Model := md,
      InputTokens := x, OutputTokens := y, ThinkingTokens := z, TotalTokens := float_of_int32 (x + y + z),
      Cost := cost_text (x + y) f, Status := st, Service := ''openai'',
      TimestampMs := now - word_of_int ago\<rparr>"
    using assms(2) n5 unfolding gen_event_def t_def g6_def x_def y_def z_def
    by (simp add: p1 p2 p3 p4 n1 n2 n3 n4 n6 split: if_splits)
  then show ?thesis
    using mem x y z t xyz [THEN arg_cong [of _ _ of_int]] rg
    by (auto simp: fixture_event_def float_of_int32_def simp del: of_int_add)
qed

lemma fixture_event_valid: "fixture_event now seed o' c i e \<Longrightarrow> Validate e = None"
proof -
  assume f: "fixture_event now seed o' c i e"
  then have "0 \<le> sint (InputTokens e) + sint (OutputTokens e) + sint (ThinkingTokens e)"
    by (simp add: fixture_event_def)
  with f have "0 \<le> TotalTokens e" by (auto simp only: fixture_event_def of_int_0_le_iff)
  moreover have "Model e \<noteq> []" "EventType e \<noteq> []"
    using f by (auto simp: fixture_event_def models_pool_def eventTypes_def)
  ultimately show ?thesis using f by (simp add: fixture_event_def Validate_def)
qed

lemma gen_loop_ok:
  assumes "rand_ok R" and "gen_loop R clock seed o' c is g = (es, g')"
  shows "list_all2 (\<lambda>i e. fixture_event (clock i) seed o' c i e) is es"
  using assms(2) by (induction "is" arbitrary: g es) (auto split: prod.splits dest: gen_event_ok [OF assms(1)])

text \<open>The clock shows only in the time stamps, and organisation and customer only where they are copied.\<close>

lemma gen_event_clock:
  "gen_event R now' seed o' c i g =
     (let (e, g') = gen_event R now seed o' c i g in (e\<lparr>TimestampMs := TimestampMs e + (now' - now)\<rparr>, g'))"
  by (simp add: gen_event_def split_beta Let_def)

lemma gen_loop_clock:
  "gen_loop R clock' seed o' c is g =
     (let (es, g') = gen_loop R clock seed o' c is g
      in (map2 (\<lambda>i e. e\<lparr>TimestampMs := TimestampMs e + (clock' i - clock i)\<rparr>) is es, g'))"
proof (induction "is" arbitrary: g)
  case (Cons i "is")
  show ?case by (simp add: gen_event_clock [of R "clock' i" _ _ _ _ _ "clock i"] Cons.IH split_beta Let_def)
qed simp

lemma Generate_cases:
  assumes "Generate R clock n o' c g = Some (es, g')"
  shows "gen_loop R clock (g_seed g) o' c [0..<nat n] (g_rng g) = (es, g_rng g')" and "g_seed g' = g_seed g"
    and "make_events_ok n"
  using assms by (auto simp: Generate_def split: if_splits prod.splits)

lemma Generate_ok:
  assumes "rand_ok R" and "Generate R clock n o' c g = Some (es, g')"
  shows "length es = nat n" and "\<And>i. i < nat n \<Longrightarrow> fixture_event (clock i) (g_seed g) o' c i (es ! i)"
    and "map EventID es = map (fixture_id (g_seed g)) [0..<nat n]"
proof -
  have l: "list_all2 (\<lambda>i e. fixture_event (clock i) (g_seed g) o' c i e) [0..<nat n] es"
    by (rule gen_loop_ok [OF assms(1) Generate_cases(1) [OF assms(2)]])
  then show len: "length es = nat n" by (simp add: list_all2_conv_all_nth)
  show ev: "\<And>i. i < nat n \<Longrightarrow> fixture_event (clock i) (g_seed g) o' c i (es ! i)"
    using l by (simp add: list_all2_conv_all_nth)
  show "map EventID es = map (fixture_id (g_seed g)) [0..<nat n]"
    using len ev by (intro nth_equalityI) (auto simp: fixture_event_def)
qed

subsection \<open>Tenants\<close>

lemma show_hex_chars: "CHR ''-'' \<notin> set (show_hex n)"
proof (induction n rule: show_hex.induct)
  case (1 n)
  have "hex_digit m \<noteq> CHR ''-''" if "m < 16" for m
    using hex_digit_is_hex [OF that] by (auto simp: is_hex_char_def)
  then show ?case using 1 by (subst show_hex.simps) (auto dest: sym)
qed

lemma fmt_hex_chars: "CHR ''-'' \<notin> set (fmt_zero show_hex width (int i))"
  using show_hex_chars [of i] by (auto simp: fmt_zero_def pad_zeros_def)

lemma tenant_id_form:
  assumes "tenant_id R tag seed i g = (s, g')"
  shows "\<exists>rest. s = (tag @ ''-'' @ fmt_zero show_hex 8 (sint seed) @ ''-'') @ fmt_zero show_hex 4 (int i) @ CHR ''-'' # rest"
  using assms by (auto simp: tenant_id_def split: prod.splits)

lemma tenant_id_inj:
  assumes "tenant_id R tag seed i g = (s, g1)" and "tenant_id R tag seed j h = (s, h1)"
  shows "i = j"
  using tenant_id_form [OF assms(1)] tenant_id_form [OF assms(2)] fmt_hex_chars [of 4 i] fmt_hex_chars [of 4 j]
  by (auto simp: sep_append_inj fmt_hex_inj)

text \<open>The organisation ids of a run of the loop, each from its index.\<close>

definition tenant_of :: "'g math_rand \<Rightarrow> int64 \<Rightarrow> nat \<Rightarrow> string \<Rightarrow> bool" where
  "tenant_of R seed i s \<longleftrightarrow> (\<exists>g g'. tenant_id R ''org'' seed i g = (s, g'))"

lemma tenant_of_inj: "tenant_of R seed i s \<Longrightarrow> tenant_of R seed j s \<Longrightarrow> i = j"
  by (auto simp: tenant_of_def dest: tenant_id_inj)

lemma tenant_loop_ok:
  assumes "rand_ok R" and "tenant_loop R clock m is g result = Some (result', g')"
    and "distinct is" and "\<And>s i. s \<in> dom result \<Longrightarrow> i \<in> set is \<Longrightarrow> \<not> tenant_of R (g_seed g) i s"
    and "finite (dom result)"
  shows "card (dom result') = card (dom result) + length is \<and>
    (\<forall>s es. result' s = Some es \<longrightarrow> result s = Some es \<or>
       length es = nat m \<and> map EventID es = map (fixture_id (g_seed g)) [0..<nat m] \<and> list_all (\<lambda>e. OrgID e = s) es)"
  using assms(2-5)
proof (induction "is" arbitrary: g result)
  case (Cons i "is")
  obtain orgID g1 where o': "tenant_id R ''org'' (g_seed g) i (g_rng g) = (orgID, g1)" by fastforce
  obtain custID g2 where c: "tenant_id R ''cust'' (g_seed g + 1) i g1 = (custID, g2)" by fastforce
  obtain es h where gen: "Generate R (clock i) m orgID custID (g\<lparr>g_rng := g2\<rparr>) = Some (es, h)"
    and rest: "tenant_loop R clock m is h (result(orgID \<mapsto> es)) = Some (result', g')"
    using Cons.prems(1) o' c by (auto split: option.splits)
  have seed: "g_seed h = g_seed g" using Generate_cases(2) [OF gen] by simp
  note ok = Generate_ok [OF assms(1) gen]
  have own: "tenant_of R (g_seed g) i orgID" using o' by (auto simp: tenant_of_def)
  then have new: "orgID \<notin> dom result" using Cons.prems(3) by auto
  have nt: "\<not> tenant_of R (g_seed h) j s" if "s \<in> dom (result(orgID \<mapsto> es))" "j \<in> set is" for s j
    using that Cons.prems(2,3) own tenant_of_inj unfolding seed by (cases "s = orgID") (fastforce, auto)
  have "distinct is" "finite (dom (result(orgID \<mapsto> es)))" using Cons.prems(2,4) by simp_all
  note ih = Cons.IH [OF rest this(1) nt this(2)]
  have "card (dom result') = card (dom (result(orgID \<mapsto> es))) + length is \<and>
    (\<forall>s es'. result' s = Some es' \<longrightarrow> (result(orgID \<mapsto> es)) s = Some es' \<or>
       length es' = nat m \<and> map EventID es' = map (fixture_id (g_seed g)) [0..<nat m] \<and> list_all (\<lambda>e. OrgID e = s) es')"
    using ih unfolding seed by blast
  moreover have "list_all (\<lambda>e. OrgID e = orgID) es"
    using ok(1,2) by (auto simp: list_all_length fixture_event_def)
  ultimately show ?case using new ok Cons.prems(4) by (auto split: if_splits)
qed simp

section \<open>Properties\<close>

text \<open>
  C40.  What the generator produces.  For a random source within its documented ranges, \<open>Generate\<close>
  returns n events with pairwise different ids, each valid, with token counts in the ranges of the
  code, a total that is their sum, and a time within the hour before the clock; with another clock
  the events are the same but for the shift of their times.
\<close>

theorem Generate_events:
  assumes "rand_ok R" and "Generate R clock n orgID customerID g = Some (es, g')"
  shows "length es = nat n \<and> distinct (map EventID es) \<and> list_all (\<lambda>e. Validate e = None) es
    \<and> (\<forall>i. i < nat n \<longrightarrow> fixture_event (clock i) (g_seed g) orgID customerID i (es ! i))
    \<and> Generate R clock' n orgID customerID g =
        Some (map2 (\<lambda>i e. e\<lparr>TimestampMs := TimestampMs e + (clock' i - clock i)\<rparr>) [0..<nat n] es, g')"
proof -
  note ok = Generate_ok [OF assms] and c = Generate_cases [OF assms(2)]
  have "distinct (map EventID es)" unfolding ok(3) by (simp add: distinct_map inj_on_def)
  moreover have "list_all (\<lambda>e. Validate e = None) es"
    using ok(1) fixture_event_valid [OF ok(2)] by (simp add: list_all_length)
  moreover have "g\<lparr>g_rng := g_rng g'\<rparr> = g'" using c(2) by simp
  ultimately show ?thesis
    using ok c gen_loop_clock [of R clock' "g_seed g" orgID customerID "[0..<nat n]" "g_rng g" clock]
    by (simp add: Generate_def)
qed

text \<open>
  Ids repeat from call to call.  Two calls of \<open>Generate\<close> on one generator return events with the
  same ids, for the ids depend on the seed and the index only; so the ingest API takes a second set
  for the same organisation for duplicates of the first.  \<open>MultiTenant\<close> returns one list of events for
  each of its different organisations, all with the same ids.
\<close>

theorem Generate_repeats_ids:
  assumes "rand_ok R" and "Generate R clock n orgID customerID g = Some (es, g1)"
    and "Generate R clock' n orgID customerID' g1 = Some (es', g2)"
    and "MultiTenant R mclock orgs m g = Some (result, g3)"
  shows "map EventID es' = map EventID es \<and> card (dom result) = nat orgs
    \<and> (\<forall>s xs. result s = Some xs \<longrightarrow> map EventID xs = map (fixture_id (g_seed g)) [0..<nat m]
         \<and> list_all (\<lambda>e. OrgID e = s) xs)"
  using Generate_ok(3) [OF assms(1,2)] Generate_ok(3) [OF assms(1,3)] Generate_cases(2) [OF assms(2)]
    tenant_loop_ok [OF assms(1) assms(4) [unfolded MultiTenant_def]]
  by simp

text \<open>A source for the witnesses: a counter.\<close>

definition demo_rand :: "nat math_rand" where
  "demo_rand = \<lparr>mr_New = (\<lambda>s. unat s), mr_Intn = (\<lambda>n g. (int g mod n, Suc g)), mr_Float64 = (\<lambda>g. (0, Suc g)),
     mr_Int63 = (\<lambda>g. (int g mod 2 ^ 63, Suc g))\<rparr>"

lemma demo_rand_ok: "rand_ok demo_rand"
  by (simp add: rand_ok_def demo_rand_def)

lemma demo_generate: "\<exists>es g'. Generate demo_rand clock 3 ''acme'' c g = Some (es, g')"
  by (simp add: Generate_def make_events_ok_def split: prod.splits)

theorem Generate_events_witness:
  "\<exists>es g'. Generate demo_rand (\<lambda>_. 0) 3 ''acme'' ''c1'' (NewGenerator demo_rand 42) = Some (es, g')
     \<and> length es = 3 \<and> distinct (map EventID es) \<and> list_all (\<lambda>e. Validate e = None) es"
proof -
  obtain es g' where "Generate demo_rand (\<lambda>_. 0) 3 ''acme'' ''c1'' (NewGenerator demo_rand 42) = Some (es, g')"
    using demo_generate by blast
  from Generate_events [OF demo_rand_ok this] this show ?thesis by auto
qed

theorem Generate_repeats_ids_witness:
  "\<exists>es g1 es' g2. Generate demo_rand (\<lambda>_. 0) 3 ''acme'' ''c1'' (NewGenerator demo_rand 42) = Some (es, g1)
     \<and> Generate demo_rand (\<lambda>_. 0) 3 ''acme'' ''c1'' g1 = Some (es', g2) \<and> map EventID es' = map EventID es"
proof -
  obtain es g1 where a: "Generate demo_rand (\<lambda>_. 0) 3 ''acme'' ''c1'' (NewGenerator demo_rand 42) = Some (es, g1)"
    using demo_generate by blast
  obtain es' g2 where b: "Generate demo_rand (\<lambda>_. 0) 3 ''acme'' ''c1'' g1 = Some (es', g2)"
    using demo_generate by blast
  have "MultiTenant demo_rand (\<lambda>_ _. 0) 0 3 (NewGenerator demo_rand 42) = Some (Map.empty, NewGenerator demo_rand 42)"
    by (simp add: MultiTenant_def)
  from Generate_repeats_ids [OF demo_rand_ok a b this] a b show ?thesis by blast
qed

end
