(* ===== verification/Spec2Isabelle.thy ===== *)
theory Spec2Isabelle
  imports Delivery Fixture
begin

text \<open>
  A verification development for the event engine of QuantumBilling, the Go code under
  \<^verbatim>\<open>src/engine\<close>.  The engine meters usage: an ingest server accepts usage events under API keys,
  removes duplicates and publishes them to Kafka; a worker moves them from Kafka to ClickHouse; a keys
  server creates, lists and revokes API keys and keeps tenants' provider keys; an analytics server
  answers queries; a daemon keeps Redis in step with Postgres.  The programs share no memory: they meet
  in Redis (key contexts, existence caches, idempotency keys, Bloom filters), in Postgres and in the
  Kafka topic.

  \<^bold>\<open>How programs are modelled.\<close>  Every operation is a function at the top level of its theory, named as in
  the source where HOL allows it.  A struct is a record, an error a value of a sum type (\<open>Inl\<close>) and a
  panic a value of its own (\<open>Panicked\<close>, or \<open>None\<close> where the text says so).  Strings are byte strings,
  fixed-width integers are words, doubles are the rational numbers they denote, durations are integers
  of nanoseconds.  Random bytes, clocks and environment variables are arguments.  Log output is left out.
  Redis, Postgres and Kafka are not part of the repository: an operation that uses them takes a record
  \<open>services\<close> of commands over an abstract world, and \<open>Backend\<close> states as the locales \<open>backend\<close> (commands
  may fail) and \<open>backend_up\<close> (they do not) what the documentation of these commands promises of a single
  command.  A handler that is a function of the world runs without interruption; \<open>IngestSteps\<close> and
  \<open>IngestConc\<close> add machines that send one command at a time, other handlers that run beside them, and
  keys that expire.  \<open>Ref_Backend\<close> interprets both locales on an executable in-memory implementation,
  with and without scripted faults, on which the witnesses run.

  \<^bold>\<open>The library layer.\<close>
  \<^item> \<open>Prelude\<close>: Go's strings, numbers, hexadecimal text and FNV hash, loops that may panic, the codec
    locale.
  \<^item> \<open>GoJson\<close>, \<open>JsonRoundtrip\<close>, \<open>GoStruct\<close>: the scanner and encoder of \<^verbatim>\<open>encoding/json\<close> on bytes, that
    decoding inverts encoding, and decoding into structs.  \<open>GoNum\<close>, \<open>GoFormat\<close>, \<open>GoParse\<close>: rounding to
    doubles, shortest float text, durations, \<open>ParseFloat\<close>, host and port, SHA-256.  \<open>GoTime\<close>: calendar
    dates and RFC 3339.  \<open>AesGcm\<close>: AES and GCM, with the proof that \<open>Open\<close> inverts \<open>Seal\<close>.  \<open>Http\<close> and \<open>Mux\<close>:
    requests, replies and \<open>http.ServeMux\<close>.  \<open>JsonTypes\<close>: the scanner delivers valid UTF-8 only.

  \<^bold>\<open>The components\<close> (theory, file under \<^verbatim>\<open>src/engine\<close>, and what is shown).
  \<^item> \<open>Models\<close>, \<open>EventCodec\<close> (\<^verbatim>\<open>internal/models/models.go\<close>): events, key contexts, validation, enrichment,
    event ids, and the message format.  Enrichment does not depend on what the payload claims about
    its organisation, mode and key; ids are version 4 UUIDs; messages decode to the event they encode.
    \<open>FloatText\<close>: seventeen digits name every double, so every total has a text that reads back as it.
    \<open>EventTypes\<close>: the type invariant of decoded events, batches and key contexts.
  \<^item> \<open>Tracing\<close>, \<open>Http\<close> (\<^verbatim>\<open>internal/tracing/tracing.go\<close>): trace parents are parsed exactly.
  \<^item> \<open>Auth\<close> (\<^verbatim>\<open>internal/auth/redis_provider.go\<close>): only active keys authenticate, and the middleware lets
    only authenticated requests pass.
  \<^item> \<open>Ingest\<close> (\<^verbatim>\<open>internal/postgres/fallback.go\<close>, \<^verbatim>\<open>internal/handler/ingest_handler.go\<close>): what acceptance of
    a single event means, that a refusal leaves no trace, that an event is accepted at most once over
    any sequence of requests and failures, and that the cached checks are exact.
  \<^item> \<open>Bloom\<close>, \<open>Batch\<close>, \<open>BatchProps\<close> (\<^verbatim>\<open>internal/handler/batch_handler.go\<close>): the in-process Bloom filter has no
    false negatives, the accounting of a batch adds up, sequences of batches accept and publish each
    event once, the bulk checks agree with the single ones, and the fallback still removes repetitions.
  \<^item> \<open>IngestSteps\<close>, \<open>IngestConc\<close> (the same two files): both handlers as machines of single commands, which
    alone compute what the handlers compute; and any number of them interleaved, with failing
    commands, expiring keys and handlers cut off.  The single-event endpoint accepts an event at most
    once for each lifetime of its key; two overlapping batches can accept the same event twice.
  \<^item> \<open>Kafka\<close> (\<^verbatim>\<open>internal/kafka/producer.go\<close>, \<^verbatim>\<open>internal/consumer/consumer.go\<close>) and \<open>ClickHouse\<close>
    (\<^verbatim>\<open>internal/clickhouse/writer.go\<close>): both ends of the topic, which are placeholders in the repository and
    are modelled as such, and the writer's defaults.
  \<^item> \<open>Orchestration\<close> (\<^verbatim>\<open>internal/orchestration/analytics_service.go\<close>), \<open>WorkerApi\<close> (\<^verbatim>\<open>cmd/analytics-worker\<close>): the
    buffer as a transition system of its goroutines.  No event is lost or doubled under any
    interleaving, none waits for a wake-up that never comes, and a flush is all or nothing, for every
    writer with the contract \<open>batch_writer\<close>; a round of the consumer loop is a run of that system.
  \<^item> \<open>Keys\<close>, \<open>KeysProps\<close> (\<^verbatim>\<open>internal/keys/service.go\<close>), \<open>Byok\<close> (\<^verbatim>\<open>internal/byok/service.go\<close>), \<open>SecurityAudit\<close>
    (\<^verbatim>\<open>internal/security/audit_logger.go\<close>), \<open>KeysApi\<close> (\<^verbatim>\<open>cmd/keys-api\<close>): a created key authenticates at the
    ingest server, a revoked one still does, listing pages exactly, the encrypted table of provider
    keys is a map, audit entries are bounded, and the server never panics.
  \<^item> \<open>Daemon\<close> (\<^verbatim>\<open>internal/daemon/cache_daemon.go\<close>): what is cached, and what that makes the checks accept.
  \<^item> \<open>IngestApi\<close> (\<^verbatim>\<open>cmd/ingest-api\<close>): the server as a whole publishes only for authenticated requests and
    under the organisation of their key.
  \<^item> \<open>Analytics\<close> (\<^verbatim>\<open>internal/analytics/service.go\<close>), \<open>AnalyticsApi\<close> (\<^verbatim>\<open>cmd/analytics-api\<close>): tokens and
    scopes, date windows, the query semaphore, and the routes.
  \<^item> \<open>Programs\<close> (the main functions under \<^verbatim>\<open>cmd\<close>): what each program builds from its environment, and the
    ingest and worker processes from the signal to the exit: acknowledged events have been published,
    running requests and a batch being inserted can be cut off, and what is lost is accounted for.
  \<^item> \<open>Pipeline\<close>: the components together.  Exactly which requests the single-event endpoint accepts, and
    the way of an event from the creation of a key to the stored row; every event that decodes has a
    message that reads back as it; and which Redis keys of different tenants collide.
  \<^item> \<open>Delivery\<close>: concurrent handlers, the topic and the worker together.  What the worker stores, inserts or
    keeps is what the handlers accepted, and no event of the single-event endpoint is stored twice.
  \<^item> \<open>Fixture\<close> (\<^verbatim>\<open>internal/fixture/generator.go\<close>): the generator of test events over an abstract random
    source: its events are valid and different, and the clock shows in their times only.

  \<^bold>\<open>Interfaces.\<close>  \<open>text_codec\<close> (a text format and its reader), \<open>backend\<close> and \<open>backend_up\<close> (the services),
  \<open>cached_check\<close> (the contract of the two existence checks), \<open>membership_filter\<close> (a Bloom filter) and
  \<open>batch_writer\<close> (what the buffer needs of a writer) are locales, interpreted on the definitions of the
  components that provide them.

  \<^bold>\<open>Bounds.\<close>  No definition runs on fuel: every recursion has a termination proof.  The constants are those of
  the code: batches of at most \<^verbatim>\<open>MAX_BATCH_SIZE\<close> events, bodies of 1 MB and 500 MB, 16 shards by default,
  ten queries at once.  The theorems on the in-process Bloom filter cover 1 to 262143 shards, the range
  in which its array can be allocated and indexed.

  \<^bold>\<open>Not modelled.\<close>  Sockets, connection pools and time-outs of the network; log output; the SQL text of the
  unused insert statement; the control plane (TypeScript), the gateway callbacks (Python), the schemas,
  migrations, deployment files and documents.  In \<open>IngestConc\<close> and \<open>Delivery\<close> the bulk checks of a batch
  are not single commands: their verdicts are arbitrary, and what they, the cache daemon and other
  clients change beside idempotency keys and published messages is the arbitrary step \<open>sy_other\<close>.  The
  repository's Kafka client and ClickHouse insert are placeholders; \<open>Delivery\<close> takes the topic to deliver a
  part of what was published, in order.
\<close>

end
